(* ===== verification/BCOS_Prelude.thy ===== *)
theory BCOS_Prelude
  imports Main "HOL-Library.Word" "HOL-Library.AList"
begin

text \<open>
  The prelude of the development: the names of the program's basic types, the
  wrap-around of its fixed-width integers, the standard containers its components
  use, and the generic interfaces (a hash map, a codec, a transition system with an
  invariant) that the components are proved against.

  \<^item> \<open>byte\<close>, \<open>bytes\<close>, \<open>u256\<close> and the fixed hashes \<open>h256\<close>, \<open>h512\<close>, \<open>h520\<close> of
    libdevcore. A \<open>FixedHash<N>\<close> is an array of N bytes that the program compares
    lexicographically, which is the numeric order of the big-endian number it spells,
    so it is a word of \<open>8 * N\<close> bits here.
  \<^item> \<open>i64\<close>, \<open>u64\<close>, \<open>u32\<close>, \<open>u16\<close>, \<open>u8\<close>: the value of an \<open>int64_t\<close>, \<open>uint64_t\<close>, \<dots> that
    the given integer is converted to.
  \<^item> \<open>um_*\<close>: \<open>std::unordered_map\<close> and \<open>std::map\<close> as association lists with distinct
    keys. The order of the list stands for the order in which the program iterates
    over the container, which the C++ standard leaves open for \<open>unordered_map\<close>.
\<close>

section \<open>Basic types\<close>

type_synonym byte = "8 word"
type_synonym bytes = "byte list"
type_synonym u256 = "256 word"
type_synonym h256 = "256 word"
type_synonym h512 = "512 word"
type_synonym h520 = "520 word"

text \<open>\<open>Invalid256\<close> of libdevcore: the largest \<open>u256\<close>.\<close>

definition Invalid256 :: u256 where
  "Invalid256 = - 1"

section \<open>Fixed-width integers\<close>

definition i64 :: "int \<Rightarrow> int" where
  "i64 x = (x + 2 ^ 63) mod 2 ^ 64 - 2 ^ 63"

definition u64 :: "int \<Rightarrow> nat" where
  "u64 x = nat (x mod 2 ^ 64)"

definition u32 :: "int \<Rightarrow> nat" where
  "u32 x = nat (x mod 2 ^ 32)"

definition u16 :: "int \<Rightarrow> nat" where
  "u16 x = nat (x mod 2 ^ 16)"

definition u8 :: "int \<Rightarrow> nat" where
  "u8 x = nat (x mod 2 ^ 8)"

definition int64_range :: "int \<Rightarrow> bool" where
  "int64_range x \<longleftrightarrow> - (2 ^ 63) \<le> x \<and> x < 2 ^ 63"

named_theorems machine_int \<open>values of the fixed-width conversions in range\<close>

lemma i64_id [machine_int]: "int64_range x \<Longrightarrow> i64 x = x"
  by (simp add: i64_def int64_range_def)

lemma i64_range [simp]: "int64_range (i64 x)"
  by (simp add: i64_def int64_range_def)

lemma u16_id [machine_int]: "n < 2 ^ 16 \<Longrightarrow> u16 (int n) = n"
  by (simp add: u16_def)

lemma u16_bound [simp]: "u16 x < 65536"
  by (simp add: u16_def nat_less_iff)

lemma u32_id [machine_int]: "0 \<le> x \<Longrightarrow> x < 2 ^ 32 \<Longrightarrow> u32 x = nat x"
  by (simp add: u32_def)

lemma u32_bound [simp]: "u32 x < 4294967296"
  by (simp add: u32_def nat_less_iff)

lemma u64_bound: "u64 x < 2 ^ 64"
  by (simp add: u64_def nat_less_iff)

lemma u8_id [machine_int]: "n < 256 \<Longrightarrow> u8 (int n) = n"
  by (simp add: u8_def)

lemma u8_bound [simp]: "u8 x < 256"
  by (simp add: u8_def nat_less_iff)

section \<open>Results of operations that may throw\<close>

definition res_bind :: "'e + 'a \<Rightarrow> ('a \<Rightarrow> 'e + 'b) \<Rightarrow> 'e + 'b" where
  "res_bind m f = (case m of Inl e \<Rightarrow> Inl e | Inr x \<Rightarrow> f x)"

lemma res_bind_simps [simp]:
  "res_bind (Inl e) f = Inl e"
  "res_bind (Inr x) f = f x"
  by (simp_all add: res_bind_def)

lemma res_bind_Inr [simp]: "res_bind m f = Inr y \<longleftrightarrow> (\<exists>x. m = Inr x \<and> f x = Inr y)"
  by (simp add: res_bind_def split: sum.splits)

lemma res_bind_assoc [simp]: "res_bind (res_bind m f) g = res_bind m (\<lambda>x. res_bind (f x) g)"
  by (simp add: res_bind_def split: sum.splits)

lemma res_bind_cong [fundef_cong]:
  "m = m' \<Longrightarrow> (\<And>x. m' = Inr x \<Longrightarrow> f x = f' x) \<Longrightarrow> res_bind m f = res_bind m' f'"
  by (simp add: res_bind_def split: sum.splits)

primrec res_mapM :: "('a \<Rightarrow> 'e + 'b) \<Rightarrow> 'a list \<Rightarrow> 'e + 'b list" where
  "res_mapM f [] = Inr []"
| "res_mapM f (x # xs) = res_bind (f x) (\<lambda>y. res_bind (res_mapM f xs) (\<lambda>ys. Inr (y # ys)))"

lemma res_mapM_map: "(\<And>x. x \<in> set xs \<Longrightarrow> f (g x) = Inr x) \<Longrightarrow> res_mapM f (map g xs) = Inr xs"
  by (induction xs) auto

section \<open>Hash maps\<close>

type_synonym ('k, 'v) umap = "('k \<times> 'v) list"

definition um_ok :: "('k, 'v) umap \<Rightarrow> bool" where
  "um_ok m \<longleftrightarrow> distinct (map fst m)"

definition um_find :: "('k, 'v) umap \<Rightarrow> 'k \<Rightarrow> 'v option" where
  "um_find m k = map_of m k"

definition um_set :: "'k \<Rightarrow> 'v \<Rightarrow> ('k, 'v) umap \<Rightarrow> ('k, 'v) umap" where
  "um_set k v m = AList.update k v m"

definition um_erase :: "'k \<Rightarrow> ('k, 'v) umap \<Rightarrow> ('k, 'v) umap" where
  "um_erase k m = AList.delete k m"

definition um_erase_if :: "('k \<Rightarrow> 'v \<Rightarrow> bool) \<Rightarrow> ('k, 'v) umap \<Rightarrow> ('k, 'v) umap" where
  "um_erase_if P m = filter (\<lambda>(k, v). \<not> P k v) m"

text \<open>\<open>it->second\<close> of an entry that exists is changed in place.\<close>

definition um_adjust :: "'k \<Rightarrow> ('v \<Rightarrow> 'v) \<Rightarrow> ('k, 'v) umap \<Rightarrow> ('k, 'v) umap" where
  "um_adjust k f m = map (\<lambda>(k', v). (k', if k' = k then f v else v)) m"

text \<open>
  The contract a component relies on when it keeps its state in a map: what a lookup
  returns after each update, how the number of entries changes, and that every update
  keeps the keys distinct.
\<close>

locale hash_map =
  fixes ok :: "'m \<Rightarrow> bool"
    and find :: "'m \<Rightarrow> 'k \<Rightarrow> 'v option"
    and set_key :: "'k \<Rightarrow> 'v \<Rightarrow> 'm \<Rightarrow> 'm"
    and erase :: "'k \<Rightarrow> 'm \<Rightarrow> 'm"
    and erase_if :: "('k \<Rightarrow> 'v \<Rightarrow> bool) \<Rightarrow> 'm \<Rightarrow> 'm"
    and count :: "'m \<Rightarrow> nat"
  assumes find_set: "find (set_key k v m) k' = (if k' = k then Some v else find m k')"
    and find_erase: "find (erase k m) k' = (if k' = k then None else find m k')"
    and find_erase_if: "ok m \<Longrightarrow> find (erase_if P m) k =
      (case find m k of Some v \<Rightarrow> if P k v then None else Some v | None \<Rightarrow> None)"
    and count_dom: "ok m \<Longrightarrow> count m = card (dom (find m))"
    and finite_dom: "finite (dom (find m))"
    and ok_set: "ok m \<Longrightarrow> ok (set_key k v m)"
    and ok_erase: "ok m \<Longrightarrow> ok (erase k m)"
    and ok_erase_if: "ok m \<Longrightarrow> ok (erase_if P m)"
begin

lemma dom_set: "dom (find (set_key k v m)) = insert k (dom (find m))"
  by (auto simp: find_set dom_def)

lemma dom_erase: "dom (find (erase k m)) = dom (find m) - {k}"
  by (auto simp: find_erase dom_def)

lemma count_set: "ok m \<Longrightarrow>
    count (set_key k v m) = (if find m k = None then Suc (count m) else count m)"
  by (auto simp: count_dom ok_set dom_set finite_dom insert_absorb domIff card_insert_if)

lemma count_erase: "ok m \<Longrightarrow>
    count (erase k m) = (if find m k = None then count m else count m - 1)"
  by (auto simp: count_dom ok_erase dom_erase finite_dom domIff card_Diff_singleton)

lemma count_erase_if_le: "ok m \<Longrightarrow> count (erase_if P m) \<le> count m"
  by (auto simp: count_dom ok_erase_if intro!: card_mono finite_dom)
     (auto simp: find_erase_if split: option.splits if_splits)

end

lemma um_find_fun: "um_find m = map_of m"
  by (rule ext) (simp add: um_find_def)

lemma um_find_set_eq: "um_find (um_set k v m) k' = (if k' = k then Some v else um_find m k')"
  by (simp add: um_find_def um_set_def update_conv')

lemma um_find_erase_if: "um_ok m \<Longrightarrow> um_find (um_erase_if P m) k =
    (case um_find m k of Some v \<Rightarrow> if P k v then None else Some v | None \<Rightarrow> None)"
proof (induction m)
  case Nil
  then show ?case by (simp add: um_find_def um_erase_if_def)
next
  case (Cons e m)
  obtain a b where e: "e = (a, b)" by (cases e)
  from Cons.prems e have notin: "map_of m a = None"
    by (simp add: um_ok_def map_of_eq_None_iff)
  from Cons e notin show ?case
    by (auto simp: um_find_def um_erase_if_def um_ok_def split: option.splits)
qed

interpretation um: hash_map um_ok um_find um_set um_erase um_erase_if length
proof unfold_locales
  show "um_find (um_set k v m) k' = (if k' = k then Some v else um_find m k')"
    for m :: "('a, 'b) umap" and k v k'
    by (rule um_find_set_eq)
  show "um_find (um_erase k m) k' = (if k' = k then None else um_find m k')"
    for m :: "('a, 'b) umap" and k k'
    by (simp add: um_find_def um_erase_def delete_conv')
  show "um_ok m \<Longrightarrow> um_find (um_erase_if P m) k =
      (case um_find m k of Some v \<Rightarrow> if P k v then None else Some v | None \<Rightarrow> None)"
    for m :: "('a, 'b) umap" and P k
    by (rule um_find_erase_if)
  show "um_ok m \<Longrightarrow> length m = card (dom (um_find m))" for m :: "('a, 'b) umap"
  proof -
    assume "um_ok m"
    then have "length m = card (set (map fst m))"
      by (simp only: um_ok_def distinct_card length_map)
    then show ?thesis by (simp add: um_find_fun dom_map_of_conv_image_fst)
  qed
  show "finite (dom (um_find m))" for m :: "('a, 'b) umap"
    by (simp add: um_find_fun finite_dom_map_of)
  show "um_ok m \<Longrightarrow> um_ok (um_set k v m)" for m :: "('a, 'b) umap" and k v
    by (simp add: um_ok_def um_set_def distinct_update)
  show "um_ok m \<Longrightarrow> um_ok (um_erase k m)" for m :: "('a, 'b) umap" and k
    by (simp add: um_ok_def um_erase_def distinct_delete)
  show "um_ok m \<Longrightarrow> um_ok (um_erase_if P m)" for m :: "('a, 'b) umap" and P
    by (induction m) (auto simp: um_ok_def um_erase_if_def)
qed

lemmas um_laws [simp] = um.find_set um.find_erase um.ok_set um.ok_erase um.ok_erase_if

lemma um_empty [simp]: "um_ok []" "um_find [] k = None"
  by (simp_all add: um_ok_def um_find_def)

lemma um_find_in: "um_ok m \<Longrightarrow> um_find m k = Some v \<longleftrightarrow> (k, v) \<in> set m"
  by (simp add: um_ok_def um_find_def)

lemma um_find_memI: "um_find m k = Some v \<Longrightarrow> (k, v) \<in> set m"
  by (simp add: um_find_def map_of_SomeD)

lemma um_set_mem: "(k', v') \<in> set (um_set k v m) \<Longrightarrow>
    (k', v') = (k, v) \<or> (k', v') \<in> set m"
  by (induction m) (auto simp: um_set_def split: if_splits)

lemma um_erase_mem: "(k', v') \<in> set (um_erase k m) \<longleftrightarrow> k' \<noteq> k \<and> (k', v') \<in> set m"
  by (induction m) (auto simp: um_erase_def)

lemma um_erase_if_mem: "(k, v) \<in> set (um_erase_if P m) \<longleftrightarrow> \<not> P k v \<and> (k, v) \<in> set m"
  by (auto simp: um_erase_if_def)

lemma um_adjust_ok [simp]: "um_ok (um_adjust k f m) \<longleftrightarrow> um_ok m"
  by (simp add: um_ok_def um_adjust_def case_prod_unfold comp_def)

lemma um_find_adjust [simp]:
  "um_find (um_adjust k f m) k' = (if k' = k then map_option f (um_find m k) else um_find m k')"
  by (induction m) (auto simp: um_find_def um_adjust_def)

lemma um_adjust_mem:
  "(k', v') \<in> set (um_adjust k f m) \<Longrightarrow> (k', v') \<in> set m \<or> k' = k \<and> (\<exists>v. (k, v) \<in> set m \<and> v' = f v)"
  by (auto simp: um_adjust_def split: if_splits)

lemma um_set_in: "(k, v) \<in> set (um_set k v m)"
  by (induction m) (auto simp: um_set_def)

lemmas um_mem = um_set_mem um_erase_mem um_erase_if_mem

lemma um_length_set: "um_ok m \<Longrightarrow>
    length (um_set k v m) = (if um_find m k = None then Suc (length m) else length m)"
  by (rule um.count_set)

section \<open>Codecs\<close>

text \<open>
  An encoder with the decoder that inverts it on the values the program produces. The
  instances are the hex strings, the RLP items and the consensus messages.
\<close>

locale codec =
  fixes encode :: "'a \<Rightarrow> 'b"
    and decode :: "'b \<Rightarrow> 'a option"
    and valid :: "'a \<Rightarrow> bool"
  assumes round_trip: "valid x \<Longrightarrow> decode (encode x) = Some x"
begin

lemma encode_inject: "valid x \<Longrightarrow> valid y \<Longrightarrow> encode x = encode y \<longleftrightarrow> x = y"
  by (metis option.inject round_trip)

end

section \<open>Transition systems\<close>

text \<open>
  A component that runs is a set of start states and a step relation; an invariant
  that holds at the start and that every step keeps holds in every reachable state.
\<close>

locale invariant_system =
  fixes start :: "'s \<Rightarrow> bool"
    and step :: "'s \<Rightarrow> 's \<Rightarrow> bool"
    and inv :: "'s \<Rightarrow> bool"
  assumes start_inv: "start s \<Longrightarrow> inv s"
    and step_inv: "inv s \<Longrightarrow> step s t \<Longrightarrow> inv t"
begin

lemma steps_inv: "step\<^sup>*\<^sup>* s t \<Longrightarrow> inv s \<Longrightarrow> inv t"
  by (induction rule: rtranclp_induct) (blast intro: step_inv)+

lemma reachable_inv: "start s \<Longrightarrow> step\<^sup>*\<^sup>* s t \<Longrightarrow> inv t"
  by (blast intro: start_inv steps_inv)

end

end
