(* ===== verification/CommonData.thy ===== *)
theory CommonData
  imports BCOS_Prelude "HOL-Library.Word"
begin

text \<open>
  libdevcore/CommonData.h, CommonData.cpp and FixedHash.h: hexadecimal strings, the
  big-endian representation of integers, and the byte arrays \<open>FixedHash<N>\<close>.

  The integer templates are used at \<open>unsigned\<close>, \<open>u160\<close>, \<open>u256\<close> and \<open>bigint\<close>; their
  values are \<open>nat\<close> (a \<open>bigint\<close> that is serialised is not negative), and
  \<open>fromBigEndian_word\<close> is the reading at a fixed width. The lemmas show that the
  conversions are inverse to each other, that \<open>bytesRequired\<close> is the least sufficient
  number of bytes, that hexadecimal printing is undone by \<open>fromHex\<close>, and that the
  order and the increment of a \<open>FixedHash\<close> are those of the number it spells.
\<close>

unbundle bit_operations_syntax

section \<open>Definitions\<close>

subsection \<open>Hexadecimal strings\<close>

datatype WhenError = DontThrow | Throw

datatype hex_exn = BadHexCharacter

definition hexdigits :: string where
  "hexdigits = ''0123456789abcdef''"

fun toHex_loop :: "bytes \<Rightarrow> string" where
  "toHex_loop [] = []"
| "toHex_loop (b # bs) =
     hexdigits ! unat (drop_bit 4 b AND 0x0f) # hexdigits ! unat (b AND 0x0f) # toHex_loop bs"

definition toHex_prefix :: "bytes \<Rightarrow> string \<Rightarrow> string" where
  "toHex_prefix data prefix = prefix @ toHex_loop data"

definition toHex :: "bytes \<Rightarrow> string" where
  "toHex data = toHex_prefix data []"

definition toHexPrefixed :: "bytes \<Rightarrow> string" where
  "toHexPrefixed data = toHex_prefix data ''0x''"

definition fromHexChar :: "char \<Rightarrow> int" where
  "fromHexChar c = (let i = (of_char c :: int) in
     if 48 \<le> i \<and> i \<le> 57 then i - 48
     else if 97 \<le> i \<and> i \<le> 102 then i - 97 + 10
     else if 65 \<le> i \<and> i \<le> 70 then i - 65 + 10
     else - 1)"

definition isHex :: "string \<Rightarrow> bool" where
  "isHex s = list_all (\<lambda>c. fromHexChar c \<noteq> - 1) (if take 2 s = ''0x'' then drop 2 s else s)"

fun fromHex_loop :: "string \<Rightarrow> bytes \<Rightarrow> bytes option" where
  "fromHex_loop (a # b # s) ret =
     (let h = fromHexChar a; l = fromHexChar b in
      if h \<noteq> - 1 \<and> l \<noteq> - 1 then fromHex_loop s (ret @ [word_of_int (h * 16 + l)]) else None)"
| "fromHex_loop _ ret = Some ret"

definition fromHex :: "string \<Rightarrow> WhenError \<Rightarrow> hex_exn + bytes" where
  "fromHex s t =
     (let n = (if 2 \<le> length s \<and> s ! 0 = CHR ''0'' \<and> s ! 1 = CHR ''x'' then 2 else 0);
          bad = (if t = Throw then Inl BadHexCharacter else Inr []);
          run = (\<lambda>k ret. case fromHex_loop (drop k s) ret of Some r \<Rightarrow> Inr r | None \<Rightarrow> bad)
      in if length s mod 2 = 1
         then let h = fromHexChar (s ! n) in
              if h \<noteq> - 1 then run (n + 1) [word_of_int h] else bad
         else run n [])"

definition isHash :: "nat \<Rightarrow> string \<Rightarrow> bool" where
  "isHash N h \<longleftrightarrow>
     (length h = N * 2 \<or> (length h = N * 2 + 2 \<and> take 2 h = ''0x'')) \<and> isHex h"

definition asBytes :: "string \<Rightarrow> bytes" where
  "asBytes s = map (\<lambda>c. word_of_nat (of_char c)) s"

definition asString :: "bytes \<Rightarrow> string" where
  "asString b = map (\<lambda>x. char_of (unat x)) b"

fun asNibbles :: "bytes \<Rightarrow> bytes" where
  "asNibbles [] = []"
| "asNibbles (i # s) = (i div 16) # (i mod 16) # asNibbles s"

subsection \<open>Big-endian integers\<close>

fun toBigEndian_loop :: "nat \<Rightarrow> nat \<Rightarrow> bytes \<Rightarrow> bytes" where
  "toBigEndian_loop 0 val out = out"
| "toBigEndian_loop (Suc i) val out =
     toBigEndian_loop i (drop_bit 8 val) (out[i := word_of_nat (val AND 0xff)])"

definition toBigEndian :: "nat \<Rightarrow> bytes \<Rightarrow> bytes" where
  "toBigEndian val out = toBigEndian_loop (length out) val out"

definition fromBigEndian :: "bytes \<Rightarrow> nat" where
  "fromBigEndian bs = foldl (\<lambda>ret i. push_bit 8 ret OR unat i) 0 bs"

definition fromBigEndian_word :: "bytes \<Rightarrow> 'a::len word" where
  "fromBigEndian_word bs = foldl (\<lambda>ret i. push_bit 8 ret OR ucast i) 0 bs"

fun bytesRequired :: "nat \<Rightarrow> nat" where
  "bytesRequired i = (if i = 0 then 0 else Suc (bytesRequired (i div 256)))"

declare bytesRequired.simps [simp del]

definition toCompactBigEndian :: "nat \<Rightarrow> nat \<Rightarrow> bytes" where
  "toCompactBigEndian val mn = toBigEndian val (replicate (max mn (bytesRequired val)) 0)"

fun commonPrefix_loop :: "'a list \<Rightarrow> 'a list \<Rightarrow> nat \<Rightarrow> nat" where
  "commonPrefix_loop (x # t) (y # u) i = (if x \<noteq> y then i else commonPrefix_loop t u (Suc i))"
| "commonPrefix_loop _ _ i = i"

definition commonPrefix :: "'a list \<Rightarrow> 'a list \<Rightarrow> nat" where
  "commonPrefix t u = commonPrefix_loop t u 0"

subsection \<open>Fixed hashes\<close>

datatype ConstructFromHashType = AlignLeft | AlignRight | FailIfDifferent

definition FixedHash_of_bytes :: "nat \<Rightarrow> bytes \<Rightarrow> ConstructFromHashType \<Rightarrow> bytes" where
  "FixedHash_of_bytes N b t =
     (if length b = N then b
      else let c = min (length b) N in
        case t of
          FailIfDifferent \<Rightarrow> replicate N 0
        | AlignLeft \<Rightarrow> fold (\<lambda>i d. d[i := b ! i]) [0..<c] (replicate N 0)
        | AlignRight \<Rightarrow> fold (\<lambda>i d. d[N - 1 - i := b ! (length b - 1 - i)]) [0..<c] (replicate N 0))"

fun FixedHash_less :: "bytes \<Rightarrow> bytes \<Rightarrow> bool" where
  "FixedHash_less (a # as) (b # bs) =
     (if a < b then True else if b < a then False else FixedHash_less as bs)"
| "FixedHash_less _ _ = False"

fun FixedHash_inc_loop :: "nat \<Rightarrow> bytes \<Rightarrow> bytes" where
  "FixedHash_inc_loop 0 d = d"
| "FixedHash_inc_loop (Suc i) d =
     (let b = d ! i + 1; d' = d[i := b] in if b = 0 then FixedHash_inc_loop i d' else d')"

definition FixedHash_inc :: "bytes \<Rightarrow> bytes" where
  "FixedHash_inc d = FixedHash_inc_loop (length d) d"

definition FixedHash_bool :: "bytes \<Rightarrow> bool" where
  "FixedHash_bool d = list_ex (\<lambda>b. b \<noteq> 0) d"

definition FixedHash_and :: "bytes \<Rightarrow> bytes \<Rightarrow> bytes" where
  "FixedHash_and a b = map2 (AND) a b"

definition FixedHash_or :: "bytes \<Rightarrow> bytes \<Rightarrow> bytes" where
  "FixedHash_or a b = map2 (OR) a b"

definition FixedHash_contains :: "bytes \<Rightarrow> bytes \<Rightarrow> bool" where
  "FixedHash_contains a c \<longleftrightarrow> FixedHash_and a c = c"

text \<open>The bytes and the hexadecimal string of a hash kept as a word.\<close>

definition hash_bytes :: "'a::len word \<Rightarrow> bytes" where
  "hash_bytes w = toBigEndian (unat w) (replicate (LENGTH('a) div 8) 0)"

definition hash_hex :: "'a::len word \<Rightarrow> string" where
  "hash_hex w = toHex (hash_bytes w)"

section \<open>Big-endian conversions\<close>

text \<open>The reference definition: the last byte is the value modulo 256.\<close>

primrec be :: "nat \<Rightarrow> nat \<Rightarrow> bytes" where
  "be 0 v = []"
| "be (Suc n) v = be n (v div 256) @ [word_of_nat (v mod 256)]"

lemma length_be [simp]: "length (be n v) = n"
  by (induction n arbitrary: v) auto

lemma and_255: "(v :: nat) AND 255 = v mod 256"
  using take_bit_eq_mask [of 8 v] by (simp add: take_bit_eq_mod mask_eq_exp_minus_1)

lemma drop_bit_8: "drop_bit 8 (v :: nat) = v div 256"
  by (simp add: drop_bit_eq_div)

lemma toBigEndian_loop_be:
  "i \<le> length out \<Longrightarrow> toBigEndian_loop i v out = be i v @ drop i out"
proof (induction i arbitrary: v out)
  case (Suc i)
  then have "drop i (out[i := x]) = x # drop (Suc i) out" for x
    by (simp add: drop_update_swap Cons_nth_drop_Suc [symmetric])
  with Suc show ?case by (simp add: and_255 drop_bit_8)
qed simp

lemma toBigEndian_be [simp]: "toBigEndian v out = be (length out) v"
  by (simp add: toBigEndian_def toBigEndian_loop_be)

lemma or_byte: "push_bit 8 (r :: nat) OR unat (b :: byte) = 256 * r + unat b"
proof -
  have "unat b < 2 ^ LENGTH(8)" by (rule unsigned_less)
  then have "unat b = take_bit 8 (unat b)" by (simp add: take_bit_eq_mod)
  moreover have "push_bit 8 r OR take_bit 8 (unat b) = push_bit 8 r + take_bit 8 (unat b)"
    by (rule disjunctive_add [symmetric]) (auto simp: bit_simps)
  ultimately show ?thesis by (simp add: push_bit_eq_mult)
qed

lemma fromBigEndian_Nil [simp]: "fromBigEndian [] = 0"
  by (simp add: fromBigEndian_def)

lemma fromBigEndian_snoc [simp]: "fromBigEndian (bs @ [b]) = 256 * fromBigEndian bs + unat b"
  by (simp add: fromBigEndian_def or_byte)

lemma byte_less_256 [simp]: "unat (b :: byte) < 256"
  by (rule order_less_le_trans [OF unsigned_less]) simp

lemma fromBigEndian_append:
  "fromBigEndian (as @ bs) = 256 ^ length bs * fromBigEndian as + fromBigEndian bs"
  by (induction bs rule: rev_induct) (auto simp: algebra_simps simp flip: append_assoc)

lemma fromBigEndian_Cons:
  "fromBigEndian (b # bs) = 256 ^ length bs * unat b + fromBigEndian bs"
  using fromBigEndian_append [of "[b]" bs] fromBigEndian_snoc [of "[]" b] by simp

lemma fromBigEndian_less: "fromBigEndian bs < 256 ^ length bs"
proof (induction bs rule: rev_induct)
  case (snoc b bs)
  have "unat b < 256" by simp
  with snoc have "256 * fromBigEndian bs + unat b < 256 * 256 ^ length bs" by linarith
  then show ?case by simp
qed simp

lemma fromBigEndian_be: "fromBigEndian (be n v) = v mod 256 ^ n"
proof (induction n arbitrary: v)
  case (Suc n)
  have "256 * (v div 256 mod 256 ^ n) + v mod 256 = v mod (256 * 256 ^ n)"
    using mod_mult2_eq [of v 256 "256 ^ n"] by simp
  with Suc show ?case by (simp add: unat_of_nat)
qed simp

lemma be_fromBigEndian [simp]: "be (length bs) (fromBigEndian bs) = bs"
proof (induction bs rule: rev_induct)
  case (snoc b bs)
  have "(256 * fromBigEndian bs + unat b) div 256 = fromBigEndian bs"
    "(256 * fromBigEndian bs + unat b) mod 256 = unat b"
    by simp_all
  with snoc show ?case by simp
qed simp

lemma fromBigEndian_word_eq:
  "fromBigEndian_word bs = (word_of_nat (fromBigEndian bs) :: 'a::len word)"
proof (induction bs rule: rev_induct)
  case Nil
  then show ?case by (simp add: fromBigEndian_word_def)
next
  case (snoc b bs)
  have "fromBigEndian_word (bs @ [b]) = push_bit 8 (fromBigEndian_word bs) OR (ucast b :: 'a word)"
    by (simp add: fromBigEndian_word_def)
  also have "\<dots> = push_bit 8 (word_of_nat (fromBigEndian bs)) OR (word_of_nat (unat b) :: 'a word)"
    by (simp add: snoc)
  also have "\<dots> = word_of_nat (push_bit 8 (fromBigEndian bs) OR unat b)"
    by (simp add: of_nat_push_bit of_nat_or_eq)
  finally show ?case by (simp add: or_byte)
qed

lemma bytesRequired_0 [simp]: "bytesRequired 0 = 0"
  by (simp add: bytesRequired.simps)

lemma bytesRequired_pos: "0 < v \<Longrightarrow> bytesRequired v = Suc (bytesRequired (v div 256))"
  by (subst bytesRequired.simps) simp

lemma bytesRequired_le_iff: "bytesRequired v \<le> n \<longleftrightarrow> v < 256 ^ n"
proof (induction v arbitrary: n rule: bytesRequired.induct)
  case (1 v)
  show ?case
  proof (cases "v = 0 \<or> n = 0")
    case True
    then show ?thesis by (cases "v = 0") (auto simp: bytesRequired_pos)
  next
    case False
    then obtain m where n: "n = Suc m" by (cases n) auto
    from False n "1.IH" [of m] show ?thesis
      by (simp add: bytesRequired_pos div_less_iff_less_mult mult.commute)
  qed
qed

lemma bytesRequired_eq_0 [simp]: "bytesRequired v = 0 \<longleftrightarrow> v = 0"
  using bytesRequired_le_iff [of v 0] by simp

lemma fromBigEndian_toCompactBigEndian:
  "fromBigEndian (toCompactBigEndian v m) = v"
proof -
  have "v < 256 ^ max m (bytesRequired v)"
    by (simp flip: bytesRequired_le_iff)
  then show ?thesis by (simp add: toCompactBigEndian_def fromBigEndian_be)
qed

lemma length_toCompactBigEndian [simp]:
  "length (toCompactBigEndian v m) = max m (bytesRequired v)"
  by (simp add: toCompactBigEndian_def)

lemma hd_be: "v < 256 ^ Suc n \<Longrightarrow> be (Suc n) v = word_of_nat (v div 256 ^ n) # be n v"
proof (induction n arbitrary: v)
  case (Suc n)
  from Suc.prems have "v div 256 < 256 ^ Suc n"
    by (simp add: div_less_iff_less_mult mult.commute)
  from Suc.IH [OF this] have "be (Suc n) (v div 256) =
      word_of_nat (v div 256 div 256 ^ n) # be n (v div 256)" .
  then show ?case by (simp add: div_mult2_eq)
qed simp

text \<open>The compact encoding has no leading zero byte.\<close>

lemma hd_toCompactBigEndian: "0 < v \<Longrightarrow> hd (toCompactBigEndian v 0) \<noteq> 0"
proof -
  assume v: "0 < v"
  then obtain n where n: "bytesRequired v = Suc n" by (cases "bytesRequired v") auto
  then have less: "v < 256 ^ Suc n" using bytesRequired_le_iff [of v "Suc n"] by simp
  from n have "\<not> v < 256 ^ n" by (simp flip: bytesRequired_le_iff)
  then have "0 < v div 256 ^ n" by (simp add: div_greater_zero_iff)
  moreover from less have "v div 256 ^ n < 256"
    by (simp add: div_less_iff_less_mult mult.commute)
  ultimately have "(word_of_nat (v div 256 ^ n) :: byte) \<noteq> 0"
    by (simp add: word_of_nat_eq_0_iff nat_dvd_not_less)
  then show ?thesis using n hd_be [OF less] by (simp add: toCompactBigEndian_def)
qed

section \<open>Hexadecimal strings\<close>

lemma fromHexChar_digits_all:
  "list_all (\<lambda>k. fromHexChar (hexdigits ! k) = int k) [0..<16]"
  by code_simp

lemma fromHexChar_digit [simp]: "k < 16 \<Longrightarrow> fromHexChar (hexdigits ! k) = int k"
  using fromHexChar_digits_all by (auto simp: list_all_iff)

lemma and_15: "(v :: nat) AND 15 = v mod 16"
  using take_bit_eq_mask [of 4 v] by (simp add: take_bit_eq_mod mask_eq_exp_minus_1)

lemma unat_and_15: "unat (x AND 15 :: byte) = unat x mod 16"
  by (simp add: unsigned_and_eq and_15)

lemma unat_drop_4: "unat (drop_bit 4 x :: byte) = unat x div 16"
  by (simp add: drop_bit_eq_div unat_div_distrib)

lemma nibble_less [simp]: "unat (x AND 15 :: byte) < 16"
  by (simp add: unat_and_15)

lemma word_of_nat_unat_id: "word_of_nat (unat w) = w"
  by simp

lemma nibbles_byte:
  "word_of_int (int (unat (drop_bit 4 b AND 15)) * 16 + int (unat (b AND 15))) = (b :: byte)"
proof -
  have "unat b div 16 < 16" by (simp add: div_less_iff_less_mult)
  then have "unat (drop_bit 4 b AND 15) * 16 + unat (b AND 15) = unat b"
    by (simp add: unat_and_15 unat_drop_4)
  then have "word_of_nat (unat (drop_bit 4 b AND 15) * 16 + unat (b AND 15)) = b"
    by (simp only: word_of_nat_unat_id)
  then show ?thesis by (simp only: of_int_add of_int_mult of_int_of_nat_eq of_int_numeral
        of_nat_add of_nat_mult of_nat_numeral)
qed

lemma int_minus_1_neq: "int n \<noteq> - 1"
  by simp

lemma fromHex_loop_toHex: "fromHex_loop (toHex_loop bs) ret = Some (ret @ bs)"
proof (induction bs arbitrary: ret)
  case (Cons b bs)
  with int_minus_1_neq show ?case
    by (simp only: toHex_loop.simps fromHex_loop.simps fromHexChar_digit nibble_less nibbles_byte
        Let_def if_True simp_thms append_assoc append_Cons append_Nil not_False_eq_True)
qed simp

lemma length_toHex_loop [simp]: "length (toHex_loop bs) = 2 * length bs"
  by (induction bs) auto

lemma fromHexChar_x: "fromHexChar CHR ''x'' = - 1"
  by code_simp

lemma hexdigit_not_x: "k < 16 \<Longrightarrow> hexdigits ! k \<noteq> CHR ''x''"
  using fromHexChar_digit [of k] fromHexChar_x by (metis int_minus_1_neq)

lemma toHex_loop_second: "toHex_loop bs \<noteq> [] \<Longrightarrow> toHex_loop bs ! 1 \<noteq> CHR ''x''"
  by (cases bs) (auto simp: hexdigit_not_x)

lemma fromHex_toHex [simp]: "fromHex (toHex bs) t = Inr bs"
proof -
  have "toHex_loop bs ! Suc 0 \<noteq> CHR ''x''" if "2 \<le> length (toHex_loop bs)"
  proof -
    from that have "toHex_loop bs \<noteq> []" by (cases bs) auto
    with toHex_loop_second [of bs] show ?thesis by simp
  qed
  then show ?thesis
    by (auto simp: fromHex_def toHex_def toHex_prefix_def fromHex_loop_toHex Let_def)
qed

lemma fromHex_toHexPrefixed [simp]: "fromHex (toHexPrefixed bs) t = Inr bs"
  by (simp add: fromHex_def toHexPrefixed_def toHex_prefix_def fromHex_loop_toHex Let_def)

lemma toHex_inject [simp]: "toHex a = toHex b \<longleftrightarrow> a = b"
  by (metis fromHex_toHex Inr_inject)

lemma length_toHex [simp]: "length (toHex bs) = 2 * length bs"
  by (simp add: toHex_def toHex_prefix_def)

interpretation hex_codec: codec toHex "\<lambda>s. case fromHex s Throw of Inr b \<Rightarrow> Some b | Inl e \<Rightarrow> None"
  "\<lambda>_. True"
  by unfold_locales simp

lemma asBytes_asString: "asBytes (asString b) = b"
  by (induction b) (auto simp: asBytes_def asString_def)

section \<open>Fixed hashes\<close>

lemma FixedHash_less_iff:
  "length a = length b \<Longrightarrow> FixedHash_less a b \<longleftrightarrow> fromBigEndian a < fromBigEndian b"
proof (induction a b rule: FixedHash_less.induct)
  case (1 a as b bs)
  let ?n = "256 ^ length bs :: nat"
  have less: "fromBigEndian as < ?n" "fromBigEndian bs < ?n"
    using 1 fromBigEndian_less [of as] fromBigEndian_less [of bs] by auto
  have step: "?n * unat x + p < ?n * unat y + q" if "x < y" "p < ?n" for x y :: byte and p q
  proof -
    from that have "Suc (unat x) \<le> unat y" by (simp add: word_less_nat_alt Suc_leI)
    then have "?n * Suc (unat x) \<le> ?n * unat y" by (rule mult_le_mono2)
    with that show ?thesis by simp
  qed
  show ?case
    using 1 less step [of a b] step [of b a "fromBigEndian bs" "fromBigEndian as"]
    by (auto simp: fromBigEndian_Cons not_less_iff_gr_or_eq)
qed auto

lemma length_FixedHash_inc_loop [simp]: "length (FixedHash_inc_loop i d) = length d"
  by (induction i d rule: FixedHash_inc_loop.induct) (auto simp: Let_def)

lemma FixedHash_inc_loop_append:
  "i \<le> length d \<Longrightarrow> FixedHash_inc_loop i (d @ e) = FixedHash_inc_loop i d @ e"
  by (induction i d rule: FixedHash_inc_loop.induct) (auto simp: Let_def nth_append list_update_append)

lemma FixedHash_inc_value:
  "fromBigEndian (FixedHash_inc d) = (fromBigEndian d + 1) mod 256 ^ length d"
proof (induction d rule: rev_induct)
  case (snoc b d)
  show ?case
  proof (cases "b + 1 = 0")
    case True
    then have b: "b = - 1" by (simp add: eq_neg_iff_add_eq_0)
    have inc: "FixedHash_inc (d @ [b]) = FixedHash_inc d @ [0]"
      using True by (simp add: FixedHash_inc_def Let_def nth_append FixedHash_inc_loop_append)
    have "unat b = 255" by (simp add: b unsigned_minus_1_eq_mask mask_eq_exp_minus_1)
    then show ?thesis using snoc
      by (simp add: inc mult_mod_right)
  next
    case False
    then have "unat (b + 1) = unat b + 1" by (metis Suc_eq_plus1 add.commute unatSuc)
    moreover have "unat (b + 1) < 256" by simp
    ultimately have "256 * fromBigEndian d + unat b + 1 < 256 ^ length (d @ [b])"
      using fromBigEndian_less [of "d @ [b + 1]"] by simp
    with False \<open>unat (b + 1) = unat b + 1\<close> show ?thesis
      by (simp add: FixedHash_inc_def Let_def nth_append)
  qed
qed (simp add: FixedHash_inc_def)

lemma fromBigEndian_hash_bytes [simp]:
  "8 dvd LENGTH('a) \<Longrightarrow> fromBigEndian (hash_bytes w) = unat w" for w :: "'a::len word"
proof -
  assume "8 dvd LENGTH('a)"
  then have "8 * (LENGTH('a) div 8) = LENGTH('a)" by simp
  then have "(256 :: nat) ^ (LENGTH('a) div 8) = 2 ^ LENGTH('a)"
    using power_mult [of "2 :: nat" 8 "LENGTH('a) div 8"] by simp
  moreover have "unat w < 2 ^ LENGTH('a)" by (rule unsigned_less)
  ultimately show ?thesis by (simp add: hash_bytes_def fromBigEndian_be)
qed

lemma length_hash_bytes [simp]: "length (hash_bytes w) = LENGTH('a) div 8" for w :: "'a::len word"
  by (simp add: hash_bytes_def)

lemma hash_bytes_inject [simp]:
  "8 dvd LENGTH('a) \<Longrightarrow> hash_bytes v = hash_bytes w \<longleftrightarrow> v = w" for v w :: "'a::len word"
  by (metis fromBigEndian_hash_bytes word_of_nat_unat_id)

lemma hash_hex_inject [simp]:
  "8 dvd LENGTH('a) \<Longrightarrow> hash_hex v = hash_hex w \<longleftrightarrow> v = w" for v w :: "'a::len word"
  by (simp add: hash_hex_def)

lemma length_hash_hex [simp]:
  "length (hash_hex w) = 2 * (LENGTH('a) div 8)" for w :: "'a::len word"
  by (simp add: hash_hex_def)

text \<open>The order of the words is the lexicographic order of the arrays.\<close>

lemma FixedHash_less_hash_bytes:
  "8 dvd LENGTH('a) \<Longrightarrow> FixedHash_less (hash_bytes v) (hash_bytes w) \<longleftrightarrow> v < w"
  for v w :: "'a::len word"
  by (simp add: FixedHash_less_iff word_less_nat_alt)

end
