(* ===== verification/RLP.thy ===== *)
theory RLP
  imports CommonData
begin

text \<open>
  libdevcore/RLP.h and RLP.cpp: the recursive length prefix serialisation.

  \<open>RLPStream\<close> is the writer with its stack of open lists; the functions \<open>rlp_*\<close> are
  the methods of the reader \<open>RLP\<close>, which views a byte array. A reader is the bytes it
  views; the record \<open>rlp\<close> adds the cache that the subscript operator keeps in its
  mutable fields. A \<open>vector_ref\<close> that is cropped out of its bounds becomes empty, which
  is \<open>cropped\<close> below.

  The lemmas relate both to one reference, the encoding \<open>rlp_enc\<close> of an item tree: the
  writer produces it, the reader recovers the tree, and the cached subscript returns
  what the cache-free definition returns.
\<close>

section \<open>Definitions\<close>

datatype rlp_exn = BadRLP | BadCast | OversizeRLP | UndersizeRLP | RLPException

datatype rlp_flag = AllowNonCanon | ThrowOnFail | FailIfTooBig | FailIfTooSmall

type_synonym strictness = "rlp_flag list"

definition Strict :: strictness where "Strict = [ThrowOnFail, FailIfTooBig]"
definition VeryStrict :: strictness where "VeryStrict = [ThrowOnFail, FailIfTooBig, FailIfTooSmall]"
definition LaissezFaire :: strictness where "LaissezFaire = [AllowNonCanon]"

definition cropped :: "bytes \<Rightarrow> nat \<Rightarrow> nat \<Rightarrow> bytes" where
  "cropped d b c =
     (if b \<le> length d \<and> c \<le> length d \<and> b + c \<le> length d then take c (drop b d) else [])"

definition cropped_from :: "bytes \<Rightarrow> nat \<Rightarrow> bytes" where
  "cropped_from d b = (if b \<le> length d then drop b d else [])"

subsection \<open>The reader\<close>

definition rlp_isNull :: "bytes \<Rightarrow> bool" where
  "rlp_isNull d \<longleftrightarrow> length d = 0"

definition rlp_isEmpty :: "bytes \<Rightarrow> bool" where
  "rlp_isEmpty d \<longleftrightarrow> \<not> rlp_isNull d \<and> (d ! 0 = 0x80 \<or> d ! 0 = 0xc0)"

definition rlp_isData :: "bytes \<Rightarrow> bool" where
  "rlp_isData d \<longleftrightarrow> \<not> rlp_isNull d \<and> d ! 0 < 0xc0"

definition rlp_isList :: "bytes \<Rightarrow> bool" where
  "rlp_isList d \<longleftrightarrow> \<not> rlp_isNull d \<and> 0xc0 \<le> d ! 0"

definition rlp_isSingleByte :: "bytes \<Rightarrow> bool" where
  "rlp_isSingleByte d \<longleftrightarrow> \<not> rlp_isNull d \<and> d ! 0 < 0x80"

definition rlp_requireGood :: "bytes \<Rightarrow> rlp_exn + unit" where
  "rlp_requireGood d =
     (if rlp_isNull d then Inl BadRLP
      else if d ! 0 \<noteq> 0x81 then Inr ()
      else if length d < 2 then Inl BadRLP
      else if d ! 1 < 0x80 then Inl BadRLP
      else Inr ())"

definition rlp_isInt :: "bytes \<Rightarrow> rlp_exn + bool" where
  "rlp_isInt d =
     (if rlp_isNull d then Inr False
      else res_bind (rlp_requireGood d) (\<lambda>_. let n = unat (d ! 0) in
        if n < 0x80 then Inr (n \<noteq> 0)
        else if n = 0x80 then Inr True
        else if n \<le> 0xb7 then
          (if length d \<le> 1 then Inl BadRLP else Inr (d ! 1 \<noteq> 0))
        else if n < 0xc0 then
          (if length d \<le> 1 + n - 0xb7 then Inl BadRLP else Inr (d ! (1 + n - 0xb7) \<noteq> 0))
        else Inr False))"

definition rlp_length :: "bytes \<Rightarrow> rlp_exn + nat" where
  "rlp_length d =
     (if rlp_isNull d then Inr 0
      else res_bind (rlp_requireGood d) (\<lambda>_. let n = unat (d ! 0);
          finish = (\<lambda>ret. if 2 ^ 64 - 1 - 0x100 \<le> ret then Inl UndersizeRLP else Inr ret);
          long = (\<lambda>lengthSize limit.
            if length d \<le> lengthSize then Inl BadRLP
            else if 1 < length d \<and> d ! 1 = 0 then Inl BadRLP
            else if 8 < lengthSize then Inl UndersizeRLP
            else if d ! 1 = 0 then Inl BadRLP
            else let ret = fromBigEndian (take lengthSize (drop 1 d)) in
              if ret < limit then Inl BadRLP else finish ret) in
        if n < 0x80 then Inr 1
        else if n \<le> 0xb7 then Inr (n - 0x80)
        else if n < 0xc0 then long (n - 0xb7) (0xc0 - 0x80 - 8)
        else if n \<le> 0xf7 then Inr (n - 0xc0)
        else long (n - 0xf7) (0x100 - 0xc0 - 8)))"

definition rlp_lengthSize :: "bytes \<Rightarrow> nat" where
  "rlp_lengthSize d =
     (if rlp_isData d \<and> 0xb7 < d ! 0 then unat (d ! 0) - 0xb7
      else if rlp_isList d \<and> 0xf7 < d ! 0 then unat (d ! 0) - 0xf7
      else 0)"

definition rlp_payloadOffset :: "bytes \<Rightarrow> nat" where
  "rlp_payloadOffset d = (if rlp_isSingleByte d then 0 else 1 + rlp_lengthSize d)"

definition rlp_actualSize :: "bytes \<Rightarrow> rlp_exn + nat" where
  "rlp_actualSize d =
     (if rlp_isNull d then Inr 0
      else if rlp_isSingleByte d then Inr 1
      else if rlp_isData d \<or> rlp_isList d
      then res_bind (rlp_length d) (\<lambda>l. Inr (rlp_payloadOffset d + l))
      else Inr 0)"

text \<open>The constructor; it yields the bytes that the new reader views.\<close>

definition RLP_make :: "bytes \<Rightarrow> strictness \<Rightarrow> rlp_exn + bytes" where
  "RLP_make d s =
     res_bind
       (if FailIfTooBig \<in> set s
        then res_bind (rlp_actualSize d) (\<lambda>a.
          if a < length d then (if ThrowOnFail \<in> set s then Inl OversizeRLP else Inr []) else Inr d)
        else Inr d)
       (\<lambda>m. if FailIfTooSmall \<in> set s
        then res_bind (rlp_actualSize m) (\<lambda>a.
          if length d < a then (if ThrowOnFail \<in> set s then Inl UndersizeRLP else Inr []) else Inr m)
        else Inr m)"

definition rlp_sizeAsEncoded :: "bytes \<Rightarrow> rlp_exn + nat" where
  "rlp_sizeAsEncoded d =
     res_bind (RLP_make d [ThrowOnFail, FailIfTooSmall]) (\<lambda>m. rlp_actualSize m)"

definition rlp_payload :: "bytes \<Rightarrow> rlp_exn + bytes" where
  "rlp_payload d = res_bind (rlp_length d) (\<lambda>l.
     if length d < l then Inl BadRLP else Inr (cropped d (rlp_payloadOffset d) l))"

lemma rlp_actualSize_pos: "rlp_actualSize d = Inr n \<Longrightarrow> d \<noteq> [] \<Longrightarrow> 0 < n"
  by (auto simp: rlp_actualSize_def rlp_isNull_def rlp_isData_def rlp_isList_def
      rlp_payloadOffset_def split: if_splits)

lemma rlp_sizeAsEncoded_eq:
  "rlp_sizeAsEncoded d = res_bind (rlp_actualSize d) (\<lambda>a.
     if length d < a then Inl UndersizeRLP else Inr a)"
  by (auto simp: rlp_sizeAsEncoded_def RLP_make_def res_bind_def split: sum.splits)

text \<open>The list of the items that the iterator of a list visits, from the payload.\<close>

function rlp_split :: "bytes \<Rightarrow> rlp_exn + bytes list" where
  "rlp_split d =
     (if d = [] then Inr []
      else res_bind (rlp_sizeAsEncoded d) (\<lambda>n.
        res_bind (rlp_split (cropped_from d n)) (\<lambda>r. Inr (cropped d 0 n # r))))"
  by pat_completeness auto
termination
  by (relation "measure length")
    (auto simp: rlp_sizeAsEncoded_eq cropped_from_def dest!: rlp_actualSize_pos split: if_splits)

declare rlp_split.simps [simp del]

function rlp_items_loop :: "bytes \<Rightarrow> nat \<Rightarrow> rlp_exn + nat" where
  "rlp_items_loop d i =
     (if length d = 0 then Inr i
      else res_bind (rlp_sizeAsEncoded d) (\<lambda>n. rlp_items_loop (cropped_from d n) (i + 1)))"
  by pat_completeness auto
termination
  by (relation "measure (length \<circ> fst)")
    (auto simp: rlp_sizeAsEncoded_eq cropped_from_def dest!: rlp_actualSize_pos split: if_splits)

declare rlp_items_loop.simps [simp del]

definition rlp_items :: "bytes \<Rightarrow> rlp_exn + nat" where
  "rlp_items d =
     (if rlp_isList d then res_bind (rlp_payload d) (\<lambda>p. rlp_items_loop p 0) else Inr 0)"

definition rlp_itemCount :: "bytes \<Rightarrow> rlp_exn + nat" where
  "rlp_itemCount d = (if rlp_isList d then rlp_items d else Inr 0)"

definition rlp_toList :: "bytes \<Rightarrow> strictness \<Rightarrow> rlp_exn + bytes list" where
  "rlp_toList d flags =
     (if \<not> rlp_isList d then (if ThrowOnFail \<in> set flags then Inl BadCast else Inr [])
      else res_bind (rlp_payload d) rlp_split)"

definition rlp_toVector ::
    "(bytes \<Rightarrow> strictness \<Rightarrow> rlp_exn + 'a) \<Rightarrow> bytes \<Rightarrow> strictness \<Rightarrow> rlp_exn + 'a list" where
  "rlp_toVector conv d flags =
     (if rlp_isList d
      then res_bind (rlp_itemCount d) (\<lambda>_.
        res_bind (rlp_payload d) (\<lambda>p. res_bind (rlp_split p) (res_mapM (\<lambda>i. conv i flags))))
      else if ThrowOnFail \<in> set flags then Inl BadCast else Inr [])"

definition rlp_toBytes :: "bytes \<Rightarrow> strictness \<Rightarrow> rlp_exn + bytes" where
  "rlp_toBytes d flags =
     (if \<not> rlp_isData d then (if ThrowOnFail \<in> set flags then Inl BadCast else Inr [])
      else rlp_payload d)"

text \<open>\<open>toInt<T>\<close>, with the width \<open>maxSize\<close> of \<open>T\<close> in bytes; \<open>None\<close> is \<open>bigint\<close>.\<close>

definition rlp_toInt :: "nat option \<Rightarrow> bytes \<Rightarrow> strictness \<Rightarrow> rlp_exn + nat" where
  "rlp_toInt maxSize d flags =
     res_bind (rlp_requireGood d) (\<lambda>_. res_bind (rlp_isInt d) (\<lambda>int.
       if (\<not> int \<and> AllowNonCanon \<notin> set flags) \<or> rlp_isList d \<or> rlp_isNull d
       then (if ThrowOnFail \<in> set flags then Inl BadCast else Inr 0)
       else res_bind (rlp_payload d) (\<lambda>p.
         if (case maxSize of Some m \<Rightarrow> m < length p | None \<Rightarrow> False) \<and> FailIfTooBig \<in> set flags
         then (if ThrowOnFail \<in> set flags then Inl BadCast else Inr 0)
         else Inr (case maxSize of
             Some m \<Rightarrow> fromBigEndian p mod 256 ^ m | None \<Rightarrow> fromBigEndian p))))"

definition rlp_toPositiveInt64 :: "bytes \<Rightarrow> strictness \<Rightarrow> rlp_exn + int" where
  "rlp_toPositiveInt64 d flags =
     res_bind (rlp_toInt (Some 8) d flags) (\<lambda>n. let i = i64 (int n) in
       if ThrowOnFail \<in> set flags \<and> i < 0 then Inl BadCast else Inr i)"

text \<open>\<open>toHash<FixedHash<N>>\<close>: the bytes of the hash.\<close>

definition rlp_toHash :: "nat \<Rightarrow> bytes \<Rightarrow> strictness \<Rightarrow> rlp_exn + bytes" where
  "rlp_toHash N d flags =
     res_bind (rlp_requireGood d) (\<lambda>_. res_bind (rlp_payload d) (\<lambda>p. let l = length p in
       if \<not> rlp_isData d \<or> (N < l \<and> FailIfTooBig \<in> set flags) \<or> (l < N \<and> FailIfTooSmall \<in> set flags)
       then (if ThrowOnFail \<in> set flags then Inl BadCast else Inr (replicate N 0))
       else let s = min N l in Inr (replicate (N - s) 0 @ take s p)))"

subsection \<open>The subscript operator and its cache\<close>

record rlp =
  m_data :: bytes
  m_lastIndex :: nat
  m_lastEnd :: nat
  m_lastItem :: bytes

definition rlp_new :: "bytes \<Rightarrow> rlp" where
  "rlp_new d = \<lparr>m_data = d, m_lastIndex = 2 ^ 64 - 1, m_lastEnd = 0, m_lastItem = []\<rparr>"

function rlp_at_loop :: "nat \<Rightarrow> rlp \<Rightarrow> (rlp_exn + unit) \<times> rlp" where
  "rlp_at_loop i r =
     (if m_lastIndex r < i \<and> length (m_lastItem r) \<noteq> 0
      then case rlp_payload (m_data r) of
          Inl e \<Rightarrow> (Inl e, r)
        | Inr p \<Rightarrow> let rest = cropped_from p (m_lastEnd r); r1 = r\<lparr>m_lastItem := rest\<rparr> in
           (case rlp_sizeAsEncoded rest of
              Inl e \<Rightarrow> (Inl e, r1)
            | Inr n \<Rightarrow> let item = cropped rest 0 n in
               rlp_at_loop i (r1\<lparr>m_lastItem := item, m_lastEnd := m_lastEnd r + length item,
                                 m_lastIndex := m_lastIndex r + 1\<rparr>))
      else (Inr (), r))"
  by pat_completeness auto
termination
  by (relation "measure (\<lambda>(i, r). i - m_lastIndex r)") auto

declare rlp_at_loop.simps [simp del]

definition rlp_at_reset :: "nat \<Rightarrow> rlp \<Rightarrow> (rlp_exn + unit) \<times> rlp" where
  "rlp_at_reset i r =
     (if i < m_lastIndex r
      then case rlp_payload (m_data r) of
          Inl e \<Rightarrow> (Inl e, r)
        | Inr p \<Rightarrow> (case rlp_sizeAsEncoded p of
            Inl e \<Rightarrow> (Inl e, r)
          | Inr n \<Rightarrow> (Inr (), r\<lparr>m_lastEnd := n, m_lastItem := cropped p 0 n, m_lastIndex := 0\<rparr>))
      else (Inr (), r))"

definition rlp_at :: "rlp \<Rightarrow> nat \<Rightarrow> (rlp_exn + bytes) \<times> rlp" where
  "rlp_at r i =
     (case rlp_at_reset i r of
        (Inl e, r1) \<Rightarrow> (Inl e, r1)
      | (Inr _, r1) \<Rightarrow> (case rlp_at_loop i r1 of
          (Inl e, r2) \<Rightarrow> (Inl e, r2)
        | (Inr _, r2) \<Rightarrow> (RLP_make (m_lastItem r2) [ThrowOnFail, FailIfTooSmall], r2)))"

text \<open>The same element read without a cache.\<close>

fun rlp_elem :: "bytes \<Rightarrow> nat \<Rightarrow> rlp_exn + bytes" where
  "rlp_elem p 0 = res_bind (rlp_sizeAsEncoded p) (\<lambda>n. Inr (take n p))"
| "rlp_elem p (Suc i) =
     res_bind (rlp_sizeAsEncoded p) (\<lambda>n. if n = 0 then Inr [] else rlp_elem (drop n p) i)"

definition rlp_nth :: "bytes \<Rightarrow> nat \<Rightarrow> rlp_exn + bytes" where
  "rlp_nth d i = res_bind (rlp_payload d) (\<lambda>p. rlp_elem p i)"

subsection \<open>The writer\<close>

text \<open>The last element of the vector \<open>m_listStack\<close> is the head of the list here.\<close>

record RLPStream =
  m_out :: bytes
  m_listStack :: "(nat \<times> nat) list"

definition RLPStream_new :: RLPStream where
  "RLPStream_new = \<lparr>m_out = [], m_listStack = []\<rparr>"

function pushInt_loop :: "bytes \<Rightarrow> nat \<Rightarrow> nat \<Rightarrow> bytes" where
  "pushInt_loop out b i =
     (if i = 0 then out else pushInt_loop (out[b := word_of_nat (i mod 256)]) (b - 1) (i div 256))"
  by pat_completeness auto
termination
  by (relation "measure (\<lambda>(_, _, i). i)") auto

declare pushInt_loop.simps [simp del]

definition pushInt :: "nat \<Rightarrow> nat \<Rightarrow> RLPStream \<Rightarrow> RLPStream" where
  "pushInt i br s = (let out = m_out s @ replicate br 0 in
     s\<lparr>m_out := pushInt_loop out (length out - 1) i\<rparr>)"

definition pushCount :: "nat \<Rightarrow> nat \<Rightarrow> RLPStream \<Rightarrow> rlp_exn + RLPStream" where
  "pushCount cnt base s = (let br = bytesRequired cnt in
     if 0xff < br + base then Inl RLPException
     else Inr (pushInt cnt br (s\<lparr>m_out := m_out s @ [word_of_nat (br + base)]\<rparr>)))"

fun noteAppended_loop :: "bytes \<Rightarrow> (nat \<times> nat) list \<Rightarrow> nat \<Rightarrow> rlp_exn + RLPStream" where
  "noteAppended_loop out [] itemCount = Inr \<lparr>m_out = out, m_listStack = []\<rparr>"
| "noteAppended_loop out ((first, p) # stack) itemCount =
     (if first < itemCount then Inl RLPException
      else if first - itemCount \<noteq> 0
      then Inr \<lparr>m_out = out, m_listStack = (first - itemCount, p) # stack\<rparr>
      else let s = length out - p; brs = bytesRequired s;
             encodeSize = (if s < 56 then 1 else 1 + brs);
             moved = take p out @ replicate encodeSize 0 @ drop p out
        in if s < 56 then noteAppended_loop (moved[p := word_of_nat (0xc0 + s)]) stack 1
           else if 0xf7 + brs \<le> 0xff
           then noteAppended_loop
             (pushInt_loop (moved[p := word_of_nat (0xf7 + brs)]) (p + brs) s) stack 1
           else Inl RLPException)"

definition noteAppended :: "nat \<Rightarrow> RLPStream \<Rightarrow> rlp_exn + RLPStream" where
  "noteAppended itemCount s =
     (if itemCount = 0 then Inr s else noteAppended_loop (m_out s) (m_listStack s) itemCount)"

definition appendRaw :: "bytes \<Rightarrow> nat \<Rightarrow> RLPStream \<Rightarrow> rlp_exn + RLPStream" where
  "appendRaw b itemCount s = noteAppended itemCount (s\<lparr>m_out := m_out s @ b\<rparr>)"

definition appendList_raw :: "bytes \<Rightarrow> RLPStream \<Rightarrow> rlp_exn + RLPStream" where
  "appendList_raw b s =
     res_bind
       (if length b < 56 then Inr (s\<lparr>m_out := m_out s @ [word_of_nat (length b + 0xc0)]\<rparr>)
        else pushCount (length b) 0xf7 s)
       (appendRaw b 1)"

definition appendList :: "nat \<Rightarrow> RLPStream \<Rightarrow> rlp_exn + RLPStream" where
  "appendList items s =
     (if items \<noteq> 0 then Inr (s\<lparr>m_listStack := (items, length (m_out s)) # m_listStack s\<rparr>)
      else appendList_raw [] s)"

definition append_bytes :: "bytes \<Rightarrow> bool \<Rightarrow> RLPStream \<Rightarrow> rlp_exn + RLPStream" where
  "append_bytes b compact s = (let d = (if compact then dropWhile (\<lambda>x. x = 0) b else b) in
     res_bind
       (if length d = 1 \<and> d ! 0 < 0x80 then Inr (s\<lparr>m_out := m_out s @ [d ! 0]\<rparr>)
        else res_bind
          (if length d < 56 then Inr (s\<lparr>m_out := m_out s @ [word_of_nat (length d + 0x80)]\<rparr>)
           else pushCount (length d) 0xb7 s)
          (appendRaw d 0))
       (noteAppended 1))"

definition append_bigint :: "nat \<Rightarrow> RLPStream \<Rightarrow> rlp_exn + RLPStream" where
  "append_bigint i s =
     res_bind
       (if i = 0 then Inr (s\<lparr>m_out := m_out s @ [0x80]\<rparr>)
        else if i < 0x80 then Inr (s\<lparr>m_out := m_out s @ [word_of_nat i]\<rparr>)
        else let br = bytesRequired i in
          res_bind
            (if br < 56 then Inr (s\<lparr>m_out := m_out s @ [word_of_nat (br + 0x80)]\<rparr>)
             else let brbr = bytesRequired br in
               if 0xff < 0xb7 + brbr then Inl RLPException
               else Inr (pushInt br brbr (s\<lparr>m_out := m_out s @ [word_of_nat (0xb7 + brbr)]\<rparr>)))
            (\<lambda>t. Inr (pushInt i br t)))
       (noteAppended 1)"

definition append_unsigned :: "nat \<Rightarrow> RLPStream \<Rightarrow> rlp_exn + RLPStream" where
  "append_unsigned i s = append_bigint i s"

definition append_hash :: "'a::len word \<Rightarrow> RLPStream \<Rightarrow> rlp_exn + RLPStream" where
  "append_hash h s = append_bytes (hash_bytes h) False s"

fun append_all :: "('a \<Rightarrow> RLPStream \<Rightarrow> rlp_exn + RLPStream) \<Rightarrow> 'a list \<Rightarrow> RLPStream
    \<Rightarrow> rlp_exn + RLPStream" where
  "append_all app [] s = Inr s"
| "append_all app (x # xs) s = res_bind (app x s) (append_all app xs)"

definition appendVector :: "('a \<Rightarrow> RLPStream \<Rightarrow> rlp_exn + RLPStream) \<Rightarrow> 'a list \<Rightarrow> RLPStream
    \<Rightarrow> rlp_exn + RLPStream" where
  "appendVector app xs s = res_bind (appendList (length xs) s) (append_all app xs)"

definition RLPStream_out :: "RLPStream \<Rightarrow> rlp_exn + bytes" where
  "RLPStream_out s = (if m_listStack s \<noteq> [] then Inl RLPException else Inr (m_out s))"

section \<open>The reference encoding\<close>

datatype rlp_tree = RStr bytes | RList "rlp_tree list"

definition rlp_hdr :: "nat \<Rightarrow> nat \<Rightarrow> bytes" where
  "rlp_hdr base s =
     (if s < 56 then [word_of_nat (base + s)]
      else word_of_nat (base + 55 + bytesRequired s) # be (bytesRequired s) s)"

definition rlp_str :: "bytes \<Rightarrow> bytes" where
  "rlp_str b = (if length b = 1 \<and> b ! 0 < 0x80 then b else rlp_hdr 0x80 (length b) @ b)"

definition rlp_lst :: "bytes \<Rightarrow> bytes" where
  "rlp_lst c = rlp_hdr 0xc0 (length c) @ c"

fun rlp_enc :: "rlp_tree \<Rightarrow> bytes" where
  "rlp_enc (RStr b) = rlp_str b"
| "rlp_enc (RList ts) = rlp_lst (concat (map rlp_enc ts))"

text \<open>The sizes the format can express, with the margin that the reader asks for.\<close>

definition rlp_size_ok :: "nat \<Rightarrow> bool" where
  "rlp_size_ok n \<longleftrightarrow> n < 2 ^ 64 - 1 - 0x100"

text \<open>An encoded item: whatever follows it, the reader sees its size.\<close>

definition rlp_item :: "bytes \<Rightarrow> bool" where
  "rlp_item e \<longleftrightarrow> e \<noteq> [] \<and> (\<forall>r. rlp_actualSize (e @ r) = Inr (length e))"

lemma bytesRequired_8: "rlp_size_ok s \<Longrightarrow> bytesRequired s \<le> 8"
  by (simp add: bytesRequired_le_iff rlp_size_ok_def)

lemma bytesRequired_56: "56 \<le> s \<Longrightarrow> 1 \<le> bytesRequired s"
  using bytesRequired_eq_0 [of s] by linarith

lemma hd_be_bytesRequired: "0 < s \<Longrightarrow> be (bytesRequired s) s ! 0 \<noteq> 0"
proof -
  assume s: "0 < s"
  have "toCompactBigEndian s 0 = be (bytesRequired s) s" by (simp add: toCompactBigEndian_def)
  moreover from s have "be (bytesRequired s) s \<noteq> []"
    by (metis bytesRequired_eq_0 length_be list.size(3) nat_neq_iff)
  ultimately show ?thesis using hd_toCompactBigEndian [OF s] by (simp add: hd_conv_nth)
qed

lemma fromBigEndian_be_bytesRequired: "fromBigEndian (be (bytesRequired s) s) = s"
proof -
  have "s < 256 ^ bytesRequired s" by (simp flip: bytesRequired_le_iff)
  then show ?thesis by (simp add: fromBigEndian_be)
qed

lemma length_rlp_hdr: "length (rlp_hdr base s) = (if s < 56 then 1 else 1 + bytesRequired s)"
  by (simp add: rlp_hdr_def)

section \<open>Reading an encoded item\<close>

lemma unat_byte: "n < 256 \<Longrightarrow> unat (word_of_nat n :: byte) = n"
  by (simp add: unat_of_nat)

lemmas rlp_head = rlp_isNull_def rlp_isData_def rlp_isList_def rlp_isSingleByte_def
  word_less_nat_alt word_le_nat_alt unat_byte

lemma byte_eq_129: "n < 256 \<Longrightarrow> (word_of_nat n :: byte) = 0x81 \<longleftrightarrow> n = 129"
  by (simp add: word_unat_eq_iff unat_byte)

text \<open>What the first byte says, for the four kinds of header.\<close>

lemma head_requireGood: "n < 256 \<Longrightarrow> n \<noteq> 129 \<Longrightarrow> rlp_requireGood (word_of_nat n # xs) = Inr ()"
  by (simp add: rlp_requireGood_def rlp_isNull_def byte_eq_129)

lemma head_short_str:
  assumes "128 \<le> n" "n \<le> 183"
  shows "rlp_requireGood (word_of_nat n # xs) = Inr () \<Longrightarrow>
      rlp_length (word_of_nat n # xs) = Inr (n - 128)"
    and "rlp_payloadOffset (word_of_nat n # xs) = 1"
    and "rlp_isData (word_of_nat n # xs)"
  using assms
  by (simp_all add: rlp_length_def rlp_payloadOffset_def rlp_lengthSize_def rlp_head Let_def)

lemma head_short_list:
  assumes "192 \<le> n" "n \<le> 247"
  shows "rlp_length (word_of_nat n # xs) = Inr (n - 192)"
    and "rlp_payloadOffset (word_of_nat n # xs) = 1"
    and "rlp_isList (word_of_nat n # xs)"
  using assms
  by (simp_all add: rlp_length_def rlp_payloadOffset_def rlp_lengthSize_def rlp_head
      head_requireGood Let_def)

lemma head_long_str:
  assumes "56 \<le> s" "rlp_size_ok s" and n: "n = 183 + bytesRequired s"
  shows "rlp_length (word_of_nat n # be (bytesRequired s) s @ xs) = Inr s"
    and "rlp_payloadOffset (word_of_nat n # be (bytesRequired s) s @ xs) = 1 + bytesRequired s"
    and "rlp_isData (word_of_nat n # be (bytesRequired s) s @ xs)"
proof -
  let ?k = "bytesRequired s"
  have k: "1 \<le> ?k" "?k \<le> 8" using assms bytesRequired_56 [of s] bytesRequired_8 [of s] by auto
  have b0: "(be ?k s @ xs) ! 0 \<noteq> 0"
    using assms k hd_be_bytesRequired [of s] by (simp add: nth_append)
  have n': "184 \<le> n" "n < 192" "n - 183 = ?k" using n k by auto
  show "rlp_length (word_of_nat n # be ?k s @ xs) = Inr s"
    using assms(1,2) k b0 n'
    by (simp add: rlp_length_def rlp_head head_requireGood Let_def fromBigEndian_be_bytesRequired
        rlp_size_ok_def)
  show "rlp_payloadOffset (word_of_nat n # be ?k s @ xs) = 1 + ?k"
       "rlp_isData (word_of_nat n # be ?k s @ xs)"
    using n' by (simp_all add: rlp_payloadOffset_def rlp_lengthSize_def rlp_head)
qed

lemma head_long_list:
  assumes "56 \<le> s" "rlp_size_ok s" and n: "n = 247 + bytesRequired s"
  shows "rlp_length (word_of_nat n # be (bytesRequired s) s @ xs) = Inr s"
    and "rlp_payloadOffset (word_of_nat n # be (bytesRequired s) s @ xs) = 1 + bytesRequired s"
    and "rlp_isList (word_of_nat n # be (bytesRequired s) s @ xs)"
proof -
  let ?k = "bytesRequired s"
  have k: "1 \<le> ?k" "?k \<le> 8" using assms bytesRequired_56 [of s] bytesRequired_8 [of s] by auto
  have b0: "(be ?k s @ xs) ! 0 \<noteq> 0"
    using assms k hd_be_bytesRequired [of s] by (simp add: nth_append)
  have n': "248 \<le> n" "n < 256" "n - 247 = ?k" using n k by auto
  show "rlp_length (word_of_nat n # be ?k s @ xs) = Inr s"
    using assms(1,2) k b0 n'
    by (simp add: rlp_length_def rlp_head head_requireGood Let_def fromBigEndian_be_bytesRequired
        rlp_size_ok_def)
  show "rlp_payloadOffset (word_of_nat n # be ?k s @ xs) = 1 + ?k"
       "rlp_isList (word_of_nat n # be ?k s @ xs)"
    using n' by (simp_all add: rlp_payloadOffset_def rlp_lengthSize_def rlp_head)
qed

text \<open>Together: the reader on an encoded string, and on an encoded list.\<close>

lemma rlp_str_read:
  assumes ok: "rlp_size_ok (length b)"
  shows "rlp_requireGood (rlp_str b @ r) = Inr ()"
    and "rlp_length (rlp_str b @ r) = Inr (length b)"
    and "rlp_payloadOffset (rlp_str b @ r) + length b = length (rlp_str b)"
    and "rlp_isData (rlp_str b @ r)"
proof -
  consider (byte) "length b = 1" "b ! 0 < 0x80" | (short) "length b < 56" "\<not> (length b = 1 \<and> b ! 0 < 0x80)"
    | (long) "56 \<le> length b" by fastforce
  then have "rlp_requireGood (rlp_str b @ r) = Inr () \<and> rlp_length (rlp_str b @ r) = Inr (length b) \<and>
    rlp_payloadOffset (rlp_str b @ r) + length b = length (rlp_str b) \<and> rlp_isData (rlp_str b @ r)"
  proof cases
    case byte
    then obtain x where b: "b = [x]" "x < 0x80" by (auto simp: length_Suc_conv)
    then have "x \<noteq> 0x81" by auto
    with b show ?thesis
      by (simp add: rlp_str_def rlp_requireGood_def rlp_length_def rlp_payloadOffset_def
          rlp_isNull_def rlp_isSingleByte_def rlp_isData_def word_less_nat_alt Let_def)
  next
    case short
    define n where "n = 0x80 + length b"
    have e: "rlp_str b @ r = word_of_nat n # b @ r" and n: "128 \<le> n" "n \<le> 183" "n - 128 = length b"
      using short by (auto simp: rlp_str_def rlp_hdr_def n_def)
    have good: "rlp_requireGood (word_of_nat n # b @ r) = Inr ()"
    proof (cases "n = 129")
      case True
      then obtain x where "b = [x]" by (auto simp: n_def length_Suc_conv)
      with short True show ?thesis by (simp add: rlp_requireGood_def rlp_isNull_def)
    qed (use n in \<open>simp add: head_requireGood\<close>)
    moreover from short have "length (rlp_str b) = 1 + length b"
      by (auto simp: rlp_str_def length_rlp_hdr)
    ultimately show ?thesis using head_short_str [OF n(1,2), of "b @ r"] n e by simp
  next
    case long
    define n where "n = 183 + bytesRequired (length b)"
    have e: "rlp_str b @ r = word_of_nat n # be (bytesRequired (length b)) (length b) @ b @ r"
      using long by (simp add: rlp_str_def rlp_hdr_def n_def)
    from long have l: "length (rlp_str b) = 1 + bytesRequired (length b) + length b"
      by (auto simp: rlp_str_def length_rlp_hdr)
    have "n < 256" "n \<noteq> 129" using bytesRequired_8 [OF ok] by (auto simp: n_def)
    then show ?thesis
      using head_long_str [OF long ok n_def, of "b @ r"] l by (simp add: e head_requireGood)
  qed
  then show "rlp_requireGood (rlp_str b @ r) = Inr ()" "rlp_length (rlp_str b @ r) = Inr (length b)"
    "rlp_payloadOffset (rlp_str b @ r) + length b = length (rlp_str b)" "rlp_isData (rlp_str b @ r)"
    by auto
qed

lemma rlp_lst_read:
  assumes ok: "rlp_size_ok (length c)"
  shows "rlp_length (rlp_lst c @ r) = Inr (length c)"
    and "rlp_payloadOffset (rlp_lst c @ r) + length c = length (rlp_lst c)"
    and "rlp_isList (rlp_lst c @ r)"
proof -
  have "rlp_length (rlp_lst c @ r) = Inr (length c) \<and>
    rlp_payloadOffset (rlp_lst c @ r) + length c = length (rlp_lst c) \<and> rlp_isList (rlp_lst c @ r)"
  proof (cases "length c < 56")
    case True
    define n where "n = 0xc0 + length c"
    have e: "rlp_lst c @ r = word_of_nat n # c @ r" and n: "192 \<le> n" "n \<le> 247" "n - 192 = length c"
      using True by (auto simp: rlp_lst_def rlp_hdr_def n_def)
    moreover from True have "length (rlp_lst c) = 1 + length c"
      by (auto simp: rlp_lst_def length_rlp_hdr)
    ultimately show ?thesis using head_short_list [OF n(1,2), of "c @ r"] by simp
  next
    case False
    then have long: "56 \<le> length c" by simp
    define n where "n = 247 + bytesRequired (length c)"
    have e: "rlp_lst c @ r = word_of_nat n # be (bytesRequired (length c)) (length c) @ c @ r"
      using long by (simp add: rlp_lst_def rlp_hdr_def n_def)
    from long have "length (rlp_lst c) = 1 + bytesRequired (length c) + length c"
      by (auto simp: rlp_lst_def length_rlp_hdr)
    then show ?thesis
      using head_long_list [OF long ok n_def, of "c @ r"] by (simp add: e)
  qed
  then show "rlp_length (rlp_lst c @ r) = Inr (length c)"
    "rlp_payloadOffset (rlp_lst c @ r) + length c = length (rlp_lst c)" "rlp_isList (rlp_lst c @ r)"
    by auto
qed

lemma rlp_actualSize_eq:
  "d \<noteq> [] \<Longrightarrow> rlp_actualSize d = res_bind (rlp_length d) (\<lambda>l. Inr (rlp_payloadOffset d + l))"
proof -
  assume d: "d \<noteq> []"
  show ?thesis
  proof (cases "rlp_isSingleByte d")
    case True
    then have "d ! 0 \<noteq> 0x81" by (auto simp: rlp_isSingleByte_def)
    with True have "rlp_length d = Inr 1"
      by (simp add: rlp_length_def rlp_requireGood_def rlp_isSingleByte_def word_less_nat_alt Let_def)
    with True d show ?thesis by (simp add: rlp_actualSize_def rlp_payloadOffset_def rlp_isNull_def)
  next
    case False
    with d show ?thesis
      by (auto simp: rlp_actualSize_def rlp_isNull_def rlp_isData_def rlp_isList_def not_less)
  qed
qed

lemma rlp_str_suffix: "\<exists>pre. rlp_str b = pre @ b"
  by (auto simp: rlp_str_def)

lemma rlp_str_neq [simp]: "rlp_str b \<noteq> []" "rlp_lst c \<noteq> []"
  by (auto simp: rlp_str_def rlp_lst_def rlp_hdr_def)

lemma rlp_item_str: "rlp_size_ok (length b) \<Longrightarrow> rlp_item (rlp_str b)"
  by (simp add: rlp_item_def rlp_actualSize_eq rlp_str_read)

lemma rlp_item_lst: "rlp_size_ok (length c) \<Longrightarrow> rlp_item (rlp_lst c)"
  by (simp add: rlp_item_def rlp_actualSize_eq rlp_lst_read)

lemma payload_suffix:
  assumes "rlp_length (pre @ b @ r) = Inr (length b)" "rlp_payloadOffset (pre @ b @ r) = length pre"
  shows "rlp_payload (pre @ b @ r) = Inr b"
  using assms by (simp add: rlp_payload_def cropped_def)

lemma rlp_payload_str [simp]: "rlp_size_ok (length b) \<Longrightarrow> rlp_payload (rlp_str b @ r) = Inr b"
  using rlp_str_suffix [of b] rlp_str_read [of b r] payload_suffix [of _ b r] by auto

lemma rlp_payload_lst [simp]: "rlp_size_ok (length c) \<Longrightarrow> rlp_payload (rlp_lst c @ r) = Inr c"
  using rlp_lst_read [of c r] payload_suffix [of "rlp_hdr 0xc0 (length c)" c r]
  by (auto simp: rlp_lst_def)

lemmas rlp_payload_exact [simp] = rlp_payload_str [where r = "[]", simplified]
  rlp_payload_lst [where r = "[]", simplified]

lemma rlp_item_size [simp]: "rlp_item e \<Longrightarrow> rlp_sizeAsEncoded (e @ r) = Inr (length e)"
  by (simp add: rlp_sizeAsEncoded_eq rlp_item_def)

lemma rlp_item_make [simp]: "rlp_item e \<Longrightarrow> RLP_make e flags = Inr e"
  using spec [of "\<lambda>r. rlp_actualSize (e @ r) = Inr (length e)" "[]"]
  by (simp add: RLP_make_def rlp_item_def)

lemma rlp_split_items: "list_all rlp_item es \<Longrightarrow> rlp_split (concat es) = Inr es"
proof (induction es)
  case Nil
  then show ?case by (simp add: rlp_split.simps)
next
  case (Cons e es)
  then have "e \<noteq> []" by (simp add: rlp_item_def)
  with Cons show ?case
    by (subst rlp_split.simps) (simp add: cropped_from_def cropped_def)
qed

lemma rlp_items_loop_items:
  "list_all rlp_item es \<Longrightarrow> rlp_items_loop (concat es) i = Inr (i + length es)"
proof (induction es arbitrary: i)
  case Nil
  then show ?case by (simp add: rlp_items_loop.simps)
next
  case (Cons e es)
  then have "e \<noteq> []" by (simp add: rlp_item_def)
  with Cons show ?case
    by (subst rlp_items_loop.simps) (simp add: cropped_from_def)
qed

lemma sizeAsEncoded_Nil [simp]: "rlp_sizeAsEncoded [] = Inr 0"
  by (simp add: rlp_sizeAsEncoded_eq rlp_actualSize_def rlp_isNull_def)

lemma rlp_elem_items:
  "list_all rlp_item es \<Longrightarrow> rlp_elem (concat es) i = Inr (if i < length es then es ! i else [])"
proof (induction es arbitrary: i)
  case Nil
  then show ?case by (cases i) auto
next
  case (Cons e es)
  then have "e \<noteq> []" by (simp add: rlp_item_def)
  with Cons show ?case by (cases i) simp_all
qed

lemma rlp_toBytes_str [simp]: "rlp_size_ok (length b) \<Longrightarrow> rlp_toBytes (rlp_str b) flags = Inr b"
  using rlp_str_read(4) [of b "[]"] by (simp add: rlp_toBytes_def)

lemma rlp_toVector_lst:
  assumes "rlp_size_ok (length (concat es))" "list_all rlp_item es"
  shows "rlp_toVector conv (rlp_lst (concat es)) flags = res_mapM (\<lambda>i. conv i flags) es"
  using assms rlp_lst_read(3) [of "concat es" "[]"]
  by (simp add: rlp_toVector_def rlp_itemCount_def rlp_items_def rlp_items_loop_items rlp_split_items)

lemma rlp_toList_lst:
  assumes "rlp_size_ok (length (concat es))" "list_all rlp_item es"
  shows "rlp_toList (rlp_lst (concat es)) flags = Inr es"
  using assms rlp_lst_read(3) [of "concat es" "[]"]
  by (simp add: rlp_toList_def rlp_split_items)

section \<open>The cached subscript\<close>

text \<open>
  The cache describes a position of the payload: \<open>m_lastEnd\<close> is where the item number
  \<open>m_lastIndex\<close> ends and \<open>m_lastItem\<close> is that item.
\<close>

definition rlp_cache_at :: "bytes \<Rightarrow> rlp \<Rightarrow> bool" where
  "rlp_cache_at p r \<longleftrightarrow> rlp_payload (m_data r) = Inr p \<and>
     rlp_elem p (m_lastIndex r) = Inr (m_lastItem r) \<and>
     (if m_lastItem r = [] then \<forall>k. rlp_elem p (m_lastIndex r + k) = Inr []
      else \<forall>k. rlp_elem p (m_lastIndex r + Suc k) = rlp_elem (drop (m_lastEnd r) p) k)"

definition rlp_cache_ok :: "rlp \<Rightarrow> bool" where
  "rlp_cache_ok r \<longleftrightarrow> m_lastIndex r = 2 ^ 64 - 1 \<or> (\<exists>p. rlp_cache_at p r)"

lemma rlp_sizeAsEncoded_le: "rlp_sizeAsEncoded d = Inr n \<Longrightarrow> n \<le> length d"
  by (auto simp: rlp_sizeAsEncoded_eq split: if_splits)

lemma rlp_sizeAsEncoded_0: "rlp_sizeAsEncoded d = Inr 0 \<Longrightarrow> d = []"
  by (auto simp: rlp_sizeAsEncoded_eq dest!: rlp_actualSize_pos split: if_splits)

text \<open>The size of an item is read off its own bytes.\<close>

lemma rlp_length_take:
  assumes len: "rlp_length d = Inr l" and n: "rlp_payloadOffset d + l \<le> n"
    and d: "d \<noteq> []" "n \<le> length d"
  shows "rlp_length (take n d) = Inr l \<and> rlp_payloadOffset (take n d) = rlp_payloadOffset d"
proof -
  have "rlp_actualSize d = Inr (rlp_payloadOffset d + l)"
    using len d by (simp add: rlp_actualSize_eq)
  with n d have n0: "0 < n" by (auto dest: rlp_actualSize_pos)
  then have head: "take n d ! 0 = d ! 0" "\<not> rlp_isNull (take n d)" "\<not> rlp_isNull d"
    using d by (simp_all add: rlp_isNull_def)
  then have kind: "rlp_lengthSize (take n d) = rlp_lengthSize d"
    "rlp_isSingleByte (take n d) = rlp_isSingleByte d"
    by (simp_all add: rlp_lengthSize_def rlp_isSingleByte_def rlp_isData_def rlp_isList_def)
  have good: "rlp_requireGood d = Inr ()"
    using len head by (auto simp: rlp_length_def)
  have "2 \<le> n" if "d ! 0 = 0x81"
  proof -
    have "rlp_length d = Inr 1" using that head good by (simp add: rlp_length_def)
    moreover have "rlp_payloadOffset d = 1 + rlp_lengthSize d"
      using that by (simp add: rlp_payloadOffset_def rlp_isSingleByte_def)
    ultimately show ?thesis using len n by simp
  qed
  with good head d have good': "rlp_requireGood (take n d) = Inr ()"
    by (auto simp: rlp_requireGood_def split: if_splits)
  have "rlp_length (take n d) = rlp_length d"
  proof (cases "rlp_lengthSize d = 0")
    case True
    then have "unat (d ! 0) \<le> 0xb7 \<or> 0xc0 \<le> unat (d ! 0) \<and> unat (d ! 0) \<le> 0xf7"
      using head by (auto simp: rlp_lengthSize_def rlp_isData_def rlp_isList_def word_less_nat_alt
          word_le_nat_alt not_less split: if_splits)
    with good good' head show ?thesis
      by (elim disjE conjE) (simp_all add: rlp_length_def Let_def)
  next
    case False
    then have "\<not> rlp_isSingleByte d"
      by (auto simp: rlp_lengthSize_def rlp_isSingleByte_def word_less_nat_alt split: if_splits)
    with n have k: "rlp_lengthSize d < n" by (simp add: rlp_payloadOffset_def)
    define k where "k = rlp_lengthSize d"
    have "take n d ! 1 = d ! 1" "take k (drop 1 (take n d)) = take k (drop 1 d)" "2 \<le> n" "1 < length d"
      using k False d by (auto simp: k_def drop_take min_def)
    moreover have "unat (d ! 0) - 0xb7 = k \<and> 0xb7 < unat (d ! 0) \<and> unat (d ! 0) < 0xc0 \<or>
        unat (d ! 0) - 0xf7 = k \<and> 0xf7 < unat (d ! 0)"
      using False head by (auto simp: k_def rlp_lengthSize_def rlp_isData_def rlp_isList_def
          word_less_nat_alt split: if_splits)
    ultimately show ?thesis using good good' head k d k_def
      by (elim disjE conjE) (simp_all add: rlp_length_def Let_def)
  qed
  with len kind show ?thesis by (simp add: rlp_payloadOffset_def)
qed

lemma rlp_make_take:
  assumes "rlp_sizeAsEncoded d = Inr n"
  shows "RLP_make (take n d) [ThrowOnFail, FailIfTooSmall] = Inr (take n d)"
proof (cases "d = []")
  case True
  then show ?thesis by (simp add: RLP_make_def rlp_actualSize_def rlp_isNull_def)
next
  case False
  with assms obtain l where l: "rlp_length d = Inr l" "n = rlp_payloadOffset d + l" "n \<le> length d"
    by (auto simp: rlp_sizeAsEncoded_eq rlp_actualSize_eq split: if_splits)
  from assms False have "take n d \<noteq> []" using rlp_sizeAsEncoded_0 by fastforce
  with l False rlp_length_take [of d l n] have "rlp_actualSize (take n d) = Inr n"
    by (simp add: rlp_actualSize_eq)
  with l show ?thesis by (simp add: RLP_make_def)
qed

lemma rlp_make_Nil: "RLP_make [] flags = Inr []"
  by (simp add: RLP_make_def rlp_actualSize_def rlp_isNull_def)

lemma rlp_elem_make:
  "rlp_elem p i = Inr x \<Longrightarrow> RLP_make x [ThrowOnFail, FailIfTooSmall] = Inr x"
  by (induction p i rule: rlp_elem.induct) (auto simp: rlp_make_take rlp_make_Nil split: if_splits)

lemma rlp_at_loop_cache:
  assumes "rlp_cache_at p r" "m_lastIndex r \<le> i" "rlp_at_loop i r = (res, r')"
  shows "case res of
      Inl e \<Rightarrow> rlp_elem p i = Inl e
    | Inr _ \<Rightarrow> rlp_cache_at p r' \<and> rlp_elem p i = Inr (m_lastItem r') \<and> m_data r' = m_data r"
  using assms
proof (induction "i - m_lastIndex r" arbitrary: r rule: less_induct)
  case (less r)
  note cache = less.prems(1) and le = less.prems(2) and run = less.prems(3)
  show ?case
  proof (cases "m_lastIndex r < i \<and> m_lastItem r \<noteq> []")
    case False
    then have res: "res = Inr ()" "r' = r"
      using run by (subst (asm) rlp_at_loop.simps, simp)+
    obtain k where i: "i = m_lastIndex r + k" using le by (auto simp: le_iff_add)
    then have "rlp_elem p i = Inr (m_lastItem r)"
      using cache False by (auto simp: rlp_cache_at_def split: if_splits)
    with cache res show ?thesis by simp
  next
    case True
    let ?rest = "drop (m_lastEnd r) p"
    have pay: "rlp_payload (m_data r) = Inr p" and
      next_elem: "\<And>k. rlp_elem p (m_lastIndex r + Suc k) = rlp_elem ?rest k"
      using cache True by (auto simp: rlp_cache_at_def)
    have crop: "cropped_from p (m_lastEnd r) = ?rest" by (simp add: cropped_from_def)
    from True obtain k where i: "i = m_lastIndex r + Suc k" by (auto dest: less_imp_Suc_add)
    show ?thesis
    proof (cases "rlp_sizeAsEncoded ?rest")
      case (Inl e)
      then have "res = Inl e"
        using run by (subst (asm) rlp_at_loop.simps) (simp add: True pay Inl crop Let_def)
      moreover have "rlp_elem ?rest k = Inl e" using Inl by (cases k) auto
      ultimately show ?thesis using next_elem [of k] i by simp
    next
      case (Inr n)
      let ?item = "take n ?rest"
      let ?r1 = "r\<lparr>m_lastItem := ?item, m_lastEnd := m_lastEnd r + length ?item,
        m_lastIndex := m_lastIndex r + 1\<rparr>"
      have n: "n \<le> length ?rest" using Inr by (rule rlp_sizeAsEncoded_le)
      then have item: "cropped ?rest 0 n = ?item" "length ?item = n" by (simp_all add: cropped_def)
      have nx: "rlp_elem p (Suc (m_lastIndex r + j)) = rlp_elem ?rest j" for j
        using next_elem [of j] by simp
      have "rlp_cache_at p ?r1"
      proof (cases "n = 0")
        case True
        then have "rlp_elem ?rest j = Inr []" for j using Inr by (cases j) simp_all
        with True pay nx show ?thesis
          by (simp add: rlp_cache_at_def del: rlp_elem.simps) (metis add.right_neutral)
      next
        case False
        then have "rlp_elem ?rest (Suc j) = rlp_elem (drop (m_lastEnd r + n) p) j" for j
          using Inr by (simp add: add.commute)
        then have after: "rlp_elem p (m_lastIndex r + 1 + Suc j) =
            rlp_elem (drop (m_lastEnd r + n) p) j" for j
          using nx [of "Suc j"] by simp
        have "?item \<noteq> []" using False n by auto
        moreover have "rlp_elem p (m_lastIndex r + 1) = Inr ?item" using Inr nx [of 0] by simp
        ultimately show ?thesis using pay after item(2)
          unfolding rlp_cache_at_def
          by (simp del: rlp_elem.simps take_eq_Nil length_take add_Suc add_Suc_right One_nat_def)
      qed
      moreover have "rlp_at_loop i ?r1 = (res, r')"
        using run by (subst (asm) rlp_at_loop.simps) (simp add: True pay Inr item crop Let_def)
      moreover have "i - m_lastIndex ?r1 < i - m_lastIndex r" "m_lastIndex ?r1 \<le> i"
        using True by (simp_all add: diff_less_mono2)
      ultimately show ?thesis using less.hyps [of ?r1] by (simp split: sum.splits)
    qed
  qed
qed

lemma rlp_cache_reset:
  assumes "rlp_payload (m_data r) = Inr p" "rlp_sizeAsEncoded p = Inr n"
  shows "rlp_cache_at p (r\<lparr>m_lastEnd := n, m_lastItem := cropped p 0 n, m_lastIndex := 0\<rparr>)"
proof -
  have n: "n \<le> length p" using assms(2) by (rule rlp_sizeAsEncoded_le)
  have "rlp_elem p k = Inr []" if "n = 0" for k
    using assms(2) that by (cases k) simp_all
  then show ?thesis using assms n by (auto simp: rlp_cache_at_def cropped_def)
qed

text \<open>
  The subscript returns the item the cache-free definition names, whatever accesses were
  made before, and a successful access leaves the cache consistent.
\<close>

lemma rlp_at_nth:
  assumes ok: "rlp_cache_ok r" and i: "i < 2 ^ 64 - 1"
  shows "fst (rlp_at r i) = rlp_nth (m_data r) i"
    and "fst (rlp_at r i) = Inr x \<Longrightarrow>
      rlp_cache_ok (snd (rlp_at r i)) \<and> m_data (snd (rlp_at r i)) = m_data r"
proof -
  have from_pos: "(case rlp_at_loop i r1 of (Inl e, r2) \<Rightarrow> (Inl e, r2)
      | (Inr _, r2) \<Rightarrow> (RLP_make (m_lastItem r2) [ThrowOnFail, FailIfTooSmall], r2)) = (q, r')
      \<Longrightarrow> q = rlp_nth (m_data r) i \<and> (q = Inr x \<longrightarrow> rlp_cache_ok r' \<and> m_data r' = m_data r)"
    if "rlp_cache_at p r1" "m_lastIndex r1 \<le> i" "m_data r1 = m_data r" for p r1 q r'
    using rlp_at_loop_cache [OF that(1,2)] that
    by (auto simp: rlp_nth_def rlp_cache_at_def [of p r1] rlp_cache_ok_def
        split: prod.splits sum.splits dest: rlp_elem_make)
  obtain q r' where run: "rlp_at r i = (q, r')" by (cases "rlp_at r i")
  have "q = rlp_nth (m_data r) i \<and> (q = Inr x \<longrightarrow> rlp_cache_ok r' \<and> m_data r' = m_data r)"
  proof (cases "i < m_lastIndex r")
    case False
    with ok i obtain p where p: "rlp_cache_at p r" by (auto simp: rlp_cache_ok_def)
    show ?thesis using from_pos [OF p] run False by (simp add: rlp_at_def rlp_at_reset_def)
  next
    case True
    show ?thesis
    proof (cases "rlp_payload (m_data r)")
      case (Inl e)
      with True run have "q = Inl e" by (simp add: rlp_at_def rlp_at_reset_def)
      with Inl show ?thesis by (simp add: rlp_nth_def)
    next
      case pay: (Inr p)
      show ?thesis
      proof (cases "rlp_sizeAsEncoded p")
        case (Inl e)
        then have "rlp_elem p i = Inl e" by (cases i) auto
        with True run pay Inl show ?thesis by (auto simp: rlp_at_def rlp_at_reset_def rlp_nth_def)
      next
        case (Inr n)
        show ?thesis
          using from_pos [OF rlp_cache_reset [OF pay Inr]] True run pay Inr
          by (simp add: rlp_at_def rlp_at_reset_def)
      qed
    qed
  qed
  with run show "fst (rlp_at r i) = rlp_nth (m_data r) i"
    "fst (rlp_at r i) = Inr x \<Longrightarrow>
      rlp_cache_ok (snd (rlp_at r i)) \<and> m_data (snd (rlp_at r i)) = m_data r"
    by simp_all
qed

lemma rlp_new_ok [simp]: "rlp_cache_ok (rlp_new d)" "m_data (rlp_new d) = d"
  by (simp_all add: rlp_new_def rlp_cache_ok_def)

section \<open>The writer produces the reference encoding\<close>

lemma be_0: "be k 0 = replicate k 0"
  by (induction k) (simp_all add: replicate_append_same)

lemma replicate_update_last: "(replicate (Suc k) a)[k := x] = replicate k a @ [x]"
  by (induction k) simp_all

lemma pushInt_loop_be:
  "bytesRequired i \<le> k \<Longrightarrow> p = length xs + k - 1 \<Longrightarrow>
    pushInt_loop (xs @ replicate k 0 @ ys) p i = xs @ be k i @ ys"
proof (induction k arbitrary: i ys p)
  case 0
  then show ?case by (simp add: pushInt_loop.simps)
next
  case (Suc k)
  show ?case
  proof (cases "i = 0")
    case True
    then show ?thesis by (simp add: pushInt_loop.simps be_0 del: be.simps replicate.simps)
  next
    case False
    with Suc.prems have "bytesRequired (i div 256) \<le> k" by (simp add: bytesRequired_pos)
    then have "pushInt_loop (xs @ replicate k 0 @ word_of_nat (i mod 256) # ys) (p - 1) (i div 256) =
        xs @ be k (i div 256) @ word_of_nat (i mod 256) # ys"
      using Suc by simp
    with False Suc.prems show ?thesis
      by (subst pushInt_loop.simps)
        (simp add: list_update_append replicate_update_last del: replicate_Suc)
  qed
qed

lemma pushInt_be: "bytesRequired i \<le> k \<Longrightarrow> pushInt i k s = s\<lparr>m_out := m_out s @ be k i\<rparr>"
  using pushInt_loop_be [of i k _ "m_out s" "[]"] by (simp add: pushInt_def Let_def)

lemma pushCount_hdr:
  "56 \<le> n \<Longrightarrow> rlp_size_ok n \<Longrightarrow> base + 55 \<le> 247 \<Longrightarrow>
    pushCount n (base + 55) s = Inr (s\<lparr>m_out := m_out s @ rlp_hdr base n\<rparr>)"
  using bytesRequired_8 [of n]
  by (simp add: pushCount_def pushInt_be rlp_hdr_def Let_def add.commute add.left_commute)

lemma append_bytes_str:
  assumes "rlp_size_ok (length b)"
  shows "append_bytes b False s = noteAppended 1 (s\<lparr>m_out := m_out s @ rlp_str b\<rparr>)"
  using assms pushCount_hdr [of "length b" "0x80" s]
  by (auto simp: append_bytes_def rlp_str_def appendRaw_def noteAppended_def rlp_hdr_def Let_def
      length_Suc_conv add.commute)

lemma appendList_raw_lst:
  assumes "rlp_size_ok (length c)"
  shows "appendList_raw c s = noteAppended 1 (s\<lparr>m_out := m_out s @ rlp_lst c\<rparr>)"
  using assms pushCount_hdr [of "length c" "0xc0" s]
  by (auto simp: appendList_raw_def rlp_lst_def appendRaw_def rlp_hdr_def add.commute)

text \<open>The string an integer is written as: its compact big-endian bytes.\<close>

lemma append_bigint_str:
  assumes "rlp_size_ok (bytesRequired i)"
  shows "append_bigint i s =
    noteAppended 1 (s\<lparr>m_out := m_out s @ rlp_str (toCompactBigEndian i 0)\<rparr>)"
proof -
  have compact: "toCompactBigEndian i 0 = be (bytesRequired i) i" by (simp add: toCompactBigEndian_def)
  consider "i = 0" | "0 < i" "i < 0x80" | "0x80 \<le> i" by linarith
  then show ?thesis
  proof cases
    case 1
    with compact show ?thesis by (simp add: append_bigint_def rlp_str_def rlp_hdr_def)
  next
    case 2
    then have "bytesRequired i = 1" by (simp add: bytesRequired_pos)
    with 2 show ?thesis
      by (simp add: append_bigint_def compact rlp_str_def word_less_nat_alt unat_byte)
  next
    case 3
    then have "rlp_str (be (bytesRequired i) i) = rlp_hdr 0x80 (bytesRequired i) @ be (bytesRequired i) i"
    proof -
      have "\<not> be 1 i ! 0 < (0x80 :: byte)" if "bytesRequired i = 1"
      proof -
        from that have "i < 256" using bytesRequired_le_iff [of i 1] by simp
        with 3 show ?thesis by (simp add: word_less_nat_alt unat_byte)
      qed
      then show ?thesis by (auto simp: rlp_str_def)
    qed
    moreover have "bytesRequired (bytesRequired i) \<le> 8" using assms by (rule bytesRequired_8)
    ultimately show ?thesis using 3
      by (auto simp: append_bigint_def compact rlp_hdr_def pushInt_be Let_def add.commute)
  qed
qed

lemma noteAppended_loop_close:
  assumes "rlp_size_ok (length c)"
  shows "noteAppended_loop (pre @ c) ((1, length pre) # stack) 1 =
    noteAppended_loop (pre @ rlp_lst c) stack 1"
proof (cases "length c < 56")
  case True
  then show ?thesis by (simp add: rlp_lst_def rlp_hdr_def Let_def list_update_append)
next
  case False
  have "bytesRequired (length c) \<le> 8" using assms by (rule bytesRequired_8)
  with False pushInt_loop_be [of "length c" "bytesRequired (length c)"
      "length pre + bytesRequired (length c)" "pre @ [word_of_nat (247 + bytesRequired (length c))]" c]
  show ?thesis by (simp add: rlp_lst_def rlp_hdr_def Let_def list_update_append)
qed

text \<open>
  A writer of one item: it appends the encoding of its argument and reports one item to
  the enclosing list.
\<close>

definition writes :: "('a \<Rightarrow> RLPStream \<Rightarrow> rlp_exn + RLPStream) \<Rightarrow> 'a \<Rightarrow> bytes \<Rightarrow> bool" where
  "writes app x e \<longleftrightarrow> (\<forall>s. app x s = noteAppended 1 (s\<lparr>m_out := m_out s @ e\<rparr>))"

lemma writes_new: "writes app x e \<Longrightarrow> app x RLPStream_new = Inr \<lparr>m_out = e, m_listStack = []\<rparr>"
  by (simp add: writes_def RLPStream_new_def noteAppended_def)

lemma writes_top:
  "writes app x e \<Longrightarrow> m_listStack s = [] \<Longrightarrow> app x s = Inr \<lparr>m_out = m_out s @ e, m_listStack = []\<rparr>"
  by (simp add: writes_def noteAppended_def)

lemma append_all_open:
  assumes "list_all2 (writes app) xs es" "xs \<noteq> []"
  shows "append_all app xs \<lparr>m_out = out, m_listStack = (length xs, p) # stack\<rparr> =
    noteAppended_loop (out @ concat es) ((1, p) # stack) 1"
  using assms
proof (induction xs es arbitrary: out rule: list_all2_induct)
  case (Cons x xs e es)
  show ?case
  proof (cases "xs = []")
    case True
    with Cons show ?thesis
      by (auto simp: writes_def noteAppended_def res_bind_def split: sum.splits)
  next
    case False
    then have "app x \<lparr>m_out = out, m_listStack = (length (x # xs), p) # stack\<rparr> =
        Inr \<lparr>m_out = out @ e, m_listStack = (length xs, p) # stack\<rparr>"
      using Cons.hyps(1) by (simp add: writes_def noteAppended_def)
    with Cons.IH [of "out @ e"] False show ?thesis by simp
  qed
qed simp

lemma append_all_top:
  "list_all2 (writes app) xs es \<Longrightarrow>
    append_all app xs \<lparr>m_out = out, m_listStack = []\<rparr> = Inr \<lparr>m_out = out @ concat es, m_listStack = []\<rparr>"
  by (induction xs es arbitrary: out rule: list_all2_induct) (simp_all add: writes_def noteAppended_def)

lemma append_list_writes:
  assumes "list_all2 (writes app) xs es" "rlp_size_ok (length (concat es))"
  shows "writes (\<lambda>xs s. res_bind (appendList (length xs) s) (append_all app xs)) xs (rlp_lst (concat es))"
  unfolding writes_def
proof
  fix s :: RLPStream
  have s: "s\<lparr>m_listStack := st\<rparr> = \<lparr>m_out = m_out s, m_listStack = st\<rparr>" for st
    by (cases s) simp
  show "res_bind (appendList (length xs) s) (append_all app xs) =
      noteAppended 1 (s\<lparr>m_out := m_out s @ rlp_lst (concat es)\<rparr>)"
  proof (cases "xs = []")
    case True
    with assms(1) have "es = []" by simp
    with True show ?thesis
      using appendList_raw_lst [of "[]" s]
      by (simp add: appendList_def rlp_size_ok_def res_bind_def split: sum.splits)
  next
    case False
    have "res_bind (appendList (length xs) s) (append_all app xs) =
        noteAppended_loop (m_out s @ concat es) ((1, length (m_out s)) # m_listStack s) 1"
      using append_all_open [OF assms(1) False] False by (simp add: appendList_def s)
    also have "\<dots> = noteAppended_loop (m_out s @ rlp_lst (concat es)) (m_listStack s) 1"
      using assms(2) by (rule noteAppended_loop_close)
    finally show ?thesis by (simp add: noteAppended_def)
  qed
qed

lemma appendVector_writes:
  assumes "\<And>x. x \<in> set xs \<Longrightarrow> writes app x (enc x)"
    and "rlp_size_ok (length (concat (map enc xs)))"
  shows "writes (appendVector app) xs (rlp_lst (concat (map enc xs)))"
proof -
  have "list_all2 (writes app) xs (map enc xs)"
    using assms(1) by (simp add: list.rel_map list.rel_refl_strong)
  from append_list_writes [OF this assms(2)] show ?thesis
    by (simp add: writes_def appendVector_def)
qed

lemma writes_bytes: "rlp_size_ok (length b) \<Longrightarrow> writes (\<lambda>b. append_bytes b False) b (rlp_str b)"
  by (simp add: writes_def append_bytes_str)

lemma writes_bigint:
  "rlp_size_ok (bytesRequired i) \<Longrightarrow> writes append_bigint i (rlp_str (toCompactBigEndian i 0))"
  by (simp add: writes_def append_bigint_str)

lemma writes_hash: "rlp_size_ok (LENGTH('a) div 8) \<Longrightarrow> writes append_hash h (rlp_str (hash_bytes h))"
  for h :: "'a::len word"
  by (simp add: writes_def append_hash_def append_bytes_str)

text \<open>Item trees, written by the two operations of the stream.\<close>

lemma append_all_cong [fundef_cong]:
  "xs = ys \<Longrightarrow> s = s' \<Longrightarrow> (\<And>x t. x \<in> set ys \<Longrightarrow> f x t = g x t) \<Longrightarrow>
    append_all f xs s = append_all g ys s'"
  by (induction xs arbitrary: ys s s') (auto simp: res_bind_def split: sum.splits)

fun put_tree :: "rlp_tree \<Rightarrow> RLPStream \<Rightarrow> rlp_exn + RLPStream" where
  "put_tree (RStr b) s = append_bytes b False s"
| "put_tree (RList ts) s =
     res_bind (appendList (length ts) s) (\<lambda>s'. append_all put_tree ts s')"

lemma length_rlp_lst: "length c \<le> length (rlp_lst c)" "length b \<le> length (rlp_str b)"
  by (simp_all add: rlp_lst_def rlp_str_def)

lemma length_concat_ge: "x \<in> set xs \<Longrightarrow> length (f x) \<le> length (concat (map f xs))"
  by (induction xs) auto

lemma rlp_size_ok_mono: "m \<le> n \<Longrightarrow> rlp_size_ok n \<Longrightarrow> rlp_size_ok m"
  by (simp add: rlp_size_ok_def)

lemma put_tree_writes: "rlp_size_ok (length (rlp_enc t)) \<Longrightarrow> writes put_tree t (rlp_enc t)"
proof (induction t)
  case (RStr b)
  then have "rlp_size_ok (length b)" by (auto intro: rlp_size_ok_mono length_rlp_lst)
  then show ?case by (simp add: writes_def append_bytes_str)
next
  case (RList ts)
  let ?c = "concat (map rlp_enc ts)"
  from RList.prems have c: "rlp_size_ok (length ?c)"
    by (auto intro: rlp_size_ok_mono length_rlp_lst simp del: length_concat)
  have "writes put_tree t (rlp_enc t)" if "t \<in> set ts" for t
    using RList.IH [OF that] rlp_size_ok_mono [OF length_concat_ge [OF that, of rlp_enc] c] .
  from appendVector_writes [OF this c] show ?case
    by (simp add: writes_def appendVector_def)
qed

lemma rlp_item_enc: "rlp_size_ok (length (rlp_enc t)) \<Longrightarrow> rlp_item (rlp_enc t)"
  by (cases t) (auto intro!: rlp_item_str rlp_item_lst elim!: rlp_size_ok_mono [rotated]
      intro: length_rlp_lst simp del: length_concat)

text \<open>A reader of trees made of the accessors, with the number of bytes as its depth bound.\<close>

fun read_tree :: "nat \<Rightarrow> bytes \<Rightarrow> rlp_exn + rlp_tree" where
  "read_tree 0 d = Inl BadRLP"
| "read_tree (Suc n) d =
     (if rlp_isList d
      then res_bind (rlp_toList d Strict) (\<lambda>is.
        res_bind (res_mapM (read_tree n) is) (\<lambda>ts. Inr (RList ts)))
      else res_bind (rlp_toBytes d Strict) (\<lambda>b. Inr (RStr b)))"

lemma rlp_str_not_list: "rlp_size_ok (length b) \<Longrightarrow> \<not> rlp_isList (rlp_str b)"
  using rlp_str_read(4) [of b "[]"] by (auto simp: rlp_isData_def rlp_isList_def)

lemma length_enc_less: "t \<in> set ts \<Longrightarrow> length (rlp_enc t) < length (rlp_enc (RList ts))"
  using length_concat_ge [of t ts rlp_enc] by (simp add: rlp_lst_def length_rlp_hdr)

lemma read_tree_enc:
  "rlp_size_ok (length (rlp_enc t)) \<Longrightarrow> length (rlp_enc t) \<le> n \<Longrightarrow> read_tree n (rlp_enc t) = Inr t"
proof (induction t arbitrary: n)
  case (RStr b)
  then obtain m where n: "n = Suc m" by (cases n) auto
  from RStr have "rlp_size_ok (length b)" by (auto intro: rlp_size_ok_mono length_rlp_lst)
  then show ?case by (simp add: n rlp_str_not_list)
next
  case (RList ts)
  then obtain m where n: "n = Suc m" by (cases n) auto
  let ?c = "concat (map rlp_enc ts)"
  have c: "rlp_size_ok (length ?c)"
    using RList.prems(1) by (auto intro: rlp_size_ok_mono length_rlp_lst simp del: length_concat)
  have small: "rlp_size_ok (length (rlp_enc t))" "length (rlp_enc t) \<le> m" if "t \<in> set ts" for t
    using length_enc_less [OF that] RList.prems n
    by (auto simp: rlp_size_ok_def)
  then have "list_all rlp_item (map rlp_enc ts)" by (auto simp: list_all_iff rlp_item_enc)
  moreover have "res_mapM (read_tree m) (map rlp_enc ts) = Inr ts"
    by (intro res_mapM_map) (simp add: RList.IH small)
  ultimately show ?case
    using c rlp_lst_read(3) [OF c, of "[]"] by (simp add: n rlp_toList_lst)
qed

section \<open>Fields\<close>

text \<open>
  A message writes its fields one after the other, each by its own \<open>append\<close>; \<open>stream\<close> runs
  such a list of writers, and \<open>field\<close> reads the item number \<open>k\<close> with one of the accessors.
\<close>

definition stream :: "(RLPStream \<Rightarrow> rlp_exn + RLPStream) list \<Rightarrow> RLPStream \<Rightarrow> rlp_exn + RLPStream" where
  "stream ws s = append_all (\<lambda>w. w) ws s"

definition field :: "(bytes \<Rightarrow> rlp_exn + 'a) \<Rightarrow> bytes \<Rightarrow> nat \<Rightarrow> rlp_exn + 'a" where
  "field conv d k = res_bind (rlp_nth d k) conv"

lemma writes_fn: "writes app x e \<Longrightarrow> writes (\<lambda>w. w) (app x) e"
  by (simp add: writes_def)

lemma stream_top:
  "list_all2 (writes (\<lambda>w. w)) ws es \<Longrightarrow>
    res_bind (stream ws RLPStream_new) RLPStream_out = Inr (concat es)"
  by (simp add: stream_def RLPStream_new_def append_all_top RLPStream_out_def)

lemma stream_list:
  assumes "list_all2 (writes (\<lambda>w. w)) ws es" "rlp_size_ok (length (concat es))"
  shows "res_bind (res_bind (appendList (length ws) RLPStream_new) (stream ws)) RLPStream_out =
    Inr (rlp_lst (concat es))"
proof -
  have "res_bind (appendList (length ws) RLPStream_new) (stream ws) =
      Inr \<lparr>m_out = rlp_lst (concat es), m_listStack = []\<rparr>"
    using writes_new [OF append_list_writes [OF assms]] by (simp add: stream_def)
  then show ?thesis by (simp only: res_bind_simps) (simp add: RLPStream_out_def)
qed

lemma rlp_nth_lst:
  "rlp_size_ok (length (concat es)) \<Longrightarrow> list_all rlp_item es \<Longrightarrow> k < length es \<Longrightarrow>
    rlp_nth (rlp_lst (concat es)) k = Inr (es ! k)"
  by (simp add: rlp_nth_def rlp_elem_items)

lemma rlp_nth_str:
  "rlp_size_ok (length (concat es)) \<Longrightarrow> list_all rlp_item es \<Longrightarrow> k < length es \<Longrightarrow>
    rlp_nth (rlp_str (concat es)) k = Inr (es ! k)"
  by (simp add: rlp_nth_def rlp_elem_items)

lemma toCompactBigEndian_bytes: "toCompactBigEndian v 0 = be (bytesRequired v) v"
  by (simp add: toCompactBigEndian_def)

lemma rlp_isInt_compact:
  assumes "bytesRequired v < 56"
  shows "rlp_isInt (rlp_str (toCompactBigEndian v 0)) = Inr True"
proof -
  let ?b = "be (bytesRequired v) v"
  have ok: "rlp_size_ok (length ?b)" using assms by (simp add: rlp_size_ok_def)
  have good: "rlp_requireGood (rlp_str ?b) = Inr ()" using rlp_str_read(1) [OF ok, of "[]"] by simp
  consider "v = 0" | "0 < v" "v < 128" | "128 \<le> v" by linarith
  then show ?thesis
  proof cases
    case 1
    then show ?thesis
      by (simp add: toCompactBigEndian_bytes rlp_str_def rlp_hdr_def rlp_isInt_def rlp_isNull_def
          rlp_requireGood_def)
  next
    case 2
    then have "rlp_str ?b = [word_of_nat v]"
      by (simp add: bytesRequired_pos rlp_str_def word_less_nat_alt unat_byte)
    with 2 good show ?thesis
      by (simp add: toCompactBigEndian_bytes rlp_isInt_def rlp_isNull_def unat_byte Let_def)
  next
    case 3
    then have nz: "?b ! 0 \<noteq> 0" by (intro hd_be_bytesRequired) simp
    have "\<not> (length ?b = 1 \<and> ?b ! 0 < 0x80)"
    proof
      assume l: "length ?b = 1 \<and> ?b ! 0 < 0x80"
      then have "v < 256" "bytesRequired v = 1" using bytesRequired_le_iff [of v 1] by simp_all
      with l 3 show False by (simp add: word_less_nat_alt unat_byte)
    qed
    moreover define n where "n = 0x80 + bytesRequired v"
    ultimately have e: "rlp_str ?b = word_of_nat n # ?b"
      using assms by (simp add: rlp_str_def rlp_hdr_def)
    have n: "128 < n" "n \<le> 183" "?b \<noteq> []"
      using assms 3 bytesRequired_56 [of v] by (auto simp: n_def simp flip: length_greater_0_conv)
    with good nz 3 show ?thesis
      by (simp add: toCompactBigEndian_bytes e rlp_isInt_def rlp_isNull_def unat_byte Let_def)
  qed
qed

lemma rlp_toInt_compact:
  assumes "v < 256 ^ m" "m < 56"
  shows "rlp_toInt (Some m) (rlp_str (toCompactBigEndian v 0)) Strict = Inr v"
proof -
  have br: "bytesRequired v \<le> m" using assms(1) by (simp add: bytesRequired_le_iff)
  then have ok: "rlp_size_ok (length (toCompactBigEndian v 0))"
    using assms(2) by (simp add: rlp_size_ok_def)
  have "\<not> rlp_isList (rlp_str (toCompactBigEndian v 0))" using ok by (rule rlp_str_not_list)
  then show ?thesis
    using rlp_str_read(1) [OF ok, of "[]"] rlp_isInt_compact [of v] br assms ok
    by (simp add: rlp_toInt_def rlp_isNull_def Strict_def fromBigEndian_toCompactBigEndian)
qed

lemma rlp_toHash_str:
  assumes "length b = N" "rlp_size_ok N"
  shows "rlp_toHash N (rlp_str b) flags = Inr b"
  using assms rlp_str_read(1,4) [of b "[]"] by (simp add: rlp_toHash_def Let_def)

section \<open>Properties\<close>

text \<open>C14: RLP round trip. Writing a tree of items with the stream (\<open>append\<close> for a string,
  \<open>appendList\<close> with the number of the items that follow for a list) succeeds with no list left
  open, and reading the result with \<open>isList\<close>, \<open>toList\<close> and \<open>toBytes\<close> gives the same tree, for
  every tree whose encoding is shorter than the reader's limit of \<open>2^64 - 257\<close> bytes.\<close>

theorem rlp_round_trip:
  assumes "rlp_size_ok (length (rlp_enc t))"
  shows "res_bind (res_bind (put_tree t RLPStream_new) RLPStream_out)
    (\<lambda>d. read_tree (length d) d) = Inr t"
  using writes_new [OF put_tree_writes [OF assms]] read_tree_enc [OF assms order_refl]
  by (simp add: RLPStream_out_def)

text \<open>Witness for the RLP round trip: a list of a two-byte string and an empty list.\<close>

theorem rlp_round_trip_witness:
  "rlp_size_ok (length (rlp_enc (RList [RStr [0x83, 1], RList []]))) \<and>
   res_bind (res_bind (put_tree (RList [RStr [0x83, 1], RList []]) RLPStream_new) RLPStream_out)
    (\<lambda>d. read_tree (length d) d) = Inr (RList [RStr [0x83, 1], RList []])"
proof -
  have ok: "rlp_size_ok (length (rlp_enc (RList [RStr [0x83, 1], RList []])))"
    by (simp add: rlp_size_ok_def rlp_lst_def rlp_str_def rlp_hdr_def)
  show ?thesis using ok rlp_round_trip [OF ok] by (rule conjI)
qed



end
