(* ===== verification/Eth_Types.thy ===== *)
theory Eth_Types
  imports RLP
begin

text \<open>
  libethcore: transactions (Transaction.h, Transaction.cpp) and block headers
  (BlockHeader.h, BlockHeader.cpp), with their RLP codecs.

  The cryptography (libdevcrypto over secp256k1 and Keccak) is the record \<open>crypto\<close> of
  functions. The flag \<open>rc2\<close> stands for \<open>g_BCOSConfig.version() >= RC2_VERSION\<close>. The types
  are those of the build without \<open>FISCO_GM\<close>, where a signature has a one-byte \<open>v\<close>. The
  memoised hashes and senders of the classes are recomputed here.

  The lemmas show that transactions and headers survive encoding and decoding.
\<close>

section \<open>Definitions\<close>

type_synonym Address = "160 word"
type_synonym LogBloom = "2048 word"

record SignatureStruct =
  sig_r :: u256
  sig_s :: u256
  sig_v :: byte

record crypto =
  sha3 :: "bytes \<Rightarrow> h256"
  recover :: "SignatureStruct \<Rightarrow> h256 \<Rightarrow> h512"
  sign :: "h256 \<Rightarrow> h256 \<Rightarrow> h520"
  verify :: "h512 \<Rightarrow> h520 \<Rightarrow> h256 \<Rightarrow> bool"

datatype eth_exn = RlpExn rlp_exn | InvalidTransactionFormat | InvalidSignature
  | TransactionIsUnsigned | InvalidNumber | TooMuchGasUsed | InvalidParentHash | InvalidTimestamp
  | InvalidBlockFormat | ErrorBlockHash | BadAlloc | OutOfBounds

definition eth_rlp :: "rlp_exn + 'a \<Rightarrow> eth_exn + 'a" where
  "eth_rlp r = map_sum RlpExn id r"

definition eth_field :: "(bytes \<Rightarrow> rlp_exn + 'a) \<Rightarrow> bytes \<Rightarrow> nat \<Rightarrow> eth_exn + 'a" where
  "eth_field conv d k = eth_rlp (field conv d k)"

subsection \<open>Accessors at the types of the fields\<close>

definition as_u256 :: "bytes \<Rightarrow> rlp_exn + u256" where
  "as_u256 d = res_bind (rlp_toInt (Some 32) d Strict) (\<lambda>n. Inr (word_of_nat n))"

definition as_byte :: "bytes \<Rightarrow> rlp_exn + byte" where
  "as_byte d = res_bind (rlp_toInt (Some 1) d Strict) (\<lambda>n. Inr (word_of_nat n))"

definition as_u64 :: "bytes \<Rightarrow> rlp_exn + nat" where
  "as_u64 d = rlp_toInt (Some 8) d Strict"

definition as_hash :: "bytes \<Rightarrow> rlp_exn + 'a::len word" where
  "as_hash d = res_bind (rlp_toHash (LENGTH('a) div 8) d VeryStrict) (\<lambda>b. Inr (fromBigEndian_word b))"

definition as_bytes :: "bytes \<Rightarrow> rlp_exn + bytes" where
  "as_bytes d = rlp_toBytes d LaissezFaire"

definition append_u256 :: "u256 \<Rightarrow> RLPStream \<Rightarrow> rlp_exn + RLPStream" where
  "append_u256 x = append_bigint (unat x)"

definition append_data :: "bytes \<Rightarrow> RLPStream \<Rightarrow> rlp_exn + RLPStream" where
  "append_data b = append_bytes b False"

subsection \<open>Transactions\<close>

datatype TransactionType = NullTransaction | ContractCreation | MessageCall

datatype CheckTransaction = CheckNone | Cheap | Everything

record Transaction =
  m_type :: TransactionType
  m_nonce :: u256
  m_value :: u256
  m_receiveAddress :: Address
  m_gasPrice :: u256
  m_gas :: u256
  m_txData :: bytes
  m_vrs :: "SignatureStruct option"
  m_sender :: Address
  m_blockLimit :: u256
  m_importTime :: u256
  m_chainId :: u256
  m_groupId :: u256
  m_txExtraData :: bytes
  m_rlpBuffer :: bytes

definition null_transaction :: Transaction where
  "null_transaction = \<lparr>m_type = NullTransaction, m_nonce = 0, m_value = 0, m_receiveAddress = 0,
     m_gasPrice = 0, m_gas = 0, m_txData = [], m_vrs = None, m_sender = 0, m_blockLimit = 0,
     m_importTime = 0, m_chainId = 0, m_groupId = 0, m_txExtraData = [], m_rlpBuffer = []\<rparr>"

definition SignatureStruct_isValid :: "SignatureStruct \<Rightarrow> bool" where
  "SignatureStruct_isValid g \<longleftrightarrow> sig_v g \<le> 1 \<and> 0 < sig_r g \<and> 0 < sig_s g \<and>
     sig_r g < 0xfffffffffffffffffffffffffffffffebaaedce6af48a03bbfd25e8cd0364141 \<and>
     sig_s g < 0xfffffffffffffffffffffffffffffffebaaedce6af48a03bbfd25e8cd0364141"

definition SignatureStruct_encode :: "SignatureStruct \<Rightarrow> (RLPStream \<Rightarrow> rlp_exn + RLPStream) list" where
  "SignatureStruct_encode g =
     [append_unsigned (unat (sig_v g + 27)), append_u256 (sig_r g), append_u256 (sig_s g)]"

definition receiver_field :: "Transaction \<Rightarrow> RLPStream \<Rightarrow> rlp_exn + RLPStream" where
  "receiver_field t =
     (if m_type t = MessageCall then append_hash (m_receiveAddress t) else append_data [])"

text \<open>The fields in the order in which \<open>encodeRC1\<close> and \<open>encodeRC2\<close> stream them.\<close>

definition Transaction_fields :: "bool \<Rightarrow> Transaction \<Rightarrow> (RLPStream \<Rightarrow> rlp_exn + RLPStream) list" where
  "Transaction_fields rc2 t =
     [append_u256 (m_nonce t), append_u256 (m_gasPrice t), append_u256 (m_gas t),
      append_u256 (m_blockLimit t), receiver_field t, append_u256 (m_value t),
      append_data (m_txData t)] @
     (if rc2 then [append_u256 (m_chainId t), append_u256 (m_groupId t), append_data (m_txExtraData t)]
      else [])"

definition Transaction_encode :: "bool \<Rightarrow> Transaction \<Rightarrow> bool \<Rightarrow> eth_exn + bytes" where
  "Transaction_encode rc2 t withSig =
     (if m_type t = NullTransaction then Inr []
      else if withSig \<and> m_vrs t = None then Inl TransactionIsUnsigned
      else let ws = Transaction_fields rc2 t @
             (case m_vrs t of Some g \<Rightarrow> if withSig then SignatureStruct_encode g else [] | None \<Rightarrow> [])
        in eth_rlp (res_bind
          (res_bind (appendList ((if withSig then 3 else 0) + (if rc2 then 10 else 7)) RLPStream_new)
            (stream ws)) RLPStream_out))"

text \<open>\<open>sha3()\<close>; a transaction that cannot be encoded has no hash.\<close>

definition Transaction_sha3 :: "crypto \<Rightarrow> bool \<Rightarrow> Transaction \<Rightarrow> bool \<Rightarrow> eth_exn + h256" where
  "Transaction_sha3 cr rc2 t withSig =
     res_bind (Transaction_encode rc2 t withSig) (\<lambda>b. Inr (sha3 cr b))"

definition right160 :: "h256 \<Rightarrow> Address" where
  "right160 h = ucast h"

definition Transaction_sender :: "crypto \<Rightarrow> bool \<Rightarrow> Transaction \<Rightarrow> eth_exn + Address" where
  "Transaction_sender cr rc2 t =
     (if m_sender t \<noteq> 0 then Inr (m_sender t)
      else case m_vrs t of
          None \<Rightarrow> Inl TransactionIsUnsigned
        | Some g \<Rightarrow> res_bind (Transaction_sha3 cr rc2 t False) (\<lambda>h.
            let p = recover cr g h in
            if p = 0 then Inl InvalidSignature else Inr (right160 (sha3 cr (hash_bytes p)))))"

definition Transaction_decode ::
    "crypto \<Rightarrow> bool \<Rightarrow> bytes \<Rightarrow> CheckTransaction \<Rightarrow> eth_exn + Transaction" where
  "Transaction_decode cr rc2 d checkSig =
     (if \<not> rlp_isList d then Inl InvalidTransactionFormat
      else
        res_bind (eth_field as_u256 d 0) (\<lambda>nonce.
        res_bind (eth_field as_u256 d 1) (\<lambda>gasPrice.
        res_bind (eth_field as_u256 d 2) (\<lambda>gas.
        res_bind (eth_field as_u256 d 3) (\<lambda>blockLimit.
        res_bind (eth_field (\<lambda>i. if rlp_isEmpty i then Inr (ContractCreation, 0)
            else res_bind (as_hash i) (\<lambda>a. Inr (MessageCall, a))) d 4) (\<lambda>(type, receiver).
        res_bind (eth_field as_u256 d 5) (\<lambda>value.
        res_bind (eth_rlp (rlp_nth d 6)) (\<lambda>i6.
        if \<not> rlp_isData i6 then Inl InvalidTransactionFormat else
        res_bind (eth_rlp (as_bytes i6)) (\<lambda>data.
        res_bind (if rc2 then
            res_bind (eth_field as_u256 d 7) (\<lambda>c. res_bind (eth_field as_u256 d 8) (\<lambda>g.
            res_bind (eth_field as_bytes d 9) (\<lambda>x. Inr (c, g, x)))) else Inr (0, 0, []))
          (\<lambda>(chainId, groupId, extra). let k = (if rc2 then 10 else 7) in
        res_bind (eth_field as_byte d k) (\<lambda>v.
        res_bind (eth_field as_u256 d (k + 1)) (\<lambda>r.
        res_bind (eth_field as_u256 d (k + 2)) (\<lambda>s.
        let g = \<lparr>sig_r = r, sig_s = s, sig_v = v - 27\<rparr>;
            t = null_transaction\<lparr>m_type := type, m_nonce := nonce, m_value := value,
              m_receiveAddress := receiver, m_gasPrice := gasPrice, m_gas := gas, m_txData := data,
              m_vrs := Some g, m_blockLimit := blockLimit, m_chainId := chainId,
              m_groupId := groupId, m_txExtraData := extra\<rparr>
        in if checkSig \<noteq> CheckNone \<and> \<not> SignatureStruct_isValid g then Inl InvalidSignature
           else if checkSig = Everything
           then res_bind (Transaction_sender cr rc2 t) (\<lambda>a. Inr (t\<lparr>m_sender := a\<rparr>))
           else Inr t)))))))))))))"

text \<open>\<open>decode(bytesConstRef)\<close> keeps the bytes it was given, and \<open>rlp()\<close> returns them when it has them.\<close>

definition Transaction_decode_bytes ::
    "crypto \<Rightarrow> bool \<Rightarrow> bytes \<Rightarrow> CheckTransaction \<Rightarrow> eth_exn + Transaction" where
  "Transaction_decode_bytes cr rc2 d checkSig =
     res_bind (eth_rlp (RLP_make d VeryStrict)) (\<lambda>r.
     res_bind (Transaction_decode cr rc2 r checkSig) (\<lambda>t. Inr (t\<lparr>m_rlpBuffer := d\<rparr>)))"

definition Transaction_rlp :: "bool \<Rightarrow> Transaction \<Rightarrow> bool \<Rightarrow> eth_exn + bytes" where
  "Transaction_rlp rc2 t withSig =
     (if m_rlpBuffer t \<noteq> [] then Inr (m_rlpBuffer t) else Transaction_encode rc2 t withSig)"

definition checkChainIdAndGroupId :: "bool \<Rightarrow> Transaction \<Rightarrow> u256 \<Rightarrow> u256 \<Rightarrow> bool" where
  "checkChainIdAndGroupId rc2 t chainId groupId =
     (if rc2 then chainId = m_chainId t \<and> groupId = m_groupId t else True)"

subsection \<open>Block headers\<close>

text \<open>
  \<open>m_number\<close> is an \<open>int64_t\<close> and \<open>m_timestamp\<close> a \<open>uint64_t\<close>. A header is encoded with a
  number that is not negative, which \<open>verify\<close> checks first.
\<close>

record BlockHeader =
  m_parentHash :: h256
  m_stateRoot :: h256
  m_transactionsRoot :: h256
  m_receiptsRoot :: h256
  m_dbHash :: h256
  m_logBloom :: LogBloom
  m_number :: int
  m_gasLimit :: u256
  m_gasUsed :: u256
  m_timestamp :: nat
  m_extraData :: "bytes list"
  m_sealer :: u256
  m_sealerList :: "h512 list"

definition BlockHeader_new :: BlockHeader where
  "BlockHeader_new = \<lparr>m_parentHash = 0, m_stateRoot = 0, m_transactionsRoot = 0,
     m_receiptsRoot = 0, m_dbHash = 0, m_logBloom = 0, m_number = 0, m_gasLimit = 0,
     m_gasUsed = 0, m_timestamp = 2 ^ 64 - 1, m_extraData = [], m_sealer = Invalid256,
     m_sealerList = []\<rparr>"

definition BlockHeader_fields :: "BlockHeader \<Rightarrow> (RLPStream \<Rightarrow> rlp_exn + RLPStream) list" where
  "BlockHeader_fields h =
     [append_hash (m_parentHash h), append_hash (m_stateRoot h), append_hash (m_transactionsRoot h),
      append_hash (m_receiptsRoot h), append_hash (m_dbHash h), append_hash (m_logBloom h),
      append_bigint (nat (m_number h)), append_u256 (m_gasLimit h), append_u256 (m_gasUsed h),
      append_bigint (m_timestamp h), appendVector append_data (m_extraData h),
      append_u256 (m_sealer h), appendVector append_hash (m_sealerList h)]"

definition BlockHeader_encode :: "BlockHeader \<Rightarrow> rlp_exn + bytes" where
  "BlockHeader_encode h =
     res_bind (res_bind (appendList 13 RLPStream_new) (stream (BlockHeader_fields h))) RLPStream_out"

definition BlockHeader_hash :: "crypto \<Rightarrow> BlockHeader \<Rightarrow> h256" where
  "BlockHeader_hash cr h = (case BlockHeader_encode h of Inr b \<Rightarrow> sha3 cr b | Inl _ \<Rightarrow> 0)"

definition BlockHeader_populate :: "bytes \<Rightarrow> rlp_exn + BlockHeader" where
  "BlockHeader_populate d =
     res_bind (field as_hash d 0) (\<lambda>parentHash.
     res_bind (field as_hash d 1) (\<lambda>stateRoot.
     res_bind (field as_hash d 2) (\<lambda>transactionsRoot.
     res_bind (field as_hash d 3) (\<lambda>receiptsRoot.
     res_bind (field as_hash d 4) (\<lambda>dbHash.
     res_bind (field as_hash d 5) (\<lambda>logBloom.
     res_bind (field (\<lambda>i. rlp_toPositiveInt64 i Strict) d 6) (\<lambda>number.
     res_bind (field as_u256 d 7) (\<lambda>gasLimit.
     res_bind (field as_u256 d 8) (\<lambda>gasUsed.
     res_bind (field as_u64 d 9) (\<lambda>timestamp.
     res_bind (field (\<lambda>i. rlp_toVector rlp_toBytes i LaissezFaire) d 10) (\<lambda>extraData.
     res_bind (field as_u256 d 11) (\<lambda>sealer.
     res_bind (field (\<lambda>i. rlp_toVector (\<lambda>j flags. res_bind (rlp_toHash 64 j flags)
         (\<lambda>b. Inr (fromBigEndian_word b))) i LaissezFaire) d 12) (\<lambda>sealerList.
     Inr \<lparr>m_parentHash = parentHash, m_stateRoot = stateRoot, m_transactionsRoot = transactionsRoot,
       m_receiptsRoot = receiptsRoot, m_dbHash = dbHash, m_logBloom = logBloom, m_number = number,
       m_gasLimit = gasLimit, m_gasUsed = gasUsed, m_timestamp = timestamp, m_extraData = extraData,
       m_sealer = sealer, m_sealerList = sealerList\<rparr>)))))))))))))"

definition BlockHeader_decode :: "bytes \<Rightarrow> rlp_exn + BlockHeader" where
  "BlockHeader_decode d = res_bind (RLP_make d VeryStrict) BlockHeader_populate"

definition populateFromParent :: "crypto \<Rightarrow> BlockHeader \<Rightarrow> BlockHeader \<Rightarrow> BlockHeader" where
  "populateFromParent cr parent h =
     h\<lparr>m_stateRoot := m_stateRoot parent, m_number := i64 (m_number parent + 1),
       m_parentHash := BlockHeader_hash cr parent, m_gasLimit := m_gasLimit parent,
       m_gasUsed := 0, m_sealer := Invalid256\<rparr>"

definition BlockHeader_bool :: "BlockHeader \<Rightarrow> bool" where
  "BlockHeader_bool h \<longleftrightarrow> m_timestamp h \<noteq> 2 ^ 64 - 1"

text \<open>\<open>verify\<close> without a block, as \<open>Block::encode\<close> and the parent checks use it.\<close>

definition BlockHeader_verify :: "crypto \<Rightarrow> bool \<Rightarrow> BlockHeader \<Rightarrow> BlockHeader \<Rightarrow> eth_exn + unit" where
  "BlockHeader_verify cr checkNothingNew parent h =
     (if m_number h \<ge> 2 ^ 63 - 1 \<or> m_number h < 0 then Inl InvalidNumber
      else if \<not> checkNothingNew \<and> m_gasLimit h < m_gasUsed h then Inl TooMuchGasUsed
      else if BlockHeader_bool parent then
        (if m_parentHash h \<noteq> 0 \<and> BlockHeader_hash cr parent \<noteq> m_parentHash h then Inl InvalidParentHash
         else if m_timestamp h \<le> m_timestamp parent then Inl InvalidTimestamp
         else if m_number h \<noteq> i64 (m_number parent + 1) then Inl InvalidNumber
         else Inr ())
      else Inr ())"

section \<open>Fields\<close>

definition enc_int :: "nat \<Rightarrow> bytes" where
  "enc_int n = rlp_str (toCompactBigEndian n 0)"

definition enc_hash :: "'a::len word \<Rightarrow> bytes" where
  "enc_hash h = rlp_str (hash_bytes h)"

lemma length_rlp_str_le: "rlp_size_ok (length b) \<Longrightarrow> length (rlp_str b) \<le> length b + 9"
  using bytesRequired_8 [of "length b"] by (simp add: rlp_str_def length_rlp_hdr)

lemma u256_bytes: "unat (x :: u256) < 256 ^ 32"
  by (rule order_less_le_trans [OF unsigned_less]) simp

lemma bytesRequired_u256: "bytesRequired (unat (x :: u256)) \<le> 32"
  by (simp only: bytesRequired_le_iff u256_bytes)

lemma size_ok_small: "n \<le> 2048 \<Longrightarrow> rlp_size_ok n"
  by (simp add: rlp_size_ok_def)

lemma length_enc_int: "bytesRequired n \<le> 32 \<Longrightarrow> length (enc_int n) \<le> 41"
  using length_rlp_str_le [of "toCompactBigEndian n 0"] by (simp add: enc_int_def size_ok_small)

lemma length_enc_hash: "LENGTH('a) div 8 \<le> 2048 \<Longrightarrow> length (enc_hash h) \<le> LENGTH('a) div 8 + 9"
  for h :: "'a::len word"
  using length_rlp_str_le [of "hash_bytes h"] by (simp add: enc_hash_def size_ok_small)

text \<open>Each field writer writes one item, and the accessor at its type reads the value back.\<close>

lemma writes_u256: "writes (\<lambda>w. w) (append_u256 x) (enc_int (unat x))"
  using writes_fn [OF writes_bigint [of "unat x"]] bytesRequired_u256 [of x]
  by (simp add: append_u256_def enc_int_def size_ok_small)

lemma writes_nat: "bytesRequired n \<le> 32 \<Longrightarrow> writes (\<lambda>w. w) (append_bigint n) (enc_int n)"
  using writes_fn [OF writes_bigint [of n]] by (simp add: enc_int_def size_ok_small)

lemma writes_unsigned: "bytesRequired n \<le> 32 \<Longrightarrow> writes (\<lambda>w. w) (append_unsigned n) (enc_int n)"
  using writes_nat [of n] by (simp add: append_unsigned_def writes_def)

lemma writes_data: "rlp_size_ok (length b) \<Longrightarrow> writes (\<lambda>w. w) (append_data b) (rlp_str b)"
  by (simp add: writes_def append_data_def append_bytes_str)

lemma writes_hash_field: "LENGTH('a) div 8 \<le> 2048 \<Longrightarrow> writes (\<lambda>w. w) (append_hash h) (enc_hash h)"
  for h :: "'a::len word"
  using writes_fn [OF writes_hash [of h]] by (simp add: enc_hash_def size_ok_small)

lemma rlp_item_int: "bytesRequired n \<le> 32 \<Longrightarrow> rlp_item (enc_int n)"
  by (simp add: enc_int_def rlp_item_str size_ok_small)

lemma rlp_item_hash: "LENGTH('a) div 8 \<le> 2048 \<Longrightarrow> rlp_item (enc_hash h)" for h :: "'a::len word"
  by (simp add: enc_hash_def rlp_item_str size_ok_small)

lemma as_u256_enc [simp]: "as_u256 (enc_int (unat x)) = Inr x"
  using rlp_toInt_compact [OF u256_bytes, of x] by (simp add: as_u256_def enc_int_def)

lemma as_byte_enc [simp]: "as_byte (enc_int (unat x)) = Inr x"
  using rlp_toInt_compact [of "unat x" 1] by (simp add: as_byte_def enc_int_def)

lemma as_u64_enc [simp]: "n < 2 ^ 64 \<Longrightarrow> as_u64 (enc_int n) = Inr n"
  using rlp_toInt_compact [of n 8] by (simp add: as_u64_def enc_int_def)

lemma as_hash_enc [simp]: "8 dvd LENGTH('a) \<Longrightarrow> LENGTH('a) div 8 \<le> 2048 \<Longrightarrow> as_hash (enc_hash h) = Inr h"
  for h :: "'a::len word"
  using rlp_toHash_str [of "hash_bytes h" "LENGTH('a) div 8" VeryStrict]
  by (simp add: as_hash_def enc_hash_def size_ok_small fromBigEndian_word_eq)

lemma as_bytes_enc [simp]: "rlp_size_ok (length b) \<Longrightarrow> as_bytes (rlp_str b) = Inr b"
  by (simp add: as_bytes_def)

lemma field_lst:
  "rlp_size_ok (length (concat es)) \<Longrightarrow> list_all rlp_item es \<Longrightarrow> k < length es \<Longrightarrow>
    field conv (rlp_lst (concat es)) k = conv (es ! k)"
  by (simp add: field_def rlp_nth_lst)

lemma field_str:
  "rlp_size_ok (length (concat es)) \<Longrightarrow> list_all rlp_item es \<Longrightarrow> k < length es \<Longrightarrow>
    field conv (rlp_str (concat es)) k = conv (es ! k)"
  by (simp add: field_def rlp_nth_str)

section \<open>Transactions survive their encoding\<close>

text \<open>
  The transactions that a decoder can produce: signed, with the fields that the format
  does not carry at their defaults.
\<close>

definition Transaction_wire :: "bool \<Rightarrow> Transaction \<Rightarrow> bool" where
  "Transaction_wire rc2 t \<longleftrightarrow> m_type t \<noteq> NullTransaction \<and> m_vrs t \<noteq> None \<and>
     m_sender t = 0 \<and> m_importTime t = 0 \<and> m_rlpBuffer t = [] \<and>
     (m_type t = ContractCreation \<longrightarrow> m_receiveAddress t = 0) \<and>
     (\<not> rc2 \<longrightarrow> m_chainId t = 0 \<and> m_groupId t = 0 \<and> m_txExtraData t = []) \<and>
     length (m_txData t) < 2 ^ 60 \<and> length (m_txExtraData t) < 2 ^ 60"

definition Transaction_items :: "bool \<Rightarrow> Transaction \<Rightarrow> SignatureStruct \<Rightarrow> bytes list" where
  "Transaction_items rc2 t g =
     [enc_int (unat (m_nonce t)), enc_int (unat (m_gasPrice t)), enc_int (unat (m_gas t)),
      enc_int (unat (m_blockLimit t)),
      if m_type t = MessageCall then enc_hash (m_receiveAddress t) else rlp_str [],
      enc_int (unat (m_value t)), rlp_str (m_txData t)] @
     (if rc2 then [enc_int (unat (m_chainId t)), enc_int (unat (m_groupId t)), rlp_str (m_txExtraData t)]
      else []) @
     [enc_int (unat (sig_v g + 27)), enc_int (unat (sig_r g)), enc_int (unat (sig_s g))]"

lemma bytesRequired_byte: "bytesRequired (unat (b :: byte)) \<le> 32"
proof -
  have "unat b < 256 ^ 32" by (rule less_le_trans [OF byte_less_256]) simp
  then show ?thesis by (simp only: bytesRequired_le_iff)
qed

lemma size_ok_60: "n < 2 ^ 60 \<Longrightarrow> rlp_size_ok n"
  by (simp add: rlp_size_ok_def)

lemma Transaction_items_ok:
  assumes "Transaction_wire rc2 t"
  shows "list_all rlp_item (Transaction_items rc2 t g)"
    and "rlp_size_ok (length (concat (Transaction_items rc2 t g)))"
proof -
  have d: "rlp_size_ok (length (m_txData t))" "rlp_size_ok (length (m_txExtraData t))"
    using assms by (auto simp: Transaction_wire_def intro: size_ok_60)
  then show "list_all rlp_item (Transaction_items rc2 t g)"
    by (simp add: Transaction_items_def rlp_item_int rlp_item_hash bytesRequired_u256
        bytesRequired_byte rlp_item_str size_ok_small)
  have "length (rlp_str (m_txData t)) \<le> 2 ^ 60 + 9" "length (rlp_str (m_txExtraData t)) \<le> 2 ^ 60 + 9"
    using length_rlp_str_le [OF d(1)] length_rlp_str_le [OF d(2)] assms
    by (auto simp: Transaction_wire_def)
  moreover have "length (enc_int (unat x)) \<le> 41" for x :: u256
    by (simp add: length_enc_int bytesRequired_u256)
  note this [of "m_nonce t"] this [of "m_gasPrice t"] this [of "m_gas t"] this [of "m_blockLimit t"]
    this [of "m_value t"] this [of "m_chainId t"] this [of "m_groupId t"] this [of "sig_r g"]
    this [of "sig_s g"]
  moreover have "length (enc_int (unat (sig_v g + 27))) \<le> 41"
    by (simp add: length_enc_int bytesRequired_byte)
  moreover have "length (enc_hash (m_receiveAddress t)) \<le> 41" "length (rlp_str []) \<le> 41"
    using length_enc_hash [of "m_receiveAddress t"] by (simp_all add: rlp_str_def rlp_hdr_def)
  ultimately show "rlp_size_ok (length (concat (Transaction_items rc2 t g)))"
    by (simp add: Transaction_items_def rlp_size_ok_def)
qed

lemma Transaction_encode_items:
  assumes wire: "Transaction_wire rc2 t" and g: "m_vrs t = Some g"
  shows "Transaction_encode rc2 t True = Inr (rlp_lst (concat (Transaction_items rc2 t g)))"
proof -
  let ?ws = "Transaction_fields rc2 t @ SignatureStruct_encode g"
  have d: "rlp_size_ok (length (m_txData t))" "rlp_size_ok (length (m_txExtraData t))"
    using wire by (auto simp: Transaction_wire_def intro: size_ok_60)
  have "writes (\<lambda>w. w) (receiver_field t)
      (if m_type t = MessageCall then enc_hash (m_receiveAddress t) else rlp_str [])"
    by (simp add: receiver_field_def writes_hash_field writes_data size_ok_small)
  with d have "list_all2 (writes (\<lambda>w. w)) ?ws (Transaction_items rc2 t g)"
    by (simp add: Transaction_fields_def SignatureStruct_encode_def Transaction_items_def writes_u256
        writes_data writes_unsigned bytesRequired_byte)
  note run = stream_list [OF this Transaction_items_ok(2) [OF wire]]
  have "length ?ws = (if rc2 then 13 else 10)"
    by (simp add: Transaction_fields_def SignatureStruct_encode_def)
  then have "Transaction_encode rc2 t True =
      eth_rlp (res_bind (res_bind (appendList (length ?ws) RLPStream_new) (stream ?ws)) RLPStream_out)"
    using wire g by (simp add: Transaction_encode_def Transaction_wire_def Let_def
        del: length_append res_bind_assoc)
  also have "\<dots> = eth_rlp (Inr (rlp_lst (concat (Transaction_items rc2 t g))))"
    by (simp only: run)
  finally show ?thesis by (simp add: eth_rlp_def)
qed

lemma isEmpty_hash: "\<not> rlp_isEmpty (enc_hash (a :: Address))"
proof -
  have "enc_hash a = word_of_nat (0x80 + 20) # hash_bytes a"
    by (simp add: enc_hash_def rlp_str_def rlp_hdr_def)
  then show ?thesis by (simp add: rlp_isEmpty_def rlp_isNull_def)
qed

lemma isEmpty_Nil: "rlp_isEmpty (rlp_str [])"
  by (simp add: rlp_isEmpty_def rlp_isNull_def rlp_str_def rlp_hdr_def)

lemma eth_field_items:
  assumes "Transaction_wire rc2 t" "k < length (Transaction_items rc2 t g)"
  shows "eth_field conv (rlp_lst (concat (Transaction_items rc2 t g))) k =
    eth_rlp (conv (Transaction_items rc2 t g ! k))"
  using Transaction_items_ok [OF assms(1)] assms(2) by (simp add: eth_field_def field_lst)

lemma Transaction_decode_items:
  assumes wire: "Transaction_wire rc2 t" and g: "m_vrs t = Some g"
  shows "Transaction_decode cr rc2 (rlp_lst (concat (Transaction_items rc2 t g))) CheckNone = Inr t"
proof -
  let ?d = "rlp_lst (concat (Transaction_items rc2 t g))"
  have lst: "rlp_isList ?d"
    using rlp_lst_read(3) [OF Transaction_items_ok(2) [OF wire], of g "[]"] by simp
  have d: "rlp_size_ok (length (m_txData t))" "rlp_size_ok (length (m_txExtraData t))"
    using wire by (auto simp: Transaction_wire_def intro: size_ok_60)
  have n6: "rlp_nth ?d 6 = Inr (rlp_str (m_txData t))" "rlp_isData (rlp_str (m_txData t))"
    using rlp_nth_lst [OF Transaction_items_ok(2,1) [OF wire], of 6 g] rlp_str_read(4) [OF d(1), of "[]"]
    by (simp_all add: Transaction_items_def)
  have len: "length (Transaction_items rc2 t g) = (if rc2 then 13 else 10)"
    by (simp add: Transaction_items_def)
  have items: "Transaction_items rc2 t g ! 0 = enc_int (unat (m_nonce t))"
    "Transaction_items rc2 t g ! Suc 0 = enc_int (unat (m_gasPrice t))"
    "Transaction_items rc2 t g ! 2 = enc_int (unat (m_gas t))"
    "Transaction_items rc2 t g ! 3 = enc_int (unat (m_blockLimit t))"
    "Transaction_items rc2 t g ! 4 =
      (if m_type t = MessageCall then enc_hash (m_receiveAddress t) else rlp_str [])"
    "Transaction_items rc2 t g ! 5 = enc_int (unat (m_value t))"
    "Transaction_items True t g ! 7 = enc_int (unat (m_chainId t))"
    "Transaction_items True t g ! 8 = enc_int (unat (m_groupId t))"
    "Transaction_items True t g ! 9 = rlp_str (m_txExtraData t)"
    "Transaction_items True t g ! 10 = enc_int (unat (sig_v g + 27))"
    "Transaction_items True t g ! 11 = enc_int (unat (sig_r g))"
    "Transaction_items True t g ! 12 = enc_int (unat (sig_s g))"
    "Transaction_items False t g ! 7 = enc_int (unat (sig_v g + 27))"
    "Transaction_items False t g ! 8 = enc_int (unat (sig_r g))"
    "Transaction_items False t g ! 9 = enc_int (unat (sig_s g))"
    by (simp_all add: Transaction_items_def)
  note get = eth_field_items [OF wire, of _ g] len items eth_rlp_def
  have f: "eth_field as_u256 ?d 0 = Inr (m_nonce t)" "eth_field as_u256 ?d 1 = Inr (m_gasPrice t)"
    "eth_field as_u256 ?d 2 = Inr (m_gas t)" "eth_field as_u256 ?d 3 = Inr (m_blockLimit t)"
    "eth_field as_u256 ?d 5 = Inr (m_value t)"
    by (simp_all add: get)
  have f4: "eth_field (\<lambda>i. if rlp_isEmpty i then Inr (ContractCreation, 0)
      else res_bind (as_hash i) (\<lambda>a. Inr (MessageCall, a))) ?d 4 = Inr (m_type t, m_receiveAddress t)"
    using wire by (cases "m_type t")
      (simp_all add: get Transaction_wire_def isEmpty_hash isEmpty_Nil)
  have f9: "(if rc2 then res_bind (eth_field as_u256 ?d 7) (\<lambda>c. res_bind (eth_field as_u256 ?d 8) (\<lambda>g.
      res_bind (eth_field as_bytes ?d 9) (\<lambda>x. Inr (c, g, x)))) else Inr (0, 0, [])) =
      Inr (m_chainId t, m_groupId t, m_txExtraData t)"
  proof (cases rc2)
    case True
    with wire have w: "Transaction_wire True t" by simp
    have l: "length (Transaction_items True t g) = 13" by (simp add: Transaction_items_def)
    show ?thesis using True d
      by (simp add: items eth_rlp_def l eth_field_items [OF w, of _ g])
  qed (use wire in \<open>simp add: Transaction_wire_def\<close>)
  have fs: "eth_field as_byte ?d (if rc2 then 10 else 7) = Inr (sig_v g + 27)"
    "eth_field as_u256 ?d ((if rc2 then 10 else 7) + 1) = Inr (sig_r g)"
    "eth_field as_u256 ?d ((if rc2 then 10 else 7) + 2) = Inr (sig_s g)"
    by (simp_all add: eth_field_items [OF wire, of _ g] len items eth_rlp_def)
  have t: "t = null_transaction\<lparr>m_type := m_type t, m_nonce := m_nonce t, m_value := m_value t,
      m_receiveAddress := m_receiveAddress t, m_gasPrice := m_gasPrice t, m_gas := m_gas t,
      m_txData := m_txData t, m_vrs := Some g, m_blockLimit := m_blockLimit t,
      m_chainId := m_chainId t, m_groupId := m_groupId t, m_txExtraData := m_txExtraData t\<rparr>"
    using wire g by (cases t) (simp add: Transaction_wire_def null_transaction_def)
  have "Transaction_decode cr rc2 ?d CheckNone = Inr (null_transaction\<lparr>m_type := m_type t,
      m_nonce := m_nonce t, m_value := m_value t, m_receiveAddress := m_receiveAddress t,
      m_gasPrice := m_gasPrice t, m_gas := m_gas t, m_txData := m_txData t, m_vrs := Some g,
      m_blockLimit := m_blockLimit t, m_chainId := m_chainId t, m_groupId := m_groupId t,
      m_txExtraData := m_txExtraData t\<rparr>)"
    using d(1) lst n6 unfolding Transaction_decode_def Let_def f f4 f9 res_bind_simps prod.case fs
    by (simp add: eth_rlp_def)
  then show ?thesis by (simp only: t [symmetric])
qed

section \<open>Headers survive their encoding\<close>

definition BlockHeader_wire :: "BlockHeader \<Rightarrow> bool" where
  "BlockHeader_wire h \<longleftrightarrow> 0 \<le> m_number h \<and> m_number h < 2 ^ 63 \<and> m_timestamp h < 2 ^ 64 \<and>
     length (concat (m_extraData h)) + 9 * length (m_extraData h) < 2 ^ 60 \<and>
     length (m_sealerList h) < 2 ^ 50"

definition enc_vec :: "('a \<Rightarrow> bytes) \<Rightarrow> 'a list \<Rightarrow> bytes" where
  "enc_vec enc xs = rlp_lst (concat (map enc xs))"

definition BlockHeader_items :: "BlockHeader \<Rightarrow> bytes list" where
  "BlockHeader_items h =
     [enc_hash (m_parentHash h), enc_hash (m_stateRoot h), enc_hash (m_transactionsRoot h),
      enc_hash (m_receiptsRoot h), enc_hash (m_dbHash h), enc_hash (m_logBloom h),
      enc_int (nat (m_number h)), enc_int (unat (m_gasLimit h)), enc_int (unat (m_gasUsed h)),
      enc_int (m_timestamp h), enc_vec rlp_str (m_extraData h), enc_int (unat (m_sealer h)),
      enc_vec enc_hash (m_sealerList h)]"

lemma length_concat_str:
  "(\<And>x. x \<in> set xs \<Longrightarrow> rlp_size_ok (length x)) \<Longrightarrow>
    length (concat (map rlp_str xs)) \<le> length (concat xs) + 9 * length xs"
proof (induction xs)
  case (Cons x xs)
  then show ?case using length_rlp_str_le [of x] by simp
qed simp

lemma length_concat_hash:
  "length (concat (map enc_hash (xs :: h512 list))) \<le> 73 * length xs"
proof (induction xs)
  case (Cons x xs)
  then show ?case using length_enc_hash [of x] by simp
qed simp

lemma length_rlp_lst_le: "rlp_size_ok (length c) \<Longrightarrow> length (rlp_lst c) \<le> length c + 9"
  using bytesRequired_8 [of "length c"] by (simp add: rlp_lst_def length_rlp_hdr)

lemma BlockHeader_vectors:
  assumes "BlockHeader_wire h"
  shows "x \<in> set (m_extraData h) \<Longrightarrow> rlp_size_ok (length x)"
    and "length (concat (map rlp_str (m_extraData h))) < 2 ^ 60"
    and "length (concat (map enc_hash (m_sealerList h))) < 2 ^ 60"
proof -
  show ok: "rlp_size_ok (length x)" if "x \<in> set (m_extraData h)" for x
    using assms length_concat_ge [OF that, of "\<lambda>x. x"]
    by (simp add: BlockHeader_wire_def rlp_size_ok_def)
  show "length (concat (map rlp_str (m_extraData h))) < 2 ^ 60"
    using length_concat_str [of "m_extraData h", OF ok] assms
    by (simp add: BlockHeader_wire_def del: length_concat)
  show "length (concat (map enc_hash (m_sealerList h))) < 2 ^ 60"
    using length_concat_hash [of "m_sealerList h"] assms by (simp add: BlockHeader_wire_def)
qed

lemma bytesRequired_u64: "n < 2 ^ 64 \<Longrightarrow> bytesRequired n \<le> 32"
proof -
  assume "n < 2 ^ 64"
  then have "n < 256 ^ 8" by simp
  then have "bytesRequired n \<le> 8" by (simp only: bytesRequired_le_iff)
  then show ?thesis by simp
qed

lemma BlockHeader_items_ok:
  assumes wire: "BlockHeader_wire h"
  shows "list_all rlp_item (BlockHeader_items h)"
    and "rlp_size_ok (length (concat (BlockHeader_items h)))"
    and "list_all2 (writes (\<lambda>w. w)) (BlockHeader_fields h) (BlockHeader_items h)"
    and "length (concat (BlockHeader_items h)) < 2 ^ 62"
proof -
  note vec = BlockHeader_vectors [OF wire]
  have n: "bytesRequired (nat (m_number h)) \<le> 32" "bytesRequired (m_timestamp h) \<le> 32"
    using wire by (auto simp: BlockHeader_wire_def intro: bytesRequired_u64)
  show "list_all rlp_item (BlockHeader_items h)"
    using vec(2,3) n
    by (simp add: BlockHeader_items_def rlp_item_hash rlp_item_int bytesRequired_u256 enc_vec_def
        rlp_item_lst size_ok_60 del: length_concat)
  have "writes (\<lambda>w. w) (appendVector append_data (m_extraData h)) (enc_vec rlp_str (m_extraData h))"
    using appendVector_writes [of "m_extraData h" append_data rlp_str] vec(1,2)
    by (simp add: enc_vec_def writes_def append_data_def append_bytes_str size_ok_60 del: length_concat)
  moreover have "writes (\<lambda>w. w) (appendVector append_hash (m_sealerList h)) (enc_vec enc_hash (m_sealerList h))"
    using appendVector_writes [of "m_sealerList h" append_hash enc_hash] vec(3)
      writes_hash_field [where 'a = 512]
    by (simp add: enc_vec_def writes_def size_ok_60 del: length_concat)
  ultimately show "list_all2 (writes (\<lambda>w. w)) (BlockHeader_fields h) (BlockHeader_items h)"
    using n by (simp add: BlockHeader_fields_def BlockHeader_items_def writes_hash_field writes_nat
        writes_u256)
  have "length (enc_hash x) \<le> 300" for x :: h256 using length_enc_hash [of x] by simp
  note this [of "m_parentHash h"] this [of "m_stateRoot h"] this [of "m_transactionsRoot h"]
    this [of "m_receiptsRoot h"] this [of "m_dbHash h"]
  moreover have "length (enc_hash (m_logBloom h)) \<le> 300" using length_enc_hash [of "m_logBloom h"] by simp
  moreover have "length (enc_int x) \<le> 300" if "bytesRequired x \<le> 32" for x
    using length_enc_int [OF that] by simp
  note this [OF n(1)] this [OF n(2)] this [OF bytesRequired_u256, of "m_gasLimit h"]
    this [OF bytesRequired_u256, of "m_gasUsed h"] this [OF bytesRequired_u256, of "m_sealer h"]
  moreover have "length (enc_vec rlp_str (m_extraData h)) \<le> 2 ^ 60 + 9"
    "length (enc_vec enc_hash (m_sealerList h)) \<le> 2 ^ 60 + 9"
    using length_rlp_lst_le [OF size_ok_60 [OF vec(2)]] length_rlp_lst_le [OF size_ok_60 [OF vec(3)]] vec(2,3)
    by (simp_all add: enc_vec_def del: length_concat)
  ultimately show len: "length (concat (BlockHeader_items h)) < 2 ^ 62"
    by (simp add: BlockHeader_items_def)
  then show "rlp_size_ok (length (concat (BlockHeader_items h)))" by (simp add: rlp_size_ok_def)
qed

lemma BlockHeader_encode_items:
  assumes "BlockHeader_wire h"
  shows "BlockHeader_encode h = Inr (rlp_lst (concat (BlockHeader_items h)))"
proof -
  have "length (BlockHeader_fields h) = 13" by (simp add: BlockHeader_fields_def)
  with stream_list [OF BlockHeader_items_ok(3,2) [OF assms]] show ?thesis
    by (simp only: BlockHeader_encode_def)
qed

lemma rlp_toVector_enc:
  assumes "\<And>x. x \<in> set xs \<Longrightarrow> rlp_item (enc x)" "rlp_size_ok (length (concat (map enc xs)))"
    and "\<And>x. x \<in> set xs \<Longrightarrow> conv (enc x) flags = Inr x"
  shows "rlp_toVector conv (enc_vec enc xs) flags = Inr xs"
  using assms rlp_toVector_lst [of "map enc xs" conv flags]
  by (simp add: enc_vec_def list_all_iff res_mapM_map del: length_concat)

lemma toPositiveInt64_enc:
  "0 \<le> n \<Longrightarrow> n < 2 ^ 63 \<Longrightarrow> rlp_toPositiveInt64 (enc_int (nat n)) Strict = Inr n"
  using rlp_toInt_compact [of "nat n" 8]
  by (simp add: rlp_toPositiveInt64_def enc_int_def i64_id int64_range_def nat_less_iff Let_def)

lemma hash512_enc:
  "res_bind (rlp_toHash 64 (enc_hash x) flags) (\<lambda>b. Inr (fromBigEndian_word b)) = Inr (x :: h512)"
  using rlp_toHash_str [of "hash_bytes x" 64 flags]
  by (simp add: enc_hash_def size_ok_small fromBigEndian_word_eq)

lemma BlockHeader_populate_items:
  assumes wire: "BlockHeader_wire h"
  shows "BlockHeader_populate (rlp_lst (concat (BlockHeader_items h))) = Inr h"
proof -
  let ?d = "rlp_lst (concat (BlockHeader_items h))"
  note vec = BlockHeader_vectors [OF wire]
  have len: "length (BlockHeader_items h) = 13" by (simp add: BlockHeader_items_def)
  note get = field_lst [OF BlockHeader_items_ok(2,1) [OF wire], unfolded len]
  have items: "BlockHeader_items h ! 0 = enc_hash (m_parentHash h)"
    "BlockHeader_items h ! Suc 0 = enc_hash (m_stateRoot h)"
    "BlockHeader_items h ! 2 = enc_hash (m_transactionsRoot h)"
    "BlockHeader_items h ! 3 = enc_hash (m_receiptsRoot h)"
    "BlockHeader_items h ! 4 = enc_hash (m_dbHash h)"
    "BlockHeader_items h ! 5 = enc_hash (m_logBloom h)"
    "BlockHeader_items h ! 6 = enc_int (nat (m_number h))"
    "BlockHeader_items h ! 7 = enc_int (unat (m_gasLimit h))"
    "BlockHeader_items h ! 8 = enc_int (unat (m_gasUsed h))"
    "BlockHeader_items h ! 9 = enc_int (m_timestamp h)"
    "BlockHeader_items h ! 10 = enc_vec rlp_str (m_extraData h)"
    "BlockHeader_items h ! 11 = enc_int (unat (m_sealer h))"
    "BlockHeader_items h ! 12 = enc_vec enc_hash (m_sealerList h)"
    by (simp_all add: BlockHeader_items_def)
  have v10: "rlp_toVector rlp_toBytes (enc_vec rlp_str (m_extraData h)) LaissezFaire = Inr (m_extraData h)"
    using vec(1,2) by (intro rlp_toVector_enc) (simp_all add: rlp_item_str size_ok_60 del: length_concat)
  have v12: "rlp_toVector (\<lambda>j flags. res_bind (rlp_toHash 64 j flags) (\<lambda>b. Inr (fromBigEndian_word b)))
      (enc_vec enc_hash (m_sealerList h)) LaissezFaire = Inr (m_sealerList h)"
    using vec(3) by (intro rlp_toVector_enc hash512_enc)
      (simp_all add: rlp_item_hash size_ok_60 del: length_concat)
  show ?thesis
    using wire
    by (simp add: BlockHeader_populate_def get items v10 v12 toPositiveInt64_enc BlockHeader_wire_def
        del: res_bind_Inr)
qed

lemma BlockHeader_decode_encode:
  assumes "BlockHeader_wire h"
  shows "res_bind (BlockHeader_encode h) BlockHeader_decode = Inr h"
  using BlockHeader_items_ok(2) [OF assms]
  by (simp add: BlockHeader_encode_items [OF assms] BlockHeader_decode_def rlp_item_lst
      BlockHeader_populate_items [OF assms])

interpretation header_codec: codec BlockHeader_encode
  "\<lambda>e. case res_bind e BlockHeader_decode of Inr h \<Rightarrow> Some h | Inl x \<Rightarrow> None" BlockHeader_wire
  by unfold_locales (simp add: BlockHeader_decode_encode)

text \<open>Two headers of the blocks on the wire with the same bytes are the same header.\<close>

lemmas BlockHeader_encode_inject = header_codec.encode_inject

section \<open>Properties\<close>

text \<open>C19: transaction round trip. A signed transaction that is encoded with its signature, in the
  RC1 or in the RC2 format, is recovered by the decoder of the same format, type, receiver and the
  wrapped recovery byte included.\<close>

theorem transaction_round_trip:
  assumes "Transaction_wire rc2 t"
  shows "res_bind (Transaction_encode rc2 t True) (\<lambda>b. Transaction_decode cr rc2 b CheckNone) = Inr t"
proof -
  obtain g where "m_vrs t = Some g" using assms by (auto simp: Transaction_wire_def)
  then show ?thesis
    by (simp add: Transaction_encode_items [OF assms] Transaction_decode_items [OF assms])
qed

text \<open>Witness for the transaction round trip: a message call with one byte of data.\<close>

theorem transaction_round_trip_witness:
  "\<exists>t. Transaction_wire True t \<and> m_txData t = [7] \<and>
    res_bind (Transaction_encode True t True) (\<lambda>b. Transaction_decode
      \<lparr>sha3 = \<lambda>b. 1, recover = \<lambda>g h. 1, sign = \<lambda>k h. 1, verify = \<lambda>k g h. True\<rparr> True b CheckNone) = Inr t"
proof -
  let ?t = "null_transaction\<lparr>m_type := MessageCall, m_nonce := 4, m_receiveAddress := 9,
    m_txData := [7], m_vrs := Some \<lparr>sig_r = 1, sig_s = 2, sig_v = 0\<rparr>\<rparr>"
  have wire: "Transaction_wire True ?t" by (simp add: Transaction_wire_def null_transaction_def)
  show ?thesis
    by (rule exI [of _ ?t], intro conjI transaction_round_trip wire) simp
qed

text \<open>C20: header round trip. The encoding of a block header whose number is an \<open>int64_t\<close> that is
  not negative is decoded to the same header, with all thirteen fields.\<close>

theorem header_round_trip:
  assumes "BlockHeader_wire h"
  shows "res_bind (BlockHeader_encode h) BlockHeader_decode = Inr h"
  using assms by (rule BlockHeader_decode_encode)

text \<open>Witness for the header round trip.\<close>

theorem header_round_trip_witness:
  "BlockHeader_wire (BlockHeader_new\<lparr>m_number := 7, m_sealerList := [3]\<rparr>) \<and>
   res_bind (BlockHeader_encode (BlockHeader_new\<lparr>m_number := 7, m_sealerList := [3]\<rparr>)) BlockHeader_decode =
     Inr (BlockHeader_new\<lparr>m_number := 7, m_sealerList := [3]\<rparr>)"
proof -
  have wire: "BlockHeader_wire (BlockHeader_new\<lparr>m_number := 7, m_sealerList := [3]\<rparr>)"
    by (simp add: BlockHeader_wire_def BlockHeader_new_def)
  show ?thesis by (intro conjI header_round_trip wire)
qed

end
