(* ===== verification/Receipts.thy ===== *)
theory Receipts
  imports Eth_Types
begin

text \<open>
  libethcore/LogEntry.h, LogEntry.cpp, TransactionReceipt.h and TransactionReceipt.cpp: the
  receipts of executed transactions, their log entries and the bloom filter over the logs.

  \<open>m_status\<close> is an enumeration with the underlying type \<open>uint32_t\<close> that the decoder casts any
  number to, so it is that number here. \<open>decode\<close> appends to the log entries the object has.
  The lemmas show that receipts survive their encoding, and that the bloom filter of the logs
  contains every address and every topic.
\<close>

section \<open>Definitions\<close>

record LogEntry =
  le_address :: Address
  le_topics :: "h256 list"
  le_data :: bytes

record TransactionReceipt =
  r_stateRoot :: h256
  r_gasUsed :: u256
  r_contractAddress :: Address
  r_bloom :: LogBloom
  r_status :: nat
  r_outputBytes :: bytes
  r_log :: "LogEntry list"

definition TransactionReceipt_new :: TransactionReceipt where
  "TransactionReceipt_new = \<lparr>r_stateRoot = 0, r_gasUsed = 0, r_contractAddress = 0, r_bloom = 0,
     r_status = 0, r_outputBytes = [], r_log = []\<rparr>"

subsection \<open>The bloom filter\<close>

text \<open>\<open>bloomPart<3, 256>\<close> of a 256-bit hash: three bits, each chosen by eleven bits of the hash.\<close>

definition bloom_index :: "h256 \<Rightarrow> nat \<Rightarrow> nat" where
  "bloom_index h i =
     (unat (hash_bytes h ! (2 * i)) * 256 + unat (hash_bytes h ! (2 * i + 1))) mod 2048"

definition bloomPart :: "h256 \<Rightarrow> LogBloom" where
  "bloomPart h = fold (\<lambda>i w. w OR push_bit (bloom_index h i) 1) [0, 1, 2] 0"

definition shiftBloom :: "h256 \<Rightarrow> LogBloom \<Rightarrow> LogBloom" where
  "shiftBloom h w = w OR bloomPart h"

definition containsBloom :: "h256 \<Rightarrow> LogBloom \<Rightarrow> bool" where
  "containsBloom h w \<longleftrightarrow> w AND bloomPart h = bloomPart h"

definition LogEntry_bloom :: "crypto \<Rightarrow> LogEntry \<Rightarrow> LogBloom" where
  "LogEntry_bloom cr l =
     fold (\<lambda>t. shiftBloom (sha3 cr (hash_bytes t))) (le_topics l)
       (shiftBloom (sha3 cr (hash_bytes (le_address l))) 0)"

definition bloom :: "crypto \<Rightarrow> LogEntry list \<Rightarrow> LogBloom" where
  "bloom cr logs = fold (\<lambda>l w. w OR LogEntry_bloom cr l) logs 0"

text \<open>The constructor from the result of an execution.\<close>

definition TransactionReceipt_make ::
    "crypto \<Rightarrow> h256 \<Rightarrow> u256 \<Rightarrow> LogEntry list \<Rightarrow> nat \<Rightarrow> bytes \<Rightarrow> Address \<Rightarrow> TransactionReceipt" where
  "TransactionReceipt_make cr root gasUsed log status out contractAddress =
     \<lparr>r_stateRoot = root, r_gasUsed = gasUsed, r_contractAddress = contractAddress,
      r_bloom = bloom cr log, r_status = status, r_outputBytes = out, r_log = log\<rparr>"

subsection \<open>Encoding\<close>

definition LogEntry_streamRLP :: "LogEntry \<Rightarrow> RLPStream \<Rightarrow> rlp_exn + RLPStream" where
  "LogEntry_streamRLP l s =
     res_bind (appendList 3 s)
       (stream [append_hash (le_address l), appendVector append_hash (le_topics l), append_data (le_data l)])"

definition TransactionReceipt_streamRLP :: "TransactionReceipt \<Rightarrow> RLPStream \<Rightarrow> rlp_exn + RLPStream" where
  "TransactionReceipt_streamRLP r s =
     res_bind (appendList 7 s)
       (stream [append_hash (r_stateRoot r), append_u256 (r_gasUsed r), append_hash (r_contractAddress r),
          append_hash (r_bloom r), append_bigint (r_status r), append_data (r_outputBytes r),
          appendVector LogEntry_streamRLP (r_log r)])"

definition TransactionReceipt_encode :: "TransactionReceipt \<Rightarrow> rlp_exn + bytes" where
  "TransactionReceipt_encode r = res_bind (TransactionReceipt_streamRLP r RLPStream_new) RLPStream_out"

text \<open>The conversion operators use \<open>Strict\<close>, which pads a short hash; \<open>toVector\<close> passes
  \<open>LaissezFaire\<close> on to its elements.\<close>

definition as_hash_flags :: "bytes \<Rightarrow> strictness \<Rightarrow> rlp_exn + 'a::len word" where
  "as_hash_flags d flags =
     res_bind (rlp_toHash (LENGTH('a) div 8) d flags) (\<lambda>b. Inr (fromBigEndian_word b))"

definition LogEntry_of_rlp :: "bytes \<Rightarrow> rlp_exn + LogEntry" where
  "LogEntry_of_rlp d =
     res_bind (field (\<lambda>i. as_hash_flags i Strict) d 0) (\<lambda>a.
     res_bind (field (\<lambda>i. rlp_toVector as_hash_flags i LaissezFaire) d 1) (\<lambda>ts.
     res_bind (field as_bytes d 2) (\<lambda>b.
     Inr \<lparr>le_address = a, le_topics = ts, le_data = b\<rparr>)))"

definition TransactionReceipt_decode ::
    "bytes \<Rightarrow> TransactionReceipt \<Rightarrow> eth_exn + TransactionReceipt" where
  "TransactionReceipt_decode d r =
     (if \<not> rlp_isList d then Inl InvalidTransactionFormat
      else
        res_bind (eth_field (\<lambda>i. as_hash_flags i Strict) d 0) (\<lambda>stateRoot.
        res_bind (eth_field as_u256 d 1) (\<lambda>gasUsed.
        res_bind (eth_field (\<lambda>i. as_hash_flags i Strict) d 2) (\<lambda>contractAddress.
        res_bind (eth_field (\<lambda>i. as_hash_flags i Strict) d 3) (\<lambda>bloom.
        res_bind (eth_field (\<lambda>i. rlp_toInt (Some 4) i Strict) d 4) (\<lambda>status.
        res_bind (eth_field (\<lambda>i. if rlp_isData i then as_bytes i else Inr (r_outputBytes r)) d 5) (\<lambda>out.
        res_bind (eth_field (\<lambda>i. res_bind (rlp_toList i LaissezFaire) (res_mapM LogEntry_of_rlp)) d 6) (\<lambda>logs.
        Inr \<lparr>r_stateRoot = stateRoot, r_gasUsed = gasUsed, r_contractAddress = contractAddress,
          r_bloom = bloom, r_status = status, r_outputBytes = out, r_log = r_log r @ logs\<rparr>))))))))"

section \<open>The bloom filter has no false negatives\<close>

lemma containsBloom_mono:
  "containsBloom h w \<Longrightarrow> containsBloom h (w OR v)"
  by (simp add: containsBloom_def bit_eq_iff bit_and_iff bit_or_iff) blast

lemma containsBloom_self: "containsBloom h (bloomPart h)"
  by (simp add: containsBloom_def)

lemma containsBloom_or: "containsBloom h v \<Longrightarrow> containsBloom h (w OR v)"
  by (metis containsBloom_mono or.commute)

lemma containsBloom_shift: "containsBloom h (shiftBloom h w)"
  by (simp add: containsBloom_def shiftBloom_def bit_eq_iff bit_and_iff bit_or_iff)

lemma fold_or_contains:
  "containsBloom h w \<Longrightarrow> containsBloom h (fold (\<lambda>x w. w OR f x) xs w)"
  by (induction xs arbitrary: w) (simp_all add: containsBloom_mono)

lemma fold_or_member:
  "x \<in> set xs \<Longrightarrow> containsBloom h (f x) \<Longrightarrow> containsBloom h (fold (\<lambda>x w. w OR f x) xs w)"
  by (induction xs arbitrary: w) (auto simp: fold_or_contains containsBloom_or)

lemma LogEntry_bloom_or:
  "LogEntry_bloom cr l = fold (\<lambda>t w. w OR bloomPart (sha3 cr (hash_bytes t))) (le_topics l)
     (shiftBloom (sha3 cr (hash_bytes (le_address l))) 0)"
  unfolding LogEntry_bloom_def by (rule fold_cong) (auto simp: shiftBloom_def)

lemma LogEntry_bloom_address: "containsBloom (sha3 cr (hash_bytes (le_address l))) (LogEntry_bloom cr l)"
  unfolding LogEntry_bloom_or by (rule fold_or_contains [OF containsBloom_shift])

lemma LogEntry_bloom_topic:
  "t \<in> set (le_topics l) \<Longrightarrow> containsBloom (sha3 cr (hash_bytes t)) (LogEntry_bloom cr l)"
  unfolding LogEntry_bloom_or
  by (erule fold_or_member [where f = "\<lambda>t. bloomPart (sha3 cr (hash_bytes t))"]) (rule containsBloom_self)

section \<open>Receipts survive their encoding\<close>

definition LogEntry_wire :: "LogEntry \<Rightarrow> bool" where
  "LogEntry_wire l \<longleftrightarrow> length (le_topics l) < 2 ^ 50 \<and> length (le_data l) < 2 ^ 60"

definition LogEntry_items :: "LogEntry \<Rightarrow> bytes list" where
  "LogEntry_items l = [enc_hash (le_address l), enc_vec enc_hash (le_topics l), rlp_str (le_data l)]"

definition LogEntry_enc :: "LogEntry \<Rightarrow> bytes" where
  "LogEntry_enc l = rlp_lst (concat (LogEntry_items l))"

definition TransactionReceipt_wire :: "TransactionReceipt \<Rightarrow> bool" where
  "TransactionReceipt_wire r \<longleftrightarrow> r_status r < 2 ^ 32 \<and> length (r_outputBytes r) < 2 ^ 60 \<and>
     (\<forall>l\<in>set (r_log r). LogEntry_wire l) \<and> length (concat (map LogEntry_enc (r_log r))) < 2 ^ 63"

definition TransactionReceipt_items :: "TransactionReceipt \<Rightarrow> bytes list" where
  "TransactionReceipt_items r =
     [enc_hash (r_stateRoot r), enc_int (unat (r_gasUsed r)), enc_hash (r_contractAddress r),
      enc_hash (r_bloom r), enc_int (r_status r), rlp_str (r_outputBytes r),
      enc_vec LogEntry_enc (r_log r)]"

lemma length_concat_hash256: "length (concat (map enc_hash (xs :: h256 list))) \<le> 41 * length xs"
proof (induction xs)
  case (Cons x xs)
  then show ?case using length_enc_hash [of x] by simp
qed simp

lemma writes_list:
  assumes "list_all2 (writes (\<lambda>w. w)) ws es" "rlp_size_ok (length (concat es))"
  shows "writes (\<lambda>x s. res_bind (appendList (length ws) s) (stream ws)) x (rlp_lst (concat es))"
  using append_list_writes [OF assms] by (simp add: writes_def stream_def [abs_def])

lemma LogEntry_items_ok:
  assumes "LogEntry_wire l"
  shows "list_all rlp_item (LogEntry_items l)" "length (concat (LogEntry_items l)) < 2 ^ 62"
    and "list_all2 (writes (\<lambda>w. w)) [append_hash (le_address l), appendVector append_hash (le_topics l),
      append_data (le_data l)] (LogEntry_items l)"
proof -
  have ts: "length (concat (map enc_hash (le_topics l))) < 2 ^ 60"
    using length_concat_hash256 [of "le_topics l"] assms by (simp add: LogEntry_wire_def)
  have d: "rlp_size_ok (length (le_data l))" using assms by (simp add: LogEntry_wire_def size_ok_60)
  show "list_all rlp_item (LogEntry_items l)"
    using ts d by (simp add: LogEntry_items_def rlp_item_hash enc_vec_def rlp_item_lst rlp_item_str
        size_ok_60 del: length_concat)
  have "writes (\<lambda>w. w) (appendVector append_hash (le_topics l)) (enc_vec enc_hash (le_topics l))"
    using appendVector_writes [of "le_topics l" append_hash enc_hash] ts writes_hash_field [where 'a = 256]
    by (simp add: enc_vec_def writes_def size_ok_60 del: length_concat)
  then show "list_all2 (writes (\<lambda>w. w)) [append_hash (le_address l), appendVector append_hash (le_topics l),
      append_data (le_data l)] (LogEntry_items l)"
    using d by (simp add: LogEntry_items_def writes_hash_field writes_data)
  have "length (enc_vec enc_hash (le_topics l)) \<le> 2 ^ 60 + 9"
    using length_rlp_lst_le [OF size_ok_60 [OF ts]] ts by (simp add: enc_vec_def del: length_concat)
  moreover have "length (rlp_str (le_data l)) \<le> 2 ^ 60 + 9"
    using length_rlp_str_le [OF d] assms by (simp add: LogEntry_wire_def)
  ultimately show "length (concat (LogEntry_items l)) < 2 ^ 62"
    using length_enc_hash [of "le_address l"] by (simp add: LogEntry_items_def)
qed

lemma size_ok_62: "n < 2 ^ 62 \<Longrightarrow> rlp_size_ok n"
  by (simp add: rlp_size_ok_def)

lemma LogEntry_writes: "LogEntry_wire l \<Longrightarrow> writes LogEntry_streamRLP l (LogEntry_enc l)"
  using writes_list [OF LogEntry_items_ok(3), of l] size_ok_62 [OF LogEntry_items_ok(2), of l]
  by (simp add: writes_def LogEntry_streamRLP_def LogEntry_enc_def numeral_3_eq_3 del: length_concat)

lemma LogEntry_item: "LogEntry_wire l \<Longrightarrow> rlp_item (LogEntry_enc l)"
  using size_ok_62 [OF LogEntry_items_ok(2), of l] by (simp add: LogEntry_enc_def rlp_item_lst del: length_concat)

lemma as_hash_flags_enc [simp]:
  "8 dvd LENGTH('a) \<Longrightarrow> LENGTH('a) div 8 \<le> 2048 \<Longrightarrow> as_hash_flags (enc_hash h) flags = Inr h"
  for h :: "'a::len word"
  using rlp_toHash_str [of "hash_bytes h" "LENGTH('a) div 8" flags]
  by (simp add: as_hash_flags_def enc_hash_def size_ok_small fromBigEndian_word_eq)

lemma LogEntry_of_rlp_enc:
  assumes wire: "LogEntry_wire l"
  shows "LogEntry_of_rlp (LogEntry_enc l) = Inr l"
proof -
  have len: "length (LogEntry_items l) = 3" by (simp add: LogEntry_items_def)
  note get = field_lst [OF size_ok_62 [OF LogEntry_items_ok(2) [OF wire]] LogEntry_items_ok(1) [OF wire], unfolded len]
  have items: "LogEntry_items l ! 0 = enc_hash (le_address l)"
    "LogEntry_items l ! Suc 0 = enc_vec enc_hash (le_topics l)"
    "LogEntry_items l ! 2 = rlp_str (le_data l)"
    by (simp_all add: LogEntry_items_def)
  have "rlp_toVector as_hash_flags (enc_vec enc_hash (le_topics l)) LaissezFaire = Inr (le_topics l)"
    using length_concat_hash256 [of "le_topics l"] wire
    by (intro rlp_toVector_enc) (simp_all add: rlp_item_hash LogEntry_wire_def rlp_size_ok_def)
  with wire show ?thesis
    by (simp add: LogEntry_of_rlp_def LogEntry_enc_def get items LogEntry_wire_def size_ok_60
        del: res_bind_Inr)
qed

lemma size_ok_63: "n < 2 ^ 63 \<Longrightarrow> rlp_size_ok n"
  by (simp add: rlp_size_ok_def)

lemma TransactionReceipt_items_ok:
  assumes wire: "TransactionReceipt_wire r"
  shows "list_all rlp_item (TransactionReceipt_items r)"
    and "length (concat (TransactionReceipt_items r)) < 2 ^ 63 + 2 ^ 61"
    and "TransactionReceipt_encode r = Inr (rlp_lst (concat (TransactionReceipt_items r)))"
proof -
  have logs: "length (concat (map LogEntry_enc (r_log r))) < 2 ^ 63" and d: "rlp_size_ok (length (r_outputBytes r))"
    and st: "bytesRequired (r_status r) \<le> 32" and lw: "\<And>l. l \<in> set (r_log r) \<Longrightarrow> LogEntry_wire l"
    using wire by (simp_all add: TransactionReceipt_wire_def size_ok_60 bytesRequired_u64 del: length_concat)
  show items: "list_all rlp_item (TransactionReceipt_items r)"
    using logs d st by (simp add: TransactionReceipt_items_def rlp_item_hash rlp_item_int bytesRequired_u256
        enc_vec_def rlp_item_lst rlp_item_str size_ok_63 del: length_concat)
  have "writes (\<lambda>w. w) (appendVector LogEntry_streamRLP (r_log r)) (enc_vec LogEntry_enc (r_log r))"
    using appendVector_writes [of "r_log r" LogEntry_streamRLP LogEntry_enc, OF LogEntry_writes [OF lw]] logs
    by (simp add: enc_vec_def writes_def size_ok_63 del: length_concat)
  then have ws: "list_all2 (writes (\<lambda>w. w)) [append_hash (r_stateRoot r), append_u256 (r_gasUsed r),
      append_hash (r_contractAddress r), append_hash (r_bloom r), append_bigint (r_status r),
      append_data (r_outputBytes r), appendVector LogEntry_streamRLP (r_log r)] (TransactionReceipt_items r)"
    using d st by (simp add: TransactionReceipt_items_def writes_hash_field writes_data writes_u256 writes_nat)
  have "length (enc_vec LogEntry_enc (r_log r)) \<le> 2 ^ 63 + 9"
    using length_rlp_lst_le [OF size_ok_63 [OF logs]] logs by (simp add: enc_vec_def del: length_concat)
  moreover have "length (rlp_str (r_outputBytes r)) \<le> 2 ^ 60 + 9"
    using length_rlp_str_le [OF d] wire by (simp add: TransactionReceipt_wire_def)
  ultimately show len: "length (concat (TransactionReceipt_items r)) < 2 ^ 63 + 2 ^ 61"
    using length_enc_hash [of "r_stateRoot r"] length_enc_hash [of "r_contractAddress r"]
      length_enc_hash [of "r_bloom r"] length_enc_int [OF st] length_enc_int [OF bytesRequired_u256, of "r_gasUsed r"]
    by (simp add: TransactionReceipt_items_def)
  have "rlp_size_ok (length (concat (TransactionReceipt_items r)))" using len by (simp add: rlp_size_ok_def)
  from stream_list [OF ws this]
  show "TransactionReceipt_encode r = Inr (rlp_lst (concat (TransactionReceipt_items r)))"
    by (simp add: TransactionReceipt_encode_def TransactionReceipt_streamRLP_def eval_nat_numeral
        del: res_bind_Inr)
qed

lemma TransactionReceipt_decode_items:
  assumes wire: "TransactionReceipt_wire r"
  shows "TransactionReceipt_decode (rlp_lst (concat (TransactionReceipt_items r))) TransactionReceipt_new = Inr r"
proof -
  let ?d = "rlp_lst (concat (TransactionReceipt_items r))"
  note ok = TransactionReceipt_items_ok [OF wire]
  have size: "rlp_size_ok (length (concat (TransactionReceipt_items r)))" using ok(2) by (simp add: rlp_size_ok_def)
  have lst: "rlp_isList ?d" using rlp_lst_read(3) [OF size, of "[]"] by simp
  have len: "length (TransactionReceipt_items r) = 7" by (simp add: TransactionReceipt_items_def)
  note get = field_lst [OF size ok(1), unfolded len]
  have items: "TransactionReceipt_items r ! 0 = enc_hash (r_stateRoot r)"
    "TransactionReceipt_items r ! Suc 0 = enc_int (unat (r_gasUsed r))"
    "TransactionReceipt_items r ! 2 = enc_hash (r_contractAddress r)"
    "TransactionReceipt_items r ! 3 = enc_hash (r_bloom r)"
    "TransactionReceipt_items r ! 4 = enc_int (r_status r)"
    "TransactionReceipt_items r ! 5 = rlp_str (r_outputBytes r)"
    "TransactionReceipt_items r ! 6 = enc_vec LogEntry_enc (r_log r)"
    by (simp_all add: TransactionReceipt_items_def)
  have d: "rlp_size_ok (length (r_outputBytes r))" "rlp_isData (rlp_str (r_outputBytes r))"
    using wire rlp_str_read(4) [of "r_outputBytes r" "[]"] by (simp_all add: TransactionReceipt_wire_def size_ok_60)
  have st: "rlp_toInt (Some 4) (enc_int (r_status r)) Strict = Inr (r_status r)"
    using rlp_toInt_compact [of "r_status r" 4] wire by (simp add: enc_int_def TransactionReceipt_wire_def)
  have "list_all rlp_item (map LogEntry_enc (r_log r))" "rlp_size_ok (length (concat (map LogEntry_enc (r_log r))))"
    using wire by (auto simp: TransactionReceipt_wire_def list_all_iff intro: LogEntry_item size_ok_63
        simp del: length_concat)
  then have "res_bind (rlp_toList (enc_vec LogEntry_enc (r_log r)) LaissezFaire) (res_mapM LogEntry_of_rlp) =
      res_mapM LogEntry_of_rlp (map LogEntry_enc (r_log r))"
    by (simp add: enc_vec_def rlp_toList_lst)
  also have "\<dots> = Inr (r_log r)"
    using wire by (intro res_mapM_map LogEntry_of_rlp_enc) (simp add: TransactionReceipt_wire_def)
  finally show ?thesis
    using lst d st by (simp add: TransactionReceipt_decode_def TransactionReceipt_new_def eth_field_def get items
        eth_rlp_def del: res_bind_Inr res_bind_assoc)
qed

section \<open>Properties\<close>

text \<open>C26: receipt round trip. A receipt with its status below \<open>2^32\<close> and all its log entries is
  encoded without an exception, and the decoder run on a new object recovers it.\<close>

theorem receipt_round_trip:
  assumes "TransactionReceipt_wire r"
  shows "res_bind (eth_rlp (TransactionReceipt_encode r)) (\<lambda>b. TransactionReceipt_decode b TransactionReceipt_new) =
    Inr r"
  by (simp add: TransactionReceipt_items_ok(3) [OF assms] TransactionReceipt_decode_items [OF assms] eth_rlp_def)

text \<open>Witness for the receipt round trip: one log entry with one topic.\<close>

theorem receipt_round_trip_witness:
  "\<exists>r. TransactionReceipt_wire r \<and> length (r_log r) = 1 \<and>
    res_bind (eth_rlp (TransactionReceipt_encode r)) (\<lambda>b. TransactionReceipt_decode b TransactionReceipt_new) = Inr r"
proof -
  let ?l = "\<lparr>le_address = 5, le_topics = [7], le_data = [1, 2]\<rparr>"
  let ?r = "TransactionReceipt_new\<lparr>r_status := 12, r_log := [?l]\<rparr>"
  have l: "LogEntry_wire ?l" by (simp add: LogEntry_wire_def)
  have "length (LogEntry_enc ?l) < 2 ^ 63"
    using length_rlp_lst_le [OF size_ok_62 [OF LogEntry_items_ok(2) [OF l]]] LogEntry_items_ok(2) [OF l]
    by (simp add: LogEntry_enc_def del: length_concat)
  with l have wire: "TransactionReceipt_wire ?r"
    by (simp add: TransactionReceipt_wire_def TransactionReceipt_new_def)
  show ?thesis by (rule exI [of _ ?r], intro conjI receipt_round_trip wire) simp
qed

text \<open>C27: the bloom filter of a receipt has no false negatives. Whatever the hash function, the
  filter built over the logs contains the address of every log entry and each of its topics.\<close>

theorem bloom_no_false_negatives:
  assumes "l \<in> set logs" "h = hash_bytes (le_address l) \<or> (\<exists>t\<in>set (le_topics l). h = hash_bytes t)"
  shows "containsBloom (sha3 cr h) (r_bloom (TransactionReceipt_make cr root gas logs status out addr))"
proof -
  have "containsBloom (sha3 cr h) (LogEntry_bloom cr l)"
    using assms(2) LogEntry_bloom_address LogEntry_bloom_topic by blast
  then show ?thesis
    using fold_or_member [OF assms(1)] by (simp add: TransactionReceipt_make_def bloom_def)
qed

text \<open>Witness: the second topic of a log entry.\<close>

theorem bloom_no_false_negatives_witness:
  "containsBloom (sha3 \<lparr>sha3 = \<lambda>b. 0x800, recover = \<lambda>g h. 1, sign = \<lambda>k h. 1, verify = \<lambda>k g h. True\<rparr> (hash_bytes (8 :: h256)))
     (r_bloom (TransactionReceipt_make \<lparr>sha3 = \<lambda>b. 0x800, recover = \<lambda>g h. 1, sign = \<lambda>k h. 1, verify = \<lambda>k g h. True\<rparr>
       0 0 [\<lparr>le_address = 5, le_topics = [7, 8], le_data = []\<rparr>] 0 [] 0))"
  by (rule bloom_no_false_negatives [of "\<lparr>le_address = 5, le_topics = [7, 8], le_data = []\<rparr>"]) simp_all

end
