(* ===== verification/Trie_Hash.thy ===== *)
theory Trie_Hash
  imports Eth_Types
begin

text \<open>
  libdevcore/TrieHash.cpp and the hex-prefix encoding of libdevcore/TrieCommon.cpp: the root
  hash of the Merkle-Patricia trie over a map from byte strings to byte strings, computed
  without building the trie.

  A \<open>std::map\<close> is the list of its entries in the order of the keys, and an iterator range of it
  is a sublist. The keys of the hexadecimal map are lists of nibbles. \<open>hash256rlp\<close> and
  \<open>hash256aux\<close> call each other; \<open>hash256branch\<close> is the loop over the sixteen children. They
  terminate because the nibbles that remain in the keys become fewer.
\<close>

section \<open>Definitions\<close>

fun hex_pack :: "bytes \<Rightarrow> bytes" where
  "hex_pack (a # b # xs) = (a * 16 + b) # hex_pack xs"
| "hex_pack _ = []"

text \<open>The nibbles from \<open>b\<close> up to \<open>e\<close>; the default end of the source is the size of the vector.\<close>

definition hexPrefixEncode :: "bytes \<Rightarrow> bool \<Rightarrow> nat \<Rightarrow> nat \<Rightarrow> bytes" where
  "hexPrefixEncode hexVector leaf b e =
     (let nibs = take (e - b) (drop b hexVector);
          flag = (if leaf then 2 else 0) * 16
      in if odd (e - b) then ((flag + 16) OR (nibs ! 0)) # hex_pack (drop 1 nibs)
         else flag # hex_pack nibs)"

type_synonym hex_range = "(bytes \<times> bytes) list"

text \<open>The nibbles that the first key shares with another one, counted from \<open>shared\<close> on.\<close>

function shared_loop :: "bytes \<Rightarrow> bytes \<Rightarrow> nat \<Rightarrow> nat \<Rightarrow> nat" where
  "shared_loop k k' x shared =
     (if shared < x \<and> k ! shared = k' ! shared then shared_loop k k' x (shared + 1) else shared)"
  by pat_completeness auto
termination
  by (relation "measure (\<lambda>(_, _, x, shared). x - shared)") auto

declare shared_loop.simps [simp del]

fun sharedPre_loop :: "bytes \<Rightarrow> nat \<Rightarrow> hex_range \<Rightarrow> nat \<Rightarrow> nat" where
  "sharedPre_loop k preLen [] sharedPre = sharedPre"
| "sharedPre_loop k preLen ((k', _) # r) sharedPre =
     (if sharedPre = 0 then sharedPre
      else let x = min sharedPre (min (length k) (length k'))
        in sharedPre_loop k preLen r (min (shared_loop k k' x preLen) sharedPre))"

definition sharedPre :: "hex_range \<Rightarrow> nat \<Rightarrow> nat" where
  "sharedPre r preLen = sharedPre_loop (fst (hd r)) preLen (tl r) (2 ^ 32 - 1)"

definition nibble_is :: "nat \<Rightarrow> nat \<Rightarrow> bytes \<times> bytes \<Rightarrow> bool" where
  "nibble_is preLen i e \<longleftrightarrow> preLen < length (fst e) \<and> fst e ! preLen = word_of_nat i"

definition nibbles_left :: "nat \<Rightarrow> hex_range \<Rightarrow> nat" where
  "nibbles_left preLen r = sum_list (map (\<lambda>e. length (fst e) - preLen) r)"

lemma shared_loop_le: "shared_loop k k' x s \<le> max s x"
  by (induction k k' x s rule: shared_loop.induct) (subst shared_loop.simps, auto)

lemma sharedPre_loop_le: "sharedPre_loop k p r s \<le> s"
  by (induction k p r s rule: sharedPre_loop.induct) (auto simp: Let_def)

lemma sharedPre_le:
  assumes "p < sharedPre (e # e' # r) p"
  shows "sharedPre (e # e' # r) p \<le> length (fst e)"
proof -
  obtain k' v where e': "e' = (k', v)" by (cases e')
  let ?x = "min (2 ^ 32 - 1) (min (length (fst e)) (length k'))"
  let ?s = "shared_loop (fst e) k' ?x p"
  have "sharedPre (e # e' # r) p \<le> ?s"
    using sharedPre_loop_le [of "fst e" p r "min ?s (2 ^ 32 - 1)"]
    by (simp add: sharedPre_def e' Let_def)
  moreover have "?s \<le> max p ?x" by (rule shared_loop_le)
  ultimately show ?thesis using assms by (auto simp: max_def split: if_splits)
qed

lemma nibbles_left_mono: "p \<le> q \<Longrightarrow> nibbles_left q r \<le> nibbles_left p r"
  by (induction r) (auto simp: nibbles_left_def)

lemma nibbles_left_less:
  assumes "p < q" "q \<le> length (fst e)"
  shows "nibbles_left q (e # r) < nibbles_left p (e # r)"
proof -
  have "nibbles_left q r \<le> nibbles_left p r" using assms(1) by (intro nibbles_left_mono) simp
  moreover have "length (fst e) - q < length (fst e) - p" using assms by simp
  ultimately show ?thesis by (simp add: nibbles_left_def)
qed

lemma nibbles_left_takeWhile: "nibbles_left p (takeWhile P r) \<le> nibbles_left p r"
  by (induction r) (auto simp: nibbles_left_def)

lemma nibbles_left_dropWhile: "nibbles_left p (dropWhile P r) \<le> nibbles_left p r"
  by (induction r) (auto simp: nibbles_left_def)

lemma nibbles_left_child:
  assumes "takeWhile (nibble_is p i) r \<noteq> []"
  shows "nibbles_left (Suc p) (takeWhile (nibble_is p i) r) < nibbles_left p r"
proof -
  from assms obtain e es where g: "takeWhile (nibble_is p i) r = e # es"
    by (cases "takeWhile (nibble_is p i) r") auto
  then have "e \<in> set (takeWhile (nibble_is p i) r)" by simp
  then have "Suc p \<le> length (fst e)" by (auto dest: set_takeWhileD simp: nibble_is_def)
  then have "nibbles_left (Suc p) (e # es) < nibbles_left p (e # es)" by (intro nibbles_left_less) simp_all
  also have "\<dots> \<le> nibbles_left p r" using nibbles_left_takeWhile [of p "nibble_is p i" r] g by simp
  finally show ?thesis using g by simp
qed

lemma nibbles_left_Cons: "nibbles_left p r \<le> nibbles_left p (e # r)"
  by (simp add: nibbles_left_def)

function hash256rlp :: "crypto \<Rightarrow> hex_range \<Rightarrow> nat \<Rightarrow> RLPStream \<Rightarrow> rlp_exn + RLPStream"
  and hash256aux :: "crypto \<Rightarrow> hex_range \<Rightarrow> nat \<Rightarrow> RLPStream \<Rightarrow> rlp_exn + RLPStream"
  and hash256branch :: "crypto \<Rightarrow> hex_range \<Rightarrow> nat \<Rightarrow> nat list \<Rightarrow> RLPStream \<Rightarrow> rlp_exn + RLPStream"
where
  "hash256rlp cr [] preLen s = append_data [] s"
| "hash256rlp cr [e] preLen s =
     res_bind (appendList 2 s)
       (stream [append_data (hexPrefixEncode (fst e) True preLen (length (fst e))), append_data (snd e)])"
| "hash256rlp cr (e # e' # r) preLen s =
     (let shared = sharedPre (e # e' # r) preLen in
      if preLen < shared
      then res_bind (appendList 2 s) (\<lambda>s.
        res_bind (append_data (hexPrefixEncode (fst e) False preLen shared) s)
          (hash256aux cr (e # e' # r) shared))
      else res_bind (appendList 17 s) (\<lambda>s.
        let here = (preLen = length (fst e)) in
        res_bind (hash256branch cr (if here then e' # r else e # e' # r) preLen [0..<16] s)
          (append_data (if here then snd e else []))))"
| "hash256aux cr r preLen s =
     res_bind (res_bind (hash256rlp cr r preLen RLPStream_new) RLPStream_out) (\<lambda>out.
       if length out < 32 then appendRaw out 1 s else append_hash (sha3 cr out) s)"
| "hash256branch cr b preLen [] s = Inr s"
| "hash256branch cr b preLen (i # is) s =
     (let g = takeWhile (nibble_is preLen i) b in
      res_bind (if g = [] then append_data [] s else hash256aux cr g (Suc preLen) s)
        (hash256branch cr (dropWhile (nibble_is preLen i) b) preLen is))"
  by pat_completeness auto

termination
  by (relation "measures [
        \<lambda>x. case x of Inl (cr, r, p, s) \<Rightarrow> nibbles_left p r | Inr (Inl (cr, r, p, s)) \<Rightarrow> nibbles_left p r
          | Inr (Inr (cr, r, p, is, s)) \<Rightarrow> nibbles_left p r,
        \<lambda>x. case x of Inl _ \<Rightarrow> 1 | Inr (Inl _) \<Rightarrow> 2 | Inr (Inr _) \<Rightarrow> 0,
        \<lambda>x. case x of Inr (Inr (cr, r, p, is, s)) \<Rightarrow> length is | _ \<Rightarrow> 0]")
    (auto simp: le_less [symmetric] nibbles_left_child nibbles_left_dropWhile
      intro: nibbles_left_less sharedPre_le nibbles_left_Cons)

declare hash256rlp.simps [simp del] hash256aux.simps [simp del] hash256branch.simps [simp del]

text \<open>A \<open>BytesMap\<close> as the entries inserted into it; \<open>bm_insert\<close> keeps the first value of a key, as
  \<open>std::map::insert\<close> does, and the lexicographic order of the keys.\<close>

fun bytes_less :: "bytes \<Rightarrow> bytes \<Rightarrow> bool" where
  "bytes_less _ [] = False"
| "bytes_less [] (_ # _) = True"
| "bytes_less (x # xs) (y # ys) = (x < y \<or> x = y \<and> bytes_less xs ys)"

fun bm_insert :: "bytes \<Rightarrow> bytes \<Rightarrow> hex_range \<Rightarrow> hex_range" where
  "bm_insert k v [] = [(k, v)]"
| "bm_insert k v ((k', v') # m) =
     (if k = k' then (k', v') # m
      else if bytes_less k k' then (k, v) # (k', v') # m
      else (k', v') # bm_insert k v m)"

definition rlp256 :: "crypto \<Rightarrow> hex_range \<Rightarrow> rlp_exn + bytes" where
  "rlp256 cr m =
     (if m = [] then res_bind (append_data [] RLPStream_new) RLPStream_out
      else res_bind (hash256rlp cr (map (\<lambda>(k, v). (asNibbles k, v)) m) 0 RLPStream_new) RLPStream_out)"

definition hash256 :: "crypto \<Rightarrow> hex_range \<Rightarrow> rlp_exn + h256" where
  "hash256 cr m = res_bind (rlp256 cr m) (\<lambda>b. Inr (sha3 cr b))"

end
