(* ===== verification/Block_Codec.thy ===== *)
theory Block_Codec
  imports Receipts Trie_Hash
begin

text \<open>
  libethcore/Block.h, Block.cpp and TxsParallelParser.cpp: blocks, the caches of their encoded
  transactions and receipts, and their wire format.

  \<open>m_txsCache\<close> and \<open>m_tReceiptsCache\<close> hold the last encoding and are empty when it is out of
  date; \<open>encode\<close> is a \<open>const\<close> method that fills them, so it returns the block as well. With
  \<open>rc2\<close> the transactions are one string: their number, the offsets and the transactions one
  after the other. The decoders of the transactions run in parallel on separate elements; any
  exception of one of them makes the block invalid.

  The lemmas show that a block survives encoding and decoding in the RC2 format, and what the
  parser does with a number of transactions for which the size of the offset table wraps.
\<close>

section \<open>Definitions\<close>

subsection \<open>Transactions of a block, in parallel\<close>

text \<open>\<open>Offset_t\<close> is a \<open>uint32_t\<close>, stored as the machine stores it: little endian.\<close>

definition Offset_toBytes :: "nat \<Rightarrow> bytes" where
  "Offset_toBytes n =
     [word_of_nat (n mod 256), word_of_nat (n div 256 mod 256),
      word_of_nat (n div 65536 mod 256), word_of_nat (n div 16777216 mod 256)]"

text \<open>Four bytes are read without a check that there are as many.\<close>

definition Offset_fromBytes :: "bytes \<Rightarrow> eth_exn + nat" where
  "Offset_fromBytes d = (case d of
     a # b # c # e # _ \<Rightarrow> Inr (unat a + 256 * unat b + 65536 * unat c + 16777216 * unat e)
   | _ \<Rightarrow> Inl OutOfBounds)"

text \<open>The offsets: each transaction starts where the one before it ends, modulo \<open>2^32\<close>.\<close>

fun tx_offsets :: "nat \<Rightarrow> bytes list \<Rightarrow> nat list" where
  "tx_offsets offset [] = [offset]"
| "tx_offsets offset (x # xs) = offset # tx_offsets ((offset + length x) mod 2 ^ 32) xs"

text \<open>\<open>encode(std::vector<bytes>)\<close>\<close>

definition TxsParser_encode_bytes :: "bytes list \<Rightarrow> bytes" where
  "TxsParser_encode_bytes txs =
     (let txNum = u32 (int (length txs)); txs = take txNum txs
      in if txNum = 0 then []
         else Offset_toBytes txNum @ concat (map Offset_toBytes (tx_offsets 0 txs)) @ concat txs)"

text \<open>\<open>encode(Transactions)\<close>\<close>

definition TxsParser_encode :: "bool \<Rightarrow> Transaction list \<Rightarrow> eth_exn + bytes" where
  "TxsParser_encode rc2 txs =
     res_bind (res_mapM (\<lambda>t. Transaction_rlp rc2 t True) (take (u32 (int (length txs))) txs))
       (\<lambda>bs. Inr (TxsParser_encode_bytes bs))"

definition tx_slice :: "bytes \<Rightarrow> nat \<Rightarrow> nat \<Rightarrow> eth_exn + bytes" where
  "tx_slice d txNum i =
     res_bind (Offset_fromBytes (cropped_from d (4 + 4 * i))) (\<lambda>offset.
     res_bind (Offset_fromBytes (cropped_from d (4 + 4 * (i + 1)))) (\<lambda>next_offset.
       let size = u32 (int next_offset - int offset);
           objectStart = 4 * (txNum + 2);
           maxOffset = length d - objectStart - 1
       in if maxOffset < offset then Inl InvalidBlockFormat
          else Inr (cropped (cropped_from d objectStart) offset size)))"

text \<open>
  The number \<open>txNum + 2\<close> of the words before the transactions is computed in 32 bits. For the
  two largest \<open>txNum\<close> it wraps and the check passes, and the vector is resized to more than
  four thousand million transactions, which is where the call ends.
\<close>

definition TxsParser_decode_txs ::
    "crypto \<Rightarrow> bool \<Rightarrow> bytes \<Rightarrow> CheckTransaction \<Rightarrow> Transaction list \<Rightarrow> eth_exn + Transaction list" where
  "TxsParser_decode_txs cr rc2 d checkSig old =
     (if length d = 0 then Inr old
      else res_bind (Offset_fromBytes d) (\<lambda>txNum.
        let objectStart = 4 * u32 (int txNum + 2) in
        if length d \<le> objectStart then Inl InvalidBlockFormat
        else if 2 ^ 32 - 2 \<le> txNum then Inl BadAlloc
        else res_mapM (\<lambda>i. res_bind (tx_slice d txNum i) (\<lambda>b.
          Transaction_decode_bytes cr rc2 b checkSig)) [0..<txNum]))"

text \<open>Every exception of the program is turned into \<open>InvalidBlockFormat\<close>.\<close>

definition TxsParser_decode ::
    "crypto \<Rightarrow> bool \<Rightarrow> bytes \<Rightarrow> CheckTransaction \<Rightarrow> Transaction list \<Rightarrow> eth_exn + Transaction list" where
  "TxsParser_decode cr rc2 d checkSig old =
     (case TxsParser_decode_txs cr rc2 d checkSig old of
        Inr txs \<Rightarrow> Inr txs
      | Inl e \<Rightarrow> Inl (if e = BadAlloc \<or> e = OutOfBounds then e else InvalidBlockFormat))"

subsection \<open>Blocks\<close>

record Block =
  m_blockHeader :: BlockHeader
  m_transactions :: "Transaction list"
  m_transactionReceipts :: "TransactionReceipt list"
  m_sigList :: "(u256 \<times> h520) list"
  m_txsCache :: bytes
  m_tReceiptsCache :: bytes
  m_transRootCache :: h256
  m_receiptRootCache :: h256

definition Block_new :: Block where
  "Block_new = \<lparr>m_blockHeader = BlockHeader_new, m_transactions = [], m_transactionReceipts = [],
     m_sigList = [], m_txsCache = [], m_tReceiptsCache = [], m_transRootCache = 0, m_receiptRootCache = 0\<rparr>"

definition noteChange :: "Block \<Rightarrow> Block" where
  "noteChange b = b\<lparr>m_txsCache := []\<rparr>"

definition noteReceiptChange :: "Block \<Rightarrow> Block" where
  "noteReceiptChange b = b\<lparr>m_tReceiptsCache := []\<rparr>"

definition isSealed :: "Block \<Rightarrow> bool" where
  "isSealed b \<longleftrightarrow> m_sealer (m_blockHeader b) \<noteq> Invalid256"

definition getTransactionSize :: "Block \<Rightarrow> nat" where
  "getTransactionSize b = length (m_transactions b)"

definition getAllNonces :: "Block \<Rightarrow> u256 list" where
  "getAllNonces b = map m_nonce (m_transactions b)"

definition setTransactions :: "Transaction list \<Rightarrow> Block \<Rightarrow> Block" where
  "setTransactions ts b = noteChange (b\<lparr>m_transactions := ts\<rparr>)"

definition setTransactionReceipts :: "TransactionReceipt list \<Rightarrow> Block \<Rightarrow> Block" where
  "setTransactionReceipts rs b = noteReceiptChange (b\<lparr>m_transactionReceipts := rs\<rparr>)"

definition appendTransaction :: "Transaction \<Rightarrow> Block \<Rightarrow> Block" where
  "appendTransaction t b = noteChange (b\<lparr>m_transactions := m_transactions b @ [t]\<rparr>)"

definition appendTransactions :: "Transaction list \<Rightarrow> Block \<Rightarrow> Block" where
  "appendTransactions ts b = noteChange (b\<lparr>m_transactions := m_transactions b @ ts\<rparr>)"

definition resetCurrentBlock :: "crypto \<Rightarrow> BlockHeader \<Rightarrow> Block \<Rightarrow> Block" where
  "resetCurrentBlock cr parent b =
     (let h = m_blockHeader b;
          h' = (if m_sealer parent \<noteq> Invalid256 then populateFromParent cr parent h else h)
      in noteReceiptChange (noteChange (b\<lparr>m_blockHeader := h'\<lparr>m_sealer := Invalid256\<rparr>,
           m_transactions := [], m_transactionReceipts := [], m_sigList := [], m_txsCache := [],
           m_tReceiptsCache := []\<rparr>)))"

definition setEmptyBlock :: "nat \<Rightarrow> Block \<Rightarrow> Block" where
  "setEmptyBlock timeStamp b =
     noteReceiptChange (noteChange (b\<lparr>m_blockHeader := (m_blockHeader b)
       \<lparr>m_number := 0, m_gasUsed := 0, m_sealer := 0, m_timestamp := timeStamp\<rparr>\<rparr>))"

definition appendTransactionReceipt :: "TransactionReceipt \<Rightarrow> Block \<Rightarrow> Block" where
  "appendTransactionReceipt r b =
     noteReceiptChange (b\<lparr>m_transactionReceipts := m_transactionReceipts b @ [r]\<rparr>)"

definition resizeTransactionReceipt :: "nat \<Rightarrow> Block \<Rightarrow> Block" where
  "resizeTransactionReceipt n b =
     noteReceiptChange (b\<lparr>m_transactionReceipts := take n (m_transactionReceipts b) @
       replicate (n - length (m_transactionReceipts b)) TransactionReceipt_new\<rparr>)"

definition setTransactionReceipt :: "nat \<Rightarrow> TransactionReceipt \<Rightarrow> Block \<Rightarrow> eth_exn + Block" where
  "setTransactionReceipt i r b =
     (if i < length (m_transactionReceipts b)
      then Inr (noteReceiptChange (b\<lparr>m_transactionReceipts := (m_transactionReceipts b)[i := r]\<rparr>))
      else Inl OutOfBounds)"

text \<open>The gas of the receipts becomes the gas used so far. The cache is not marked as out of date.\<close>

fun sequence_gas :: "u256 \<Rightarrow> TransactionReceipt list \<Rightarrow> TransactionReceipt list" where
  "sequence_gas totalGas [] = []"
| "sequence_gas totalGas (r # rs) =
     (let total = totalGas + r_gasUsed r in r\<lparr>r_gasUsed := total\<rparr> # sequence_gas total rs)"

definition updateSequenceReceiptGas :: "Block \<Rightarrow> Block" where
  "updateSequenceReceiptGas b =
     b\<lparr>m_transactionReceipts := sequence_gas 0 (m_transactionReceipts b)\<rparr>"

definition setStateRootToAllReceipt :: "h256 \<Rightarrow> Block \<Rightarrow> Block" where
  "setStateRootToAllReceipt root b =
     noteReceiptChange (b\<lparr>m_transactionReceipts := map (r_stateRoot_update (\<lambda>_. root)) (m_transactionReceipts b)\<rparr>)"

definition clearAllReceipts :: "Block \<Rightarrow> Block" where
  "clearAllReceipts b = noteReceiptChange (b\<lparr>m_transactionReceipts := []\<rparr>)"

subsection \<open>Roots\<close>

definition append_raw1 :: "bytes \<Rightarrow> RLPStream \<Rightarrow> rlp_exn + RLPStream" where
  "append_raw1 b = appendRaw b 1"

text \<open>\<open>s << i\<close> for an index: the key of the trie.\<close>

definition trie_key :: "nat \<Rightarrow> rlp_exn + bytes" where
  "trie_key i = res_bind (append_unsigned (u32 (int i)) RLPStream_new) RLPStream_out"

fun trie_map :: "nat \<Rightarrow> bytes list \<Rightarrow> hex_range \<Rightarrow> rlp_exn + hex_range" where
  "trie_map i [] m = Inr m"
| "trie_map i (x # xs) m = res_bind (trie_key i) (\<lambda>k. trie_map (Suc i) xs (bm_insert k x m))"

definition set_roots_if :: "bool \<Rightarrow> (BlockHeader \<Rightarrow> BlockHeader) \<Rightarrow> Block \<Rightarrow> Block" where
  "set_roots_if update f b = (if update then b\<lparr>m_blockHeader := f (m_blockHeader b)\<rparr> else b)"

definition calTransactionRootRC2 :: "crypto \<Rightarrow> bool \<Rightarrow> Block \<Rightarrow> eth_exn + Block" where
  "calTransactionRootRC2 cr update b =
     res_bind
       (if m_txsCache b = []
        then res_bind (TxsParser_encode True (m_transactions b)) (\<lambda>c.
          Inr (b\<lparr>m_txsCache := c, m_transRootCache := sha3 cr c\<rparr>))
        else Inr b)
       (\<lambda>b. Inr (set_roots_if update (m_transactionsRoot_update (\<lambda>_. m_transRootCache b)) b))"

definition calTransactionRoot :: "crypto \<Rightarrow> bool \<Rightarrow> bool \<Rightarrow> Block \<Rightarrow> eth_exn + Block" where
  "calTransactionRoot cr rc2 update b =
     (if rc2 then calTransactionRootRC2 cr update b
      else res_bind
        (if m_txsCache b = []
         then res_bind (res_mapM (\<lambda>t. Transaction_encode False t True) (m_transactions b)) (\<lambda>bs.
           res_bind (eth_rlp (res_bind (res_bind (appendList (length bs) RLPStream_new)
             (append_all append_raw1 bs)) RLPStream_out)) (\<lambda>c.
           res_bind (eth_rlp (res_bind (trie_map 0 bs []) (hash256 cr))) (\<lambda>root.
           Inr (b\<lparr>m_txsCache := c, m_transRootCache := root\<rparr>))))
         else Inr b)
        (\<lambda>b. Inr (set_roots_if update (m_transactionsRoot_update (\<lambda>_. m_transRootCache b)) b)))"

definition encode_receipts :: "TransactionReceipt list \<Rightarrow> eth_exn + bytes list" where
  "encode_receipts rs = eth_rlp (res_mapM TransactionReceipt_encode rs)"

definition receipts_list :: "bytes list \<Rightarrow> eth_exn + bytes" where
  "receipts_list bs = eth_rlp (res_bind (res_bind (appendList (length bs) RLPStream_new)
     (append_all append_raw1 bs)) RLPStream_out)"

definition calReceiptRootRC2 :: "crypto \<Rightarrow> bool \<Rightarrow> Block \<Rightarrow> eth_exn + Block" where
  "calReceiptRootRC2 cr update b =
     res_bind
       (if m_tReceiptsCache b = []
        then res_bind (encode_receipts (m_transactionReceipts b)) (\<lambda>bs.
          res_bind (receipts_list bs) (\<lambda>c.
          Inr (b\<lparr>m_tReceiptsCache := c, m_receiptRootCache := sha3 cr c\<rparr>)))
        else Inr b)
       (\<lambda>b. Inr (set_roots_if update (m_receiptsRoot_update (\<lambda>_. m_receiptRootCache b)) b))"

definition calReceiptRoot :: "crypto \<Rightarrow> bool \<Rightarrow> bool \<Rightarrow> Block \<Rightarrow> eth_exn + Block" where
  "calReceiptRoot cr rc2 update b =
     (if rc2 then calReceiptRootRC2 cr update b
      else res_bind
        (if m_tReceiptsCache b = []
         then res_bind (encode_receipts (m_transactionReceipts b)) (\<lambda>bs.
           res_bind (receipts_list bs) (\<lambda>c.
           res_bind (eth_rlp (res_bind (trie_map 0 bs []) (hash256 cr))) (\<lambda>root.
           Inr (b\<lparr>m_tReceiptsCache := c, m_receiptRootCache := root\<rparr>))))
         else Inr b)
        (\<lambda>b. Inr (set_roots_if update (m_receiptsRoot_update (\<lambda>_. m_receiptRootCache b)) b)))"

subsection \<open>Encoding and decoding\<close>

text \<open>\<open>append(std::pair<u256, Signature>)\<close>\<close>

definition append_sig :: "u256 \<times> h520 \<Rightarrow> RLPStream \<Rightarrow> rlp_exn + RLPStream" where
  "append_sig p s = res_bind (appendList 2 s) (stream [append_u256 (fst p), append_hash (snd p)])"

definition Block_fields ::
    "crypto \<Rightarrow> bool \<Rightarrow> bytes \<Rightarrow> Block \<Rightarrow> (RLPStream \<Rightarrow> rlp_exn + RLPStream) list" where
  "Block_fields cr rc2 headerData b =
     (if rc2
      then [append_raw1 headerData, append_data (m_txsCache b),
            append_hash (BlockHeader_hash cr (m_blockHeader b)), appendVector append_sig (m_sigList b),
            append_raw1 (m_tReceiptsCache b)]
      else [append_raw1 headerData, append_raw1 (m_txsCache b), append_raw1 (m_tReceiptsCache b),
            append_hash (BlockHeader_hash cr (m_blockHeader b)), appendVector append_sig (m_sigList b)])"

definition Block_encode :: "crypto \<Rightarrow> bool \<Rightarrow> Block \<Rightarrow> eth_exn + bytes \<times> Block" where
  "Block_encode cr rc2 b =
     res_bind (BlockHeader_verify cr False BlockHeader_new (m_blockHeader b)) (\<lambda>_.
     res_bind (calTransactionRoot cr rc2 False b) (\<lambda>b.
     res_bind (calReceiptRoot cr rc2 False b) (\<lambda>b.
     res_bind (eth_rlp (BlockHeader_encode (m_blockHeader b))) (\<lambda>headerData.
     res_bind (eth_rlp (res_bind (res_bind (appendList 5 RLPStream_new)
       (stream (Block_fields cr rc2 headerData b))) RLPStream_out)) (\<lambda>out.
     Inr (out, b))))))"

definition extractBlock :: "bytes \<Rightarrow> eth_exn + bytes" where
  "extractBlock d =
     res_bind (eth_rlp (RLP_make d VeryStrict)) (\<lambda>root.
       if \<not> rlp_isList root then Inl InvalidBlockFormat
       else res_bind (eth_rlp (rlp_nth root 0)) (\<lambda>h.
         if \<not> rlp_isList h then Inl InvalidBlockFormat else Inr root))"

definition as_sig :: "bytes \<Rightarrow> strictness \<Rightarrow> rlp_exn + u256 \<times> h520" where
  "as_sig d flags =
     (if \<not> rlp_isList d then Inl BadCast
      else res_bind (rlp_items d) (\<lambda>n.
        if n \<noteq> 2 then (if ThrowOnFail \<in> set flags then Inl BadCast else Inr (0, 0))
        else res_bind (field (\<lambda>i. rlp_toInt (Some 32) i flags) d 0) (\<lambda>x.
          res_bind (field (\<lambda>i. as_hash_flags i flags) d 1) (\<lambda>y. Inr (word_of_nat x, y)))))"

text \<open>The elements of a list, each decoded by its index.\<close>

definition decode_items :: "(nat \<Rightarrow> bytes \<Rightarrow> eth_exn + 'a) \<Rightarrow> bytes \<Rightarrow> eth_exn + 'a list" where
  "decode_items f d =
     res_bind (eth_rlp (rlp_itemCount d)) (\<lambda>n.
       res_mapM (\<lambda>i. res_bind (eth_rlp (rlp_nth d i)) (f i)) [0..<n])"

definition receipt_at :: "Block \<Rightarrow> nat \<Rightarrow> TransactionReceipt" where
  "receipt_at b i =
     (if i < length (m_transactionReceipts b) then m_transactionReceipts b ! i else TransactionReceipt_new)"

definition Block_decodeRC1 :: "crypto \<Rightarrow> bytes \<Rightarrow> CheckTransaction \<Rightarrow> Block \<Rightarrow> eth_exn + Block" where
  "Block_decodeRC1 cr d option b =
     res_bind (extractBlock d) (\<lambda>r.
     res_bind (eth_field BlockHeader_populate r 0) (\<lambda>h.
     res_bind (eth_rlp (rlp_nth r 1)) (\<lambda>txs_rlp.
     res_bind (decode_items (\<lambda>i x. Transaction_decode cr False x option) txs_rlp) (\<lambda>txs.
     res_bind (eth_rlp (rlp_nth r 2)) (\<lambda>receipts_rlp.
     res_bind (decode_items (\<lambda>i x. TransactionReceipt_decode x (receipt_at b i)) receipts_rlp) (\<lambda>rs.
     res_bind (eth_field (\<lambda>i. as_hash_flags i Strict) r 3) (\<lambda>hash.
     if hash \<noteq> BlockHeader_hash cr h then Inl ErrorBlockHash
     else res_bind (eth_field (\<lambda>i. rlp_toVector as_sig i LaissezFaire) r 4) (\<lambda>sigs.
       Inr (b\<lparr>m_blockHeader := h, m_transactions := txs, m_txsCache := txs_rlp,
         m_transactionReceipts := rs, m_sigList := sigs\<rparr>)))))))))"

definition Block_decodeRC2 ::
    "crypto \<Rightarrow> bytes \<Rightarrow> CheckTransaction \<Rightarrow> bool \<Rightarrow> Block \<Rightarrow> eth_exn + Block" where
  "Block_decodeRC2 cr d option withReceipt b =
     res_bind (extractBlock d) (\<lambda>r.
     res_bind (eth_field BlockHeader_populate r 0) (\<lambda>h.
     res_bind (eth_field as_bytes r 1) (\<lambda>txsCache.
     res_bind (TxsParser_decode cr True txsCache option (m_transactions b)) (\<lambda>txs.
     res_bind (eth_field (\<lambda>i. as_hash_flags i Strict) r 2) (\<lambda>hash.
     if hash \<noteq> BlockHeader_hash cr h then Inl ErrorBlockHash
     else res_bind (eth_field (\<lambda>i. rlp_toVector as_sig i LaissezFaire) r 3) (\<lambda>sigs.
       res_bind
         (if withReceipt
          then res_bind (eth_rlp (rlp_nth r 4))
            (decode_items (\<lambda>i x. TransactionReceipt_decode x (receipt_at b i)))
          else Inr (m_transactionReceipts b)) (\<lambda>rs.
       Inr (b\<lparr>m_blockHeader := h, m_transactions := txs, m_txsCache := txsCache,
         m_transactionReceipts := rs, m_sigList := sigs\<rparr>))))))))"

definition Block_decode ::
    "crypto \<Rightarrow> bool \<Rightarrow> bytes \<Rightarrow> CheckTransaction \<Rightarrow> bool \<Rightarrow> Block \<Rightarrow> eth_exn + Block" where
  "Block_decode cr rc2 d option withReceipt b =
     (if rc2 then Block_decodeRC2 cr d option withReceipt b else Block_decodeRC1 cr d option b)"

section \<open>The offset table\<close>

lemma length_Offset [simp]: "length (Offset_toBytes n) = 4"
  by (simp add: Offset_toBytes_def)

lemma Offset_round_trip: "n < 2 ^ 32 \<Longrightarrow> Offset_fromBytes (Offset_toBytes n @ r) = Inr n"
proof -
  assume n: "n < 2 ^ 32"
  have "n div 16777216 < 256" using n by (simp add: less_mult_imp_div_less)
  moreover have "n = n mod 256 + 256 * (n div 256 mod 256) + 65536 * (n div 65536 mod 256) + 16777216 * (n div 16777216)"
    using mod_mult2_eq [of n 256 256] mod_mult2_eq [of n 65536 256] mult_div_mod_eq [of 16777216 n]
    by (simp add: div_mult2_eq [symmetric])
  ultimately show ?thesis
    by (simp add: Offset_fromBytes_def Offset_toBytes_def unat_byte)
qed

lemma length_offsets [simp]: "length (tx_offsets n xs) = Suc (length xs)"
  by (induction xs arbitrary: n) simp_all

lemma tx_offsets_nth:
  "n + length (concat xs) < 2 ^ 32 \<Longrightarrow> i \<le> length xs \<Longrightarrow> tx_offsets n xs ! i = n + length (concat (take i xs))"
proof (induction xs arbitrary: n i)
  case (Cons x xs)
  then show ?case by (cases i) (simp_all del: length_concat)
qed simp

lemma drop_words:
  assumes "i < length ns"
  shows "drop (4 * i) (concat (map Offset_toBytes ns) @ r) =
    Offset_toBytes (ns ! i) @ concat (map Offset_toBytes (drop (Suc i) ns)) @ r"
  using assms
proof (induction ns arbitrary: i)
  case (Cons n ns)
  then show ?case by (cases i) simp_all
qed simp

lemma length_words [simp]: "length (concat (map Offset_toBytes ns)) = 4 * length ns"
  by (induction ns) simp_all

lemma concat_slice:
  "i < length xs \<Longrightarrow> take (length (xs ! i)) (drop (length (concat (take i xs))) (concat xs)) = xs ! i"
proof -
  assume i: "i < length xs"
  then have "concat xs = concat (take i xs) @ xs ! i @ concat (drop (Suc i) xs)"
    by (metis append_take_drop_id concat.simps(2) concat_append Cons_nth_drop_Suc)
  then show ?thesis by simp
qed

lemma length_concat_take:
  "i < length xs \<Longrightarrow> length (concat (take i xs)) + length (xs ! i) = length (concat (take (Suc i) xs))"
  by (simp add: take_Suc_conv_app_nth del: length_concat)

lemma length_concat_take_le: "length (concat (take i xs)) \<le> length (concat xs)"
  by (metis append_take_drop_id concat_append length_append le_add1)

text \<open>The bytes of the transactions, written by the encoder.\<close>

definition txs_table :: "bytes list \<Rightarrow> bytes" where
  "txs_table xs = concat (map Offset_toBytes (length xs # tx_offsets 0 xs)) @ concat xs"

lemma TxsParser_encode_table:
  "length xs < 2 ^ 32 \<Longrightarrow> xs \<noteq> [] \<Longrightarrow> TxsParser_encode_bytes xs = txs_table xs"
  by (simp add: TxsParser_encode_bytes_def txs_table_def u32_def Let_def)

lemma tx_slice_table:
  assumes xs: "length (concat xs) < 2 ^ 32" "length xs < 2 ^ 32 - 2" and i: "i < length xs" "xs ! i \<noteq> []"
  shows "tx_slice (txs_table xs) (length xs) i = Inr (xs ! i)"
proof -
  let ?d = "txs_table xs" and ?ns = "length xs # tx_offsets 0 xs"
  have off: "Offset_fromBytes (cropped_from ?d (4 + 4 * j)) = Inr (length (concat (take j xs)))"
    if "j \<le> length xs" for j
  proof -
    have "drop (4 + 4 * j) ?d = Offset_toBytes (?ns ! Suc j) @ concat (map Offset_toBytes (drop (Suc (Suc j)) ?ns)) @ concat xs"
      using drop_words [of "Suc j" ?ns "concat xs"] that by (simp only: txs_table_def) simp
    moreover have "?ns ! Suc j = length (concat (take j xs))"
      using tx_offsets_nth [of 0 xs j] xs(1) that by simp
    moreover have "length (concat (take j xs)) < 2 ^ 32"
      using length_concat_take_le [of j xs] xs(1) by linarith
    moreover have "4 + 4 * j \<le> length ?d" using that by (simp add: txs_table_def)
    ultimately show ?thesis by (simp add: cropped_from_def Offset_round_trip del: length_concat)
  qed
  have len: "length ?d = 4 * (length xs + 2) + length (concat xs)" by (simp add: txs_table_def del: length_concat)
  have rest: "cropped_from ?d (8 + 4 * length xs) = concat xs"
    by (simp add: cropped_from_def txs_table_def del: length_concat)
  let ?o = "length (concat (take i xs))"
  have next_o: "length (concat (take (Suc i) xs)) = ?o + length (xs ! i)"
    using length_concat_take [OF i(1)] by simp
  have le: "?o + length (xs ! i) \<le> length (concat xs)"
    using length_concat_take_le [of "Suc i" xs] next_o by simp
  have pos: "0 < length (xs ! i)" using i(2) by simp
  have size: "u32 (int (length (xs ! i))) = length (xs ! i)"
    using le xs(1) by (simp add: u32_def del: length_concat)
  have "cropped (concat xs) ?o (length (xs ! i)) = xs ! i"
    using le concat_slice [OF i(1)] by (simp add: cropped_def del: length_concat)
  moreover have "\<not> length ?d - 4 * (length xs + 2) - 1 < ?o" using len le pos by linarith
  ultimately show ?thesis
    using off [of i] off [of "i + 1"] i(1)
    by (simp add: tx_slice_def Let_def rest size next_o del: length_concat)
qed

section \<open>Blocks survive their encoding\<close>

definition tx_enc :: "Transaction \<Rightarrow> bytes" where
  "tx_enc t = rlp_lst (concat (Transaction_items True t (the (m_vrs t))))"

definition receipt_enc :: "TransactionReceipt \<Rightarrow> bytes" where
  "receipt_enc r = rlp_lst (concat (TransactionReceipt_items r))"

definition sig_enc :: "u256 \<times> h520 \<Rightarrow> bytes" where
  "sig_enc p = rlp_lst (concat [enc_int (unat (fst p)), enc_hash (snd p)])"

lemma tx_enc:
  assumes "Transaction_wire True t"
  shows "Transaction_rlp True t True = Inr (tx_enc t)" "tx_enc t \<noteq> []"
    and "Transaction_decode_bytes cr True (tx_enc t) CheckNone = Inr (t\<lparr>m_rlpBuffer := tx_enc t\<rparr>)"
proof -
  obtain g where g: "m_vrs t = Some g" using assms by (auto simp: Transaction_wire_def)
  show "Transaction_rlp True t True = Inr (tx_enc t)"
    using assms Transaction_encode_items [OF assms g] by (simp add: Transaction_rlp_def Transaction_wire_def tx_enc_def g)
  note item = rlp_item_lst [OF Transaction_items_ok(2) [OF assms], of g]
  then show "tx_enc t \<noteq> []" by (simp add: tx_enc_def g rlp_item_def)
  show "Transaction_decode_bytes cr True (tx_enc t) CheckNone = Inr (t\<lparr>m_rlpBuffer := tx_enc t\<rparr>)"
    using item Transaction_decode_items [OF assms g]
    by (simp add: Transaction_decode_bytes_def tx_enc_def g eth_rlp_def)
qed

lemma res_mapM_comp: "res_mapM f (map g xs) = res_mapM (\<lambda>x. f (g x)) xs"
  by (induction xs) simp_all

lemma res_mapM_Inr: "(\<And>x. x \<in> set xs \<Longrightarrow> f x = Inr (g x)) \<Longrightarrow> res_mapM f xs = Inr (map g xs)"
  by (induction xs) auto

lemma res_mapM_index:
  assumes "\<And>i. i < length xs \<Longrightarrow> f i = Inr (xs ! i)"
  shows "res_mapM f [0..<length xs] = Inr xs"
proof -
  have "res_mapM f (map (\<lambda>i. i) ys) = Inr (map (\<lambda>i. xs ! i) ys)" if "set ys \<subseteq> {..<length xs}" for ys
    using that assms by (induction ys) auto
  from this [of "[0..<length xs]"] show ?thesis by (simp add: map_nth atLeast0LessThan)
qed

lemma TxsParser_table:
  assumes txs: "\<And>t. t \<in> set ts \<Longrightarrow> Transaction_wire True t" and size: "length (concat (map tx_enc ts)) < 2 ^ 32"
    and len: "length ts < 2 ^ 31"
  shows "TxsParser_encode True ts = Inr (if ts = [] then [] else txs_table (map tx_enc ts))"
    and "TxsParser_decode cr True (if ts = [] then [] else txs_table (map tx_enc ts)) CheckNone [] =
      Inr (map (\<lambda>t. t\<lparr>m_rlpBuffer := tx_enc t\<rparr>) ts)"
proof -
  have take: "take (u32 (int (length ts))) ts = ts" using len by (simp add: u32_def)
  have "res_mapM (\<lambda>t. Transaction_rlp True t True) ts = Inr (map tx_enc ts)"
    using txs by (induction ts) (simp_all add: tx_enc)
  then show "TxsParser_encode True ts = Inr (if ts = [] then [] else txs_table (map tx_enc ts))"
    using TxsParser_encode_table [of "map tx_enc ts"] len take
    by (simp add: TxsParser_encode_def) (simp add: TxsParser_encode_bytes_def u32_def)
  show "TxsParser_decode cr True (if ts = [] then [] else txs_table (map tx_enc ts)) CheckNone [] =
      Inr (map (\<lambda>t. t\<lparr>m_rlpBuffer := tx_enc t\<rparr>) ts)"
  proof (cases "ts = []")
    case True
    then show ?thesis by (simp add: TxsParser_decode_def TxsParser_decode_txs_def)
  next
    case False
    let ?xs = "map tx_enc ts" let ?d = "txs_table ?xs"
    have n: "Offset_fromBytes ?d = Inr (length ts)"
      using Offset_round_trip [of "length ts" "concat (map Offset_toBytes (tx_offsets 0 ?xs)) @ concat ?xs"] len
      by (simp add: txs_table_def)
    have "0 < length (concat ?xs)"
      using False tx_enc(2) [OF txs] by (cases ts) auto
    then have d: "4 * (length ts + 2) < length ?d" by (simp add: txs_table_def del: length_concat)
    have nth: "tx_slice ?d (length ts) i = Inr (tx_enc (ts ! i))" if "i < length ts" for i
      using tx_slice_table [of ?xs i] that size len tx_enc(2) [OF txs, of "ts ! i"] by simp
    have "res_mapM (\<lambda>i. res_bind (tx_slice ?d (length ts) i) (\<lambda>b. Transaction_decode_bytes cr True b CheckNone))
        [0..<length (map (\<lambda>t. t\<lparr>m_rlpBuffer := tx_enc t\<rparr>) ts)] = Inr (map (\<lambda>t. t\<lparr>m_rlpBuffer := tx_enc t\<rparr>) ts)"
      by (rule res_mapM_index) (simp add: nth tx_enc(3) txs)
    moreover have "u32 (int (length ts) + 2) = length ts + 2" using len by (simp add: u32_def)
    ultimately have "TxsParser_decode_txs cr True ?d CheckNone [] = Inr (map (\<lambda>t. t\<lparr>m_rlpBuffer := tx_enc t\<rparr>) ts)"
      using n d len by (auto simp: TxsParser_decode_txs_def simp del: res_bind_Inr)
    with False show ?thesis by (simp add: TxsParser_decode_def)
  qed
qed

text \<open>The blocks that the node sends: a valid header, signed transactions, receipts and signatures
  within the sizes of the format, and no cached encoding.\<close>

definition Block_wire :: "Block \<Rightarrow> bool" where
  "Block_wire b \<longleftrightarrow> BlockHeader_wire (m_blockHeader b) \<and> m_number (m_blockHeader b) < 2 ^ 63 - 1 \<and>
     m_gasUsed (m_blockHeader b) \<le> m_gasLimit (m_blockHeader b) \<and>
     list_all (Transaction_wire True) (m_transactions b) \<and>
     length (concat (map tx_enc (m_transactions b))) < 2 ^ 32 \<and> length (m_transactions b) < 2 ^ 29 \<and>
     list_all TransactionReceipt_wire (m_transactionReceipts b) \<and>
     length (concat (map receipt_enc (m_transactionReceipts b))) < 2 ^ 62 \<and>
     length (m_sigList b) < 2 ^ 50 \<and> m_txsCache b = [] \<and> m_tReceiptsCache b = []"

definition Block_items :: "crypto \<Rightarrow> Block \<Rightarrow> bytes \<Rightarrow> bytes list" where
  "Block_items cr b txs =
     [rlp_lst (concat (BlockHeader_items (m_blockHeader b))), rlp_str txs,
      enc_hash (BlockHeader_hash cr (m_blockHeader b)), enc_vec sig_enc (m_sigList b),
      enc_vec receipt_enc (m_transactionReceipts b)]"

lemma writes_raw: "writes (\<lambda>w. w) (append_raw1 e) e"
  by (simp add: writes_def append_raw1_def appendRaw_def)

lemma writes_raw_each: "writes append_raw1 e e"
  by (simp add: writes_def append_raw1_def appendRaw_def)

lemma sig_items:
  "list_all rlp_item [enc_int (unat (i :: u256)), enc_hash (g :: h520)]"
  "length (concat [enc_int (unat (i :: u256)), enc_hash (g :: h520)]) \<le> 115"
  using length_enc_int [OF bytesRequired_u256, of i] length_enc_hash [of g]
  by (simp_all add: rlp_item_int rlp_item_hash bytesRequired_u256)

lemma sig_size: "rlp_size_ok (length (concat [enc_int (unat (i :: u256)), enc_hash (g :: h520)]))"
  using sig_items(2) [of i g] by (simp add: rlp_size_ok_def)

lemma sig_writes: "writes append_sig p (sig_enc p)"
proof -
  have "list_all2 (writes (\<lambda>w. w)) [append_u256 (fst p), append_hash (snd p)]
      [enc_int (unat (fst p)), enc_hash (snd p)]"
    by (simp add: writes_u256 writes_hash_field)
  from writes_list [OF this sig_size] show ?thesis
    by (simp add: writes_def append_sig_def sig_enc_def numeral_2_eq_2)
qed

lemma sig_item: "rlp_item (sig_enc p)"
  unfolding sig_enc_def by (rule rlp_item_lst [OF sig_size])

lemma length_sig_enc: "length (sig_enc p) \<le> 124"
  using length_rlp_lst_le [OF sig_size [of "fst p" "snd p"]] sig_items(2) [of "fst p" "snd p"]
  by (simp only: sig_enc_def)

lemma length_sigs: "length (concat (map sig_enc ps)) \<le> 124 * length ps"
proof (induction ps)
  case (Cons p ps)
  then show ?case using length_sig_enc [of p] by simp
qed simp

lemma rlp_toInt_lax:
  assumes "v < 256 ^ m" "m < 56"
  shows "rlp_toInt (Some m) (rlp_str (toCompactBigEndian v 0)) LaissezFaire = Inr v"
proof -
  have br: "bytesRequired v \<le> m" using assms(1) by (simp add: bytesRequired_le_iff)
  then have ok: "rlp_size_ok (length (toCompactBigEndian v 0))"
    using assms(2) by (simp add: rlp_size_ok_def)
  have "\<not> rlp_isList (rlp_str (toCompactBigEndian v 0))" using ok by (rule rlp_str_not_list)
  then show ?thesis
    using rlp_str_read(1) [OF ok, of "[]"] rlp_isInt_compact [of v] br assms ok
    by (simp add: rlp_toInt_def rlp_isNull_def LaissezFaire_def fromBigEndian_toCompactBigEndian)
qed

lemma as_sig_enc: "as_sig (sig_enc p) LaissezFaire = Inr p"
proof -
  obtain i g where p: "p = (i, g)" by (cases p)
  let ?es = "[enc_int (unat i), enc_hash g]"
  have lst: "rlp_isList (rlp_lst (concat ?es))" using rlp_lst_read(3) [OF sig_size, of i g "[]"] by simp
  have n: "rlp_items (rlp_lst (concat ?es)) = Inr 2"
    using lst sig_size [of i g] rlp_items_loop_items [OF sig_items(1), of i g 0] by (simp add: rlp_items_def)
  note get = field_lst [OF sig_size sig_items(1), of _ i g]
  have "rlp_toInt (Some 32) (enc_int (unat i)) LaissezFaire = Inr (unat i)"
    unfolding enc_int_def by (rule rlp_toInt_lax [OF u256_bytes]) simp
  with lst n show ?thesis
    by (simp add: p as_sig_def sig_enc_def get del: concat.simps res_bind_Inr)
qed

lemma decode_items_enc:
  assumes "rlp_size_ok (length (concat (map enc xs)))" "\<And>x. x \<in> set xs \<Longrightarrow> rlp_item (enc x)"
    and "\<And>i. i < length xs \<Longrightarrow> f i (enc (xs ! i)) = Inr (xs ! i)"
  shows "decode_items f (enc_vec enc xs) = Inr xs"
proof -
  have items: "list_all rlp_item (map enc xs)" using assms(2) by (auto simp: list_all_iff)
  have "rlp_itemCount (enc_vec enc xs) = Inr (length xs)"
    using assms(1) items rlp_lst_read(3) [OF assms(1), of "[]"] rlp_items_loop_items [OF items, of 0]
    by (simp add: rlp_itemCount_def rlp_items_def enc_vec_def)
  moreover have "rlp_nth (enc_vec enc xs) i = Inr (enc (xs ! i))" if "i < length xs" for i
    using rlp_nth_lst [OF assms(1) items] that by (simp add: enc_vec_def)
  ultimately show ?thesis
    using assms(3) by (simp add: decode_items_def eth_rlp_def res_mapM_index del: res_bind_Inr)
qed

lemma receipt_enc:
  assumes "TransactionReceipt_wire r"
  shows "TransactionReceipt_encode r = Inr (receipt_enc r)" "rlp_item (receipt_enc r)"
    and "TransactionReceipt_decode (receipt_enc r) TransactionReceipt_new = Inr r"
proof -
  note ok = TransactionReceipt_items_ok [OF assms]
  show "TransactionReceipt_encode r = Inr (receipt_enc r)" using ok(3) by (simp add: receipt_enc_def)
  show "rlp_item (receipt_enc r)"
    unfolding receipt_enc_def by (rule rlp_item_lst) (use ok(2) in \<open>simp add: rlp_size_ok_def\<close>)
  show "TransactionReceipt_decode (receipt_enc r) TransactionReceipt_new = Inr r"
    using TransactionReceipt_decode_items [OF assms] by (simp add: receipt_enc_def)
qed

text \<open>The caches that \<open>encode\<close> fills, and the block with them.\<close>

definition txs_bytes :: "Transaction list \<Rightarrow> bytes" where
  "txs_bytes ts = (if ts = [] then [] else txs_table (map tx_enc ts))"

definition cached :: "crypto \<Rightarrow> Block \<Rightarrow> Block" where
  "cached cr b =
     b\<lparr>m_txsCache := txs_bytes (m_transactions b), m_transRootCache := sha3 cr (txs_bytes (m_transactions b)),
       m_tReceiptsCache := enc_vec receipt_enc (m_transactionReceipts b),
       m_receiptRootCache := sha3 cr (enc_vec receipt_enc (m_transactionReceipts b))\<rparr>"

lemma length_txs_bytes:
  "length (txs_bytes ts) \<le> 4 * (length ts + 2) + length (concat (map tx_enc ts))"
  by (simp add: txs_bytes_def txs_table_def del: length_concat)

lemma Block_caches:
  assumes wire: "Block_wire b"
  shows "res_bind (calTransactionRoot cr True False b) (calReceiptRoot cr True False) = Inr (cached cr b)"
proof -
  have ts: "\<And>t. t \<in> set (m_transactions b) \<Longrightarrow> Transaction_wire True t"
    and rs: "\<And>r. r \<in> set (m_transactionReceipts b) \<Longrightarrow> TransactionReceipt_wire r"
    using wire by (auto simp: Block_wire_def list_all_iff)
  have "TxsParser_encode True (m_transactions b) = Inr (txs_bytes (m_transactions b))"
    using TxsParser_table(1) [OF ts] wire by (simp add: Block_wire_def txs_bytes_def del: length_concat)
  then have 1: "calTransactionRoot cr True False b = Inr (b\<lparr>m_txsCache := txs_bytes (m_transactions b),
      m_transRootCache := sha3 cr (txs_bytes (m_transactions b))\<rparr>)"
    using wire by (simp add: calTransactionRoot_def calTransactionRootRC2_def set_roots_if_def Block_wire_def
        del: res_bind_Inr)
  let ?r = "enc_vec receipt_enc (m_transactionReceipts b)"
  have "res_mapM TransactionReceipt_encode (m_transactionReceipts b) = Inr (map receipt_enc (m_transactionReceipts b))"
    using receipt_enc(1) [OF rs] by (rule res_mapM_Inr)
  moreover have "receipts_list (map receipt_enc (m_transactionReceipts b)) = Inr ?r"
  proof -
    have raw: "list_all2 (writes append_raw1) (map receipt_enc (m_transactionReceipts b)) (map receipt_enc (m_transactionReceipts b))"
      by (simp add: list.rel_refl_strong writes_raw_each)
    have "rlp_size_ok (length (concat (map receipt_enc (m_transactionReceipts b))))"
      using wire by (simp add: Block_wire_def size_ok_62 del: length_concat)
    from writes_new [OF append_list_writes [OF raw this]] show ?thesis
      by (simp add: receipts_list_def RLPStream_out_def eth_rlp_def enc_vec_def del: res_bind_Inr res_bind_assoc)
  qed
  ultimately have 2: "calReceiptRoot cr True False (b\<lparr>m_txsCache := txs_bytes (m_transactions b),
      m_transRootCache := sha3 cr (txs_bytes (m_transactions b))\<rparr>) = Inr (cached cr b)"
    using wire by (simp add: calReceiptRoot_def calReceiptRootRC2_def encode_receipts_def eth_rlp_def
        set_roots_if_def Block_wire_def cached_def del: res_bind_Inr)
  show ?thesis by (simp only: 1 2 res_bind_simps)
qed

lemma Block_items_ok:
  assumes wire: "Block_wire b"
  shows "list_all rlp_item (Block_items cr b (txs_bytes (m_transactions b)))" (is ?items)
    and "rlp_size_ok (length (concat (Block_items cr b (txs_bytes (m_transactions b)))))" (is ?size)
    and "list_all2 (writes (\<lambda>w. w)) (Block_fields cr True (rlp_lst (concat (BlockHeader_items (m_blockHeader b)))) (cached cr b))
      (Block_items cr b (txs_bytes (m_transactions b)))" (is ?writes)
proof -
  have hdr: "length (concat (BlockHeader_items (m_blockHeader b))) < 2 ^ 62"
    using wire BlockHeader_items_ok(4) by (simp add: Block_wire_def del: length_concat)
  have txs: "length (txs_bytes (m_transactions b)) < 2 ^ 60"
    using wire length_txs_bytes [of "m_transactions b"] by (simp add: Block_wire_def del: length_concat)
  have sigs: "length (concat (map sig_enc (m_sigList b))) < 2 ^ 60"
    using wire length_sigs [of "m_sigList b"] by (simp add: Block_wire_def del: length_concat)
  have rs: "length (concat (map receipt_enc (m_transactionReceipts b))) < 2 ^ 62"
    using wire by (simp add: Block_wire_def del: length_concat)
  show ?items
    using hdr txs sigs rs
    by (simp add: Block_items_def enc_vec_def rlp_item_lst rlp_item_str rlp_item_hash size_ok_60 size_ok_62
        del: length_concat)
  have "writes (\<lambda>w. w) (appendVector append_sig (m_sigList b)) (enc_vec sig_enc (m_sigList b))"
    using appendVector_writes [of "m_sigList b" append_sig sig_enc, OF sig_writes size_ok_60 [OF sigs]]
    by (simp add: enc_vec_def writes_def)
  then show ?writes
    using txs by (simp add: Block_fields_def Block_items_def cached_def writes_raw writes_data writes_hash_field
        size_ok_60)
  have "length (rlp_lst (concat (BlockHeader_items (m_blockHeader b)))) \<le> 2 ^ 62 + 9"
    "length (enc_vec receipt_enc (m_transactionReceipts b)) \<le> 2 ^ 62 + 9"
    "length (enc_vec sig_enc (m_sigList b)) \<le> 2 ^ 60 + 9"
    "length (rlp_str (txs_bytes (m_transactions b))) \<le> 2 ^ 60 + 9"
    using length_rlp_lst_le [OF size_ok_62 [OF hdr]] length_rlp_lst_le [OF size_ok_62 [OF rs]]
      length_rlp_lst_le [OF size_ok_60 [OF sigs]] length_rlp_str_le [OF size_ok_60 [OF txs]] hdr rs sigs txs
    by (simp_all add: enc_vec_def del: length_concat)
  then show ?size
    using length_enc_hash [of "BlockHeader_hash cr (m_blockHeader b)"]
    by (simp add: Block_items_def rlp_size_ok_def del: length_concat)
qed

lemma Block_encode_items:
  assumes wire: "Block_wire b"
  shows "Block_encode cr True b =
    Inr (rlp_lst (concat (Block_items cr b (txs_bytes (m_transactions b)))), cached cr b)"
proof -
  have v: "BlockHeader_verify cr False BlockHeader_new (m_blockHeader b) = Inr ()"
    using wire by (simp add: Block_wire_def BlockHeader_wire_def BlockHeader_verify_def BlockHeader_bool_def
        BlockHeader_new_def not_less)
  have h: "BlockHeader_encode (m_blockHeader (cached cr b)) = Inr (rlp_lst (concat (BlockHeader_items (m_blockHeader b))))"
    using wire BlockHeader_encode_items [of "m_blockHeader b"] by (simp add: Block_wire_def cached_def)
  have n: "length (Block_fields cr True (rlp_lst (concat (BlockHeader_items (m_blockHeader b)))) (cached cr b)) = 5"
    by (simp add: Block_fields_def)
  note run = stream_list [OF Block_items_ok(3,2) [OF wire], of cr, unfolded n]
  have "Block_encode cr True b =
      res_bind (res_bind (calTransactionRoot cr True False b) (calReceiptRoot cr True False)) (\<lambda>b.
      res_bind (eth_rlp (BlockHeader_encode (m_blockHeader b))) (\<lambda>headerData.
      res_bind (eth_rlp (res_bind (res_bind (appendList 5 RLPStream_new)
        (stream (Block_fields cr True headerData b))) RLPStream_out)) (\<lambda>out. Inr (out, b))))"
    by (simp add: Block_encode_def v)
  also have "\<dots> = Inr (rlp_lst (concat (Block_items cr b (txs_bytes (m_transactions b)))), cached cr b)"
    by (simp only: Block_caches [OF wire] res_bind_simps h eth_rlp_def map_sum.simps run id_apply)
  finally show ?thesis .
qed

lemma Block_decode_items:
  assumes wire: "Block_wire b"
  shows "Block_decode cr True (rlp_lst (concat (Block_items cr b (txs_bytes (m_transactions b))))) CheckNone True Block_new =
    Inr (Block_new\<lparr>m_blockHeader := m_blockHeader b,
      m_transactions := map (\<lambda>t. t\<lparr>m_rlpBuffer := tx_enc t\<rparr>) (m_transactions b),
      m_txsCache := txs_bytes (m_transactions b), m_transactionReceipts := m_transactionReceipts b,
      m_sigList := m_sigList b\<rparr>)"
proof -
  let ?es = "Block_items cr b (txs_bytes (m_transactions b))"
  let ?d = "rlp_lst (concat ?es)"
  note ok = Block_items_ok [OF wire, of cr]
  have h: "BlockHeader_wire (m_blockHeader b)" using wire by (simp add: Block_wire_def)
  have len: "length ?es = 5" by (simp add: Block_items_def)
  note get = field_lst [OF ok(2,1), unfolded len] rlp_nth_lst [OF ok(2,1), unfolded len]
  have items: "?es ! 0 = rlp_lst (concat (BlockHeader_items (m_blockHeader b)))"
    "?es ! Suc 0 = rlp_str (txs_bytes (m_transactions b))"
    "?es ! 2 = enc_hash (BlockHeader_hash cr (m_blockHeader b))"
    "?es ! 3 = enc_vec sig_enc (m_sigList b)" "?es ! 4 = enc_vec receipt_enc (m_transactionReceipts b)"
    by (simp_all add: Block_items_def)
  have txs: "rlp_size_ok (length (txs_bytes (m_transactions b)))"
    using wire length_txs_bytes [of "m_transactions b"] by (simp add: Block_wire_def rlp_size_ok_def del: length_concat)
  have "rlp_isList ?d" "rlp_isList (rlp_lst (concat (BlockHeader_items (m_blockHeader b))))"
    using rlp_lst_read(3) [OF ok(2), of "[]"] rlp_lst_read(3) [OF BlockHeader_items_ok(2) [OF h], of "[]"] by simp_all
  then have ex: "extractBlock ?d = Inr ?d"
    using rlp_item_lst [OF ok(2)] by (simp add: extractBlock_def get items eth_rlp_def)
  have dec: "TxsParser_decode cr True (txs_bytes (m_transactions b)) CheckNone [] =
      Inr (map (\<lambda>t. t\<lparr>m_rlpBuffer := tx_enc t\<rparr>) (m_transactions b))"
    using TxsParser_table(2) [of "m_transactions b" cr] wire
    by (simp add: txs_bytes_def Block_wire_def list_all_iff del: length_concat)
  have sigs: "rlp_toVector as_sig (enc_vec sig_enc (m_sigList b)) LaissezFaire = Inr (m_sigList b)"
    using wire length_sigs [of "m_sigList b"]
    by (intro rlp_toVector_enc sig_item as_sig_enc) (simp add: Block_wire_def rlp_size_ok_def del: length_concat)
  have rs: "decode_items (\<lambda>i x. TransactionReceipt_decode x (receipt_at Block_new i))
      (enc_vec receipt_enc (m_transactionReceipts b)) = Inr (m_transactionReceipts b)"
    using wire by (intro decode_items_enc)
      (auto simp: Block_wire_def list_all_iff receipt_at_def Block_new_def receipt_enc size_ok_62 simp del: length_concat)
  have new: "m_transactions Block_new = []" by (simp add: Block_new_def)
  show ?thesis
    using txs sigs dec by (simp add: Block_decode_def Block_decodeRC2_def ex new BlockHeader_populate_items [OF h]
        eth_field_def get items eth_rlp_def rs del: res_bind_Inr res_bind_assoc)
qed

section \<open>Reading the offset table stays in bounds\<close>

definition memory_error :: "eth_exn \<Rightarrow> bool" where
  "memory_error e \<longleftrightarrow> e = BadAlloc \<or> e = OutOfBounds"

lemma res_bind_Inl: "res_bind m f = Inl e \<longleftrightarrow> m = Inl e \<or> (\<exists>x. m = Inr x \<and> f x = Inl e)"
  by (simp add: res_bind_def split: sum.splits)

lemma eth_rlp_no_memory_error: "eth_rlp r = Inl e \<Longrightarrow> \<not> memory_error e"
  by (cases r) (auto simp: eth_rlp_def memory_error_def)

lemma Transaction_encode_no_memory_error:
  "Transaction_encode rc2 t w = Inl e \<Longrightarrow> \<not> memory_error e"
  by (auto simp: Transaction_encode_def memory_error_def Let_def split: if_splits
      dest!: eth_rlp_no_memory_error)

lemma Transaction_sender_no_memory_error:
  "Transaction_sender cr rc2 t = Inl e \<Longrightarrow> \<not> memory_error e"
  by (auto simp: Transaction_sender_def Transaction_sha3_def memory_error_def Let_def res_bind_Inl
      split: if_splits option.splits dest: Transaction_encode_no_memory_error [unfolded memory_error_def])

lemma Transaction_decode_no_memory_error:
  "Transaction_decode cr rc2 d c = Inl e \<Longrightarrow> \<not> memory_error e"
  unfolding Transaction_decode_def Let_def
  by (auto simp: res_bind_Inl eth_field_def split: if_splits prod.splits
      dest!: eth_rlp_no_memory_error Transaction_sender_no_memory_error simp: memory_error_def)

lemma Transaction_decode_bytes_no_memory_error:
  "Transaction_decode_bytes cr rc2 d c = Inl e \<Longrightarrow> \<not> memory_error e"
  unfolding Transaction_decode_bytes_def
  by (auto simp: res_bind_Inl dest: eth_rlp_no_memory_error Transaction_decode_no_memory_error)

lemma res_mapM_Inl: "res_mapM f xs = Inl e \<Longrightarrow> \<exists>x\<in>set xs. f x = Inl e"
  by (induction xs) (auto simp: res_bind_Inl)

lemma Offset_fromBytes_in_bounds: "4 \<le> length d \<Longrightarrow> \<exists>n. Offset_fromBytes d = Inr n \<and> n < 2 ^ 32"
proof -
  assume "4 \<le> length d"
  then obtain a b c e r where d: "d = a # b # c # e # r"
    by (auto simp: numeral_eq_Suc Suc_le_length_iff)
  have "unat x \<le> 255" for x :: byte using byte_less_256 [of x] by linarith
  from this [of a] this [of b] this [of c] this [of e] show ?thesis
    by (simp add: d Offset_fromBytes_def)
qed

lemma tx_slice_in_bounds:
  assumes "i < n" "4 * (n + 2) < length d"
  shows "tx_slice d n i \<noteq> Inl OutOfBounds" "tx_slice d n i \<noteq> Inl BadAlloc"
proof -
  have "4 \<le> length (cropped_from d (4 + 4 * i))" "4 \<le> length (cropped_from d (4 + 4 * (i + 1)))"
    using assms by (simp_all add: cropped_from_def)
  from Offset_fromBytes_in_bounds [OF this(1)] Offset_fromBytes_in_bounds [OF this(2)]
  obtain a b where "Offset_fromBytes (cropped_from d (4 + 4 * i)) = Inr a"
    "Offset_fromBytes (cropped_from d (4 + 4 * (i + 1))) = Inr b" by blast
  then show "tx_slice d n i \<noteq> Inl OutOfBounds" "tx_slice d n i \<noteq> Inl BadAlloc"
    by (simp_all add: tx_slice_def Let_def)
qed

lemma TxsParser_memory:
  assumes "4 \<le> length d" "Offset_fromBytes d = Inr n"
  shows "TxsParser_decode cr rc2 d c old \<noteq> Inl OutOfBounds"
    and "TxsParser_decode cr rc2 d c old = Inl BadAlloc \<longleftrightarrow>
      n = 2 ^ 32 - 2 \<or> n = 2 ^ 32 - 1 \<and> 4 < length d"
proof -
  have n: "n < 2 ^ 32" using Offset_fromBytes_in_bounds [OF assms(1)] assms(2) by auto
  have d: "d \<noteq> []" using assms(1) by auto
  let ?run = "res_mapM (\<lambda>i. res_bind (tx_slice d n i) (\<lambda>b. Transaction_decode_bytes cr rc2 b c)) [0..<n]"
  have ok: "\<not> memory_error e" if "?run = Inl e" "4 * (n + 2) < length d" for e
  proof -
    from res_mapM_Inl [OF that(1)] obtain i where "i < n"
      "res_bind (tx_slice d n i) (\<lambda>b. Transaction_decode_bytes cr rc2 b c) = Inl e" by auto
    with tx_slice_in_bounds [OF _ that(2), of i] show ?thesis
      by (auto simp: res_bind_Inl memory_error_def
          dest: Transaction_decode_bytes_no_memory_error [unfolded memory_error_def])
  qed
  have small: "u32 (int n + 2) = n + 2" if "\<not> 2 ^ 32 - 2 \<le> n" using that by (simp add: u32_def)
  have big: "u32 (int n + 2) = n + 2 - 2 ^ 32" if "2 ^ 32 - 2 \<le> n"
  proof -
    have "(int n + 2) mod 2 ^ 32 = (int n + 2 - 2 ^ 32) mod 2 ^ 32" by (rule minus_mod_self2 [symmetric])
    also have "\<dots> = int n + 2 - 2 ^ 32" using that n by (intro mod_pos_pos_trivial) auto
    finally show ?thesis using that by (simp add: u32_def)
  qed
  have eq: "TxsParser_decode_txs cr rc2 d c old =
      (if length d \<le> 4 * u32 (int n + 2) then Inl InvalidBlockFormat
       else if 2 ^ 32 - 2 \<le> n then Inl BadAlloc else ?run)"
    using assms d by (simp add: TxsParser_decode_txs_def)
  show "TxsParser_decode cr rc2 d c old \<noteq> Inl OutOfBounds"
    "TxsParser_decode cr rc2 d c old = Inl BadAlloc \<longleftrightarrow>
      n = 2 ^ 32 - 2 \<or> n = 2 ^ 32 - 1 \<and> 4 < length d"
    using ok n small big assms(1)
    by (auto simp: TxsParser_decode_def eq memory_error_def split: sum.splits)
qed

lemma TxsParser_short: "0 < length d \<Longrightarrow> length d < 4 \<Longrightarrow> TxsParser_decode cr rc2 d c old = Inl OutOfBounds"
  by (auto simp: TxsParser_decode_def TxsParser_decode_txs_def Offset_fromBytes_def split: list.splits)

lemma tx_enc_length:
  assumes "Transaction_wire True t"
  shows "length (tx_enc t) \<le> length (m_txData t) + length (m_txExtraData t) + 500"
proof -
  obtain g where g: "m_vrs t = Some g" using assms by (auto simp: Transaction_wire_def)
  note size = Transaction_items_ok(2) [OF assms, of g]
  have d: "rlp_size_ok (length (m_txData t))" "rlp_size_ok (length (m_txExtraData t))"
    using assms by (auto simp: Transaction_wire_def intro: size_ok_60)
  have "length (enc_int (unat x)) \<le> 41" for x :: u256 by (simp add: length_enc_int bytesRequired_u256)
  note this [of "m_nonce t"] this [of "m_gasPrice t"] this [of "m_gas t"] this [of "m_blockLimit t"]
    this [of "m_value t"] this [of "m_chainId t"] this [of "m_groupId t"] this [of "sig_r g"] this [of "sig_s g"]
  moreover have "length (enc_int (unat (sig_v g + 27))) \<le> 41"
    by (simp add: length_enc_int bytesRequired_byte)
  moreover have "length (enc_hash (m_receiveAddress t)) \<le> 41" "length (rlp_str []) \<le> 41"
    using length_enc_hash [of "m_receiveAddress t"] by (simp_all add: rlp_str_def rlp_hdr_def)
  ultimately have "length (concat (Transaction_items True t g)) \<le> length (m_txData t) + length (m_txExtraData t) + 491"
    using length_rlp_str_le [OF d(1)] length_rlp_str_le [OF d(2)] by (simp add: Transaction_items_def)
  with length_rlp_lst_le [OF size] show ?thesis by (simp add: tx_enc_def g del: length_concat)
qed

section \<open>Properties\<close>

text \<open>C23: block round trip. A block that the node sends in the RC2 format is decoded to a block with
  the same header, transactions, receipts and signatures; each transaction keeps the bytes it was
  decoded from, and the cache of the encoded transactions is filled.\<close>

theorem block_round_trip:
  assumes "Block_wire b"
  shows "res_bind (Block_encode cr True b) (\<lambda>(out, b'). Block_decode cr True out CheckNone True Block_new) =
    Inr (Block_new\<lparr>m_blockHeader := m_blockHeader b,
      m_transactions := map (\<lambda>t. t\<lparr>m_rlpBuffer := tx_enc t\<rparr>) (m_transactions b),
      m_txsCache := txs_bytes (m_transactions b), m_transactionReceipts := m_transactionReceipts b,
      m_sigList := m_sigList b\<rparr>)"
  by (simp add: Block_encode_items [OF assms] Block_decode_items [OF assms] del: res_bind_Inr)

text \<open>Witness for the block round trip: one transaction, one signature.\<close>

theorem block_round_trip_witness:
  "\<exists>b cr. Block_wire b \<and> length (m_transactions b) = 1 \<and>
    res_bind (Block_encode cr True b) (\<lambda>(out, b'). Block_decode cr True out CheckNone True Block_new) =
    Inr (Block_new\<lparr>m_blockHeader := m_blockHeader b,
      m_transactions := map (\<lambda>t. t\<lparr>m_rlpBuffer := tx_enc t\<rparr>) (m_transactions b),
      m_txsCache := txs_bytes (m_transactions b), m_transactionReceipts := m_transactionReceipts b,
      m_sigList := m_sigList b\<rparr>)"
proof -
  let ?t = "null_transaction\<lparr>m_type := MessageCall, m_nonce := 4, m_receiveAddress := 9,
    m_txData := [7], m_vrs := Some \<lparr>sig_r = 1, sig_s = 2, sig_v = 0\<rparr>\<rparr>"
  let ?b = "Block_new\<lparr>m_transactions := [?t], m_sigList := [(0, 5)]\<rparr>"
  have t: "Transaction_wire True ?t" by (simp add: Transaction_wire_def null_transaction_def)
  have "length (tx_enc ?t) \<le> 501" using tx_enc_length [OF t] by (simp add: null_transaction_def)
  with t have wire: "Block_wire ?b"
    by (simp add: Block_wire_def Block_new_def BlockHeader_wire_def BlockHeader_new_def)
  show ?thesis
    by (rule exI [of _ ?b], rule exI [of _ "\<lparr>sha3 = \<lambda>b. 1, recover = \<lambda>g h. 1, sign = \<lambda>k h. 1, verify = \<lambda>k g h. True\<rparr>"],
        intro conjI block_round_trip wire) simp
qed

text \<open>C24: the decoder does not look at the transactions root. A block is accepted, with the same
  transactions, whatever root its header carries, so the header and its hash do not bind the
  transactions that were received with it.\<close>

theorem block_root_unchecked:
  assumes "Block_wire b" "b' = b\<lparr>m_blockHeader := (m_blockHeader b)\<lparr>m_transactionsRoot := root\<rparr>\<rparr>"
  shows "\<exists>out c. Block_encode cr True b' = Inr (out, c) \<and>
    map_sum id (\<lambda>x. (m_transactionsRoot (m_blockHeader x), m_transactions x))
      (Block_decode cr True out CheckNone True Block_new) =
    Inr (root, map (\<lambda>t. t\<lparr>m_rlpBuffer := tx_enc t\<rparr>) (m_transactions b))"
proof -
  have "Block_wire b'" using assms by (simp add: Block_wire_def BlockHeader_wire_def del: length_concat)
  from Block_encode_items [OF this, of cr] Block_decode_items [OF this, of cr] assms(2) show ?thesis
    by (auto simp del: concat.simps length_concat)
qed

text \<open>Witness: an empty block with the root 77.\<close>

theorem block_root_unchecked_witness:
  "\<exists>out c. Block_encode \<lparr>sha3 = \<lambda>b. 1, recover = \<lambda>g h. 1, sign = \<lambda>k h. 1, verify = \<lambda>k g h. True\<rparr> True
      (Block_new\<lparr>m_blockHeader := BlockHeader_new\<lparr>m_transactionsRoot := 77\<rparr>\<rparr>) = Inr (out, c) \<and>
    map_sum id (\<lambda>x. (m_transactionsRoot (m_blockHeader x), m_transactions x))
      (Block_decode \<lparr>sha3 = \<lambda>b. 1, recover = \<lambda>g h. 1, sign = \<lambda>k h. 1, verify = \<lambda>k g h. True\<rparr> True out CheckNone True Block_new) =
    Inr (77, [])"
  using block_root_unchecked [of Block_new "Block_new\<lparr>m_blockHeader := BlockHeader_new\<lparr>m_transactionsRoot := 77\<rparr>\<rparr>" 77
      "\<lparr>sha3 = \<lambda>b. 1, recover = \<lambda>g h. 1, sign = \<lambda>k h. 1, verify = \<lambda>k g h. True\<rparr>"]
  by (simp add: Block_wire_def Block_new_def BlockHeader_wire_def BlockHeader_new_def)


text \<open>C27: the check of the number of transactions wraps. For an input that starts with the number
  \<open>n\<close> and has more bytes, the decoder tries to make room for \<open>n\<close> transactions that the input
  cannot hold exactly when \<open>n\<close> is one of the two largest numbers of 32 bits.\<close>

theorem txs_parser_count_wraps:
  assumes "n < 2 ^ 32" "rest \<noteq> []"
  shows "TxsParser_decode cr rc2 (Offset_toBytes n @ rest) c old = Inl BadAlloc \<longleftrightarrow> 2 ^ 32 - 2 \<le> n"
  using TxsParser_memory(2) [of "Offset_toBytes n @ rest" n cr rc2 c old] Offset_round_trip [OF assms(1), of rest] assms
  by auto

text \<open>Witness: five bytes make the node allocate 4294967294 transactions.\<close>

theorem txs_parser_count_wraps_witness:
  "TxsParser_decode \<lparr>sha3 = \<lambda>b. 1, recover = \<lambda>g h. 1, sign = \<lambda>k h. 1, verify = \<lambda>k g h. True\<rparr> True
    [0xfe, 0xff, 0xff, 0xff, 0] Everything [] = Inl BadAlloc"
  using txs_parser_count_wraps [of "2 ^ 32 - 2" "[0]" "\<lparr>sha3 = \<lambda>b. 1, recover = \<lambda>g h. 1, sign = \<lambda>k h. 1, verify = \<lambda>k g h. True\<rparr>"
      True Everything "[]"]
  by (simp add: Offset_toBytes_def)

end
