(* ===== verification/PBFT_Types.thy ===== *)
theory PBFT_Types
  imports Block_Codec
begin

text \<open>
  libconsensus/pbft/Common.h and libconsensus/Common.h: the messages of the consensus
  protocol and their wire format.

  \<open>PBFTMsg\<close> is the base of all requests; sign, commit and view change requests add no field,
  and \<open>PrepareReq\<close> extends it with the block. The RLP writer has no overload for
  \<open>int64_t\<close>: \<open>height\<close> and \<open>view\<close> go through \<open>append(unsigned)\<close>, the best match among its
  overloads, so they are written modulo \<open>2^32\<close>. The lemmas state what the receiver
  decodes for every message, and that the request constructors fill and sign the fields
  they should.
\<close>

section \<open>Definitions\<close>

definition MAXIDX :: nat where "MAXIDX = 65535"
definition MAXVIEW :: int where "MAXVIEW = 2 ^ 63 - 1"
definition MAXTTL :: nat where "MAXTTL = 2"

definition PrepareReqPacket :: nat where "PrepareReqPacket = 0"
definition SignReqPacket :: nat where "SignReqPacket = 1"
definition CommitReqPacket :: nat where "CommitReqPacket = 2"
definition ViewChangeReqPacket :: nat where "ViewChangeReqPacket = 3"

record KeyPair =
  kp_secret :: h256
  kp_pub :: h512

record PBFTMsgPacket =
  node_idx :: nat
  node_id :: h512
  packet_id :: nat
  ttl :: nat
  pkt_data :: bytes
  pkt_timestamp :: u256
  endpoint :: string

definition PBFTMsgPacket_new :: "nat \<Rightarrow> PBFTMsgPacket" where
  "PBFTMsgPacket_new now = \<lparr>node_idx = 0, node_id = 0, packet_id = 0, ttl = MAXTTL, pkt_data = [],
     pkt_timestamp = word_of_nat now, endpoint = []\<rparr>"

record PBFTMsg =
  height :: int
  view :: int
  idx :: nat
  timestamp :: u256
  block_hash :: h256
  sig :: h520
  sig2 :: h520

text \<open>\<open>p_execContext\<close> is a shared pointer to the result of an execution: its identity.\<close>

record PrepareReq = PBFTMsg +
  block :: bytes
  pBlock :: "Block option"
  p_execContext :: "nat option"

definition PBFTMsg_new :: PBFTMsg where
  "PBFTMsg_new = \<lparr>height = - 1, view = MAXVIEW, idx = MAXIDX, timestamp = Invalid256,
     block_hash = 0, sig = 0, sig2 = 0\<rparr>"

definition PrepareReq_new :: PrepareReq where
  "PrepareReq_new = \<lparr>height = - 1, view = MAXVIEW, idx = MAXIDX, timestamp = Invalid256,
     block_hash = 0, sig = 0, sig2 = 0, block = [], pBlock = None, p_execContext = None\<rparr>"

text \<open>\<open>clear()\<close> is a method of the base class: the block of a prepare request stays.\<close>

definition PBFTMsg_clear :: "'a PBFTMsg_scheme \<Rightarrow> 'a PBFTMsg_scheme" where
  "PBFTMsg_clear m = m\<lparr>height := - 1, view := MAXVIEW, idx := MAXIDX, timestamp := Invalid256,
     block_hash := 0, sig := 0, sig2 := 0\<rparr>"

subsection \<open>Wire format\<close>

text \<open>\<open>encode\<close>: the fields are streamed and the result is the one string of a list.\<close>

definition wrap_fields :: "(RLPStream \<Rightarrow> rlp_exn + RLPStream) list \<Rightarrow> rlp_exn + bytes" where
  "wrap_fields ws =
     res_bind (res_bind (stream ws RLPStream_new) RLPStream_out) (\<lambda>b.
       res_bind (res_bind (appendList 1 RLPStream_new) (stream [append_data b])) RLPStream_out)"

definition unwrap_fields :: "bytes \<Rightarrow> nat \<Rightarrow> rlp_exn + bytes" where
  "unwrap_fields d index = res_bind (RLP_make d VeryStrict) (\<lambda>r. rlp_nth r index)"

definition PBFTMsgPacket_encode :: "PBFTMsgPacket \<Rightarrow> rlp_exn + bytes" where
  "PBFTMsgPacket_encode p =
     wrap_fields [append_unsigned (packet_id p), append_unsigned (ttl p), append_data (pkt_data p)]"

definition PBFTMsgPacket_decode :: "bytes \<Rightarrow> PBFTMsgPacket \<Rightarrow> rlp_exn + PBFTMsgPacket" where
  "PBFTMsgPacket_decode d p =
     res_bind (unwrap_fields d 0) (\<lambda>r.
     res_bind (field (\<lambda>i. rlp_toInt (Some 1) i Strict) r 0) (\<lambda>pid.
     res_bind (field (\<lambda>i. rlp_toInt (Some 1) i Strict) r 1) (\<lambda>t.
     res_bind (field as_bytes r 2) (\<lambda>b.
     Inr (p\<lparr>packet_id := pid, ttl := t, pkt_data := b\<rparr>)))))"

definition setOtherField :: "nat \<Rightarrow> nat \<Rightarrow> h512 \<Rightarrow> string \<Rightarrow> PBFTMsgPacket \<Rightarrow> PBFTMsgPacket" where
  "setOtherField now i n e p =
     p\<lparr>node_idx := i, node_id := n, endpoint := e, pkt_timestamp := word_of_nat now\<rparr>"

text \<open>\<open>asBytes()\<close> of a signature, and the signature made of the bytes received.\<close>

definition as_signature :: "bytes \<Rightarrow> rlp_exn + h520" where
  "as_signature d =
     res_bind (rlp_toBytes d LaissezFaire) (\<lambda>b.
       Inr (fromBigEndian_word (FixedHash_of_bytes 65 b FailIfDifferent)))"

definition PBFTMsg_fields :: "'a PBFTMsg_scheme \<Rightarrow> (RLPStream \<Rightarrow> rlp_exn + RLPStream) list" where
  "PBFTMsg_fields m =
     [append_unsigned (u32 (height m)), append_unsigned (u32 (view m)), append_unsigned (idx m),
      append_u256 (timestamp m), append_hash (block_hash m), append_data (hash_bytes (sig m)),
      append_data (hash_bytes (sig2 m))]"

definition PBFTMsg_encode :: "'a PBFTMsg_scheme \<Rightarrow> rlp_exn + bytes" where
  "PBFTMsg_encode m = wrap_fields (PBFTMsg_fields m)"

definition PBFTMsg_populate :: "bytes \<Rightarrow> 'a PBFTMsg_scheme \<Rightarrow> rlp_exn + 'a PBFTMsg_scheme" where
  "PBFTMsg_populate r m =
     res_bind (field (\<lambda>i. rlp_toInt (Some 8) i Strict) r 0) (\<lambda>h.
     res_bind (field (\<lambda>i. rlp_toInt (Some 8) i Strict) r 1) (\<lambda>v.
     res_bind (field (\<lambda>i. rlp_toInt (Some 2) i Strict) r 2) (\<lambda>x.
     res_bind (field as_u256 r 3) (\<lambda>t.
     res_bind (field as_hash r 4) (\<lambda>bh.
     res_bind (field as_signature r 5) (\<lambda>s1.
     res_bind (field as_signature r 6) (\<lambda>s2.
     Inr (m\<lparr>height := i64 (int h), view := i64 (int v), idx := x, timestamp := t,
       block_hash := bh, sig := s1, sig2 := s2\<rparr>))))))))"

definition PBFTMsg_decode :: "bytes \<Rightarrow> nat \<Rightarrow> rlp_exn + PBFTMsg" where
  "PBFTMsg_decode d index =
     res_bind (unwrap_fields d index) (\<lambda>r. PBFTMsg_populate r PBFTMsg_new)"

definition PrepareReq_encode :: "PrepareReq \<Rightarrow> rlp_exn + bytes" where
  "PrepareReq_encode m = wrap_fields (PBFTMsg_fields m @ [append_data (block m)])"

definition PrepareReq_decode :: "bytes \<Rightarrow> nat \<Rightarrow> rlp_exn + PrepareReq" where
  "PrepareReq_decode d index =
     res_bind (unwrap_fields d index) (\<lambda>r.
     res_bind (PBFTMsg_populate r PrepareReq_new) (\<lambda>m.
     res_bind (field as_bytes r 7) (\<lambda>b. Inr (m\<lparr>block := b\<rparr>))))"

definition uniqueKey :: "'a PBFTMsg_scheme \<Rightarrow> string" where
  "uniqueKey m = hash_hex (sig m) @ hash_hex (sig2 m)"

subsection \<open>Constructors\<close>

definition fieldsWithoutBlock :: "crypto \<Rightarrow> 'a PBFTMsg_scheme \<Rightarrow> h256" where
  "fieldsWithoutBlock cr m =
     (case res_bind (stream [append_unsigned (u32 (height m)), append_unsigned (u32 (view m)),
         append_unsigned (idx m), append_u256 (timestamp m)] RLPStream_new) RLPStream_out of
        Inr b \<Rightarrow> sha3 cr b
      | Inl _ \<Rightarrow> 0)"

definition signHash :: "crypto \<Rightarrow> h256 \<Rightarrow> KeyPair \<Rightarrow> h520" where
  "signHash cr h kp = sign cr (kp_secret kp) h"

definition signed :: "crypto \<Rightarrow> KeyPair \<Rightarrow> 'a PBFTMsg_scheme \<Rightarrow> 'a PBFTMsg_scheme" where
  "signed cr kp m =
     m\<lparr>sig := signHash cr (block_hash m) kp, sig2 := signHash cr (fieldsWithoutBlock cr m) kp\<rparr>"

definition PBFTMsg_make :: "crypto \<Rightarrow> nat \<Rightarrow> KeyPair \<Rightarrow> int \<Rightarrow> int \<Rightarrow> nat \<Rightarrow> h256 \<Rightarrow> PBFTMsg" where
  "PBFTMsg_make cr now kp h v i bh =
     signed cr kp (PBFTMsg_new\<lparr>height := h, view := v, idx := i, timestamp := word_of_nat now,
       block_hash := bh\<rparr>)"

text \<open>\<open>PrepareReq(req, keyPair, view, idx)\<close>: a request for the same block in another view.\<close>

definition PrepareReq_renew :: "crypto \<Rightarrow> nat \<Rightarrow> PrepareReq \<Rightarrow> KeyPair \<Rightarrow> int \<Rightarrow> nat \<Rightarrow> PrepareReq" where
  "PrepareReq_renew cr now req kp v i =
     (signed cr kp (PrepareReq_new\<lparr>height := height req, view := v, idx := i,
        timestamp := word_of_nat now, block_hash := block_hash req\<rparr>))
     \<lparr>block := block req, pBlock := pBlock req, p_execContext := None\<rparr>"

text \<open>\<open>PrepareReq(blockStruct, keyPair, view, idx)\<close>, with the encoding of the block; encoding fills
  the caches of the block, which the pointer then shares.\<close>

definition PrepareReq_of_block ::
    "crypto \<Rightarrow> bool \<Rightarrow> nat \<Rightarrow> Block \<Rightarrow> KeyPair \<Rightarrow> int \<Rightarrow> nat \<Rightarrow> eth_exn + PrepareReq" where
  "PrepareReq_of_block cr rc2 now b kp v i =
     res_bind (Block_encode cr rc2 b) (\<lambda>(enc, b').
     Inr ((signed cr kp (PrepareReq_new\<lparr>height := m_number (m_blockHeader b), view := v, idx := i,
        timestamp := word_of_nat now, block_hash := BlockHeader_hash cr (m_blockHeader b)\<rparr>))
     \<lparr>block := enc, pBlock := Some b', p_execContext := None\<rparr>))"

record Sealing =
  s_block :: Block
  s_transactionSet :: "h256 set"
  s_execContext :: "nat option"

definition Sealing_new :: Sealing where
  "Sealing_new = \<lparr>s_block = Block_new, s_transactionSet = {}, s_execContext = None\<rparr>"

text \<open>\<open>PrepareReq(req, sealing, keyPair)\<close>: the request for the executed block. The field
  \<open>block\<close> stays empty.\<close>

definition PrepareReq_of_sealing ::
    "crypto \<Rightarrow> nat \<Rightarrow> PrepareReq \<Rightarrow> Sealing \<Rightarrow> KeyPair \<Rightarrow> PrepareReq" where
  "PrepareReq_of_sealing cr now req sealing kp =
     (signed cr kp (PrepareReq_new\<lparr>height := height req, view := view req, idx := idx req,
        timestamp := word_of_nat now,
        block_hash := BlockHeader_hash cr (m_blockHeader (s_block sealing))\<rparr>))
     \<lparr>pBlock := Some (s_block sealing), p_execContext := s_execContext sealing\<rparr>"

text \<open>\<open>SignReq(req, keyPair, idx)\<close> and \<open>CommitReq(req, keyPair, idx)\<close>.\<close>

definition SignReq_make :: "crypto \<Rightarrow> nat \<Rightarrow> PrepareReq \<Rightarrow> KeyPair \<Rightarrow> nat \<Rightarrow> PBFTMsg" where
  "SignReq_make cr now req kp i = PBFTMsg_make cr now kp (height req) (view req) i (block_hash req)"

definition CommitReq_make :: "crypto \<Rightarrow> nat \<Rightarrow> PrepareReq \<Rightarrow> KeyPair \<Rightarrow> nat \<Rightarrow> PBFTMsg" where
  "CommitReq_make cr now req kp i = PBFTMsg_make cr now kp (height req) (view req) i (block_hash req)"

definition ViewChangeReq_make ::
    "crypto \<Rightarrow> nat \<Rightarrow> KeyPair \<Rightarrow> int \<Rightarrow> int \<Rightarrow> nat \<Rightarrow> h256 \<Rightarrow> PBFTMsg" where
  "ViewChangeReq_make cr now kp h v i bh = PBFTMsg_make cr now kp h v i bh"

section \<open>The wire format\<close>

lemma wrap_fields_enc:
  assumes "list_all2 (writes (\<lambda>w. w)) ws es" "length (concat es) < 2 ^ 61"
  shows "wrap_fields ws = Inr (rlp_lst (rlp_str (concat es)))"
proof -
  have ok: "rlp_size_ok (length (concat es))" using assms(2) by (simp add: rlp_size_ok_def)
  have "rlp_size_ok (length (rlp_str (concat es)))"
    using length_rlp_str_le [OF ok] assms(2) by (simp add: rlp_size_ok_def)
  moreover have "list_all2 (writes (\<lambda>w. w)) [append_data (concat es)] [rlp_str (concat es)]"
    using writes_data [OF ok] by simp
  ultimately show ?thesis
    using stream_top [OF assms(1)] stream_list [of "[append_data (concat es)]" "[rlp_str (concat es)]"]
    by (simp add: wrap_fields_def del: res_bind_Inr res_bind_assoc)
qed

lemma unwrap_fields_enc:
  assumes "length b < 2 ^ 61"
  shows "unwrap_fields (rlp_lst (rlp_str b)) 0 = Inr (rlp_str b)"
proof -
  have ok: "rlp_size_ok (length b)" using assms by (simp add: rlp_size_ok_def)
  then have len: "rlp_size_ok (length (rlp_str b))"
    using length_rlp_str_le [of b] assms by (simp add: rlp_size_ok_def)
  then show ?thesis
    using rlp_nth_lst [of "[rlp_str b]" 0] rlp_item_str [OF ok] rlp_item_lst [OF len]
    by (simp add: unwrap_fields_def)
qed

definition PBFTMsg_items :: "'a PBFTMsg_scheme \<Rightarrow> bytes list" where
  "PBFTMsg_items m =
     [enc_int (u32 (height m)), enc_int (u32 (view m)), enc_int (idx m), enc_int (unat (timestamp m)),
      enc_hash (block_hash m), enc_hash (sig m), enc_hash (sig2 m)]"

lemma bytesRequired_u32: "n < 2 ^ 32 \<Longrightarrow> bytesRequired n \<le> 32"
  by (rule bytesRequired_u64) simp

lemma PBFTMsg_items_ok:
  assumes "idx m < 2 ^ 16"
  shows "list_all rlp_item (PBFTMsg_items m)"
    and "length (concat (PBFTMsg_items m)) < 2 ^ 12"
    and "list_all2 (writes (\<lambda>w. w)) (PBFTMsg_fields m) (PBFTMsg_items m)"
proof -
  have n: "bytesRequired (u32 (height m)) \<le> 32" "bytesRequired (u32 (view m)) \<le> 32"
    "bytesRequired (idx m) \<le> 32"
    using assms by (auto intro!: bytesRequired_u32)
  show "list_all rlp_item (PBFTMsg_items m)"
    using n by (simp add: PBFTMsg_items_def rlp_item_int rlp_item_hash bytesRequired_u256)
  have "length (enc_int x) \<le> 300" if "bytesRequired x \<le> 32" for x
    using length_enc_int [OF that] by simp
  note this [OF n(1)] this [OF n(2)] this [OF n(3)] this [OF bytesRequired_u256, of "timestamp m"]
  then show "length (concat (PBFTMsg_items m)) < 2 ^ 12"
    using length_enc_hash [of "block_hash m"] length_enc_hash [of "sig m"] length_enc_hash [of "sig2 m"]
    by (simp add: PBFTMsg_items_def)
  have "writes (\<lambda>w. w) (append_data (hash_bytes h)) (enc_hash h)" for h :: h520
    by (simp add: enc_hash_def writes_data size_ok_small)
  then show "list_all2 (writes (\<lambda>w. w)) (PBFTMsg_fields m) (PBFTMsg_items m)"
    using n by (simp add: PBFTMsg_fields_def PBFTMsg_items_def writes_unsigned writes_u256 writes_hash_field)
qed

lemma as_signature_enc [simp]: "as_signature (enc_hash h) = Inr h"
  by (simp add: as_signature_def enc_hash_def size_ok_small FixedHash_of_bytes_def fromBigEndian_word_eq)

lemma u32_int64: "i64 (int (u32 x)) = x mod 2 ^ 32"
  by (simp add: u32_def i64_def)

lemma PBFTMsg_field:
  assumes "idx m < 2 ^ 16" "list_all rlp_item xs"
    and "rlp_size_ok (length (concat (PBFTMsg_items m @ xs)))" "k < 7"
  shows "field conv (rlp_str (concat (PBFTMsg_items m @ xs))) k = conv (PBFTMsg_items m ! k)"
proof -
  have "list_all rlp_item (PBFTMsg_items m @ xs)" using PBFTMsg_items_ok(1) [OF assms(1)] assms(2) by simp
  moreover have "length (PBFTMsg_items m) = 7" by (simp add: PBFTMsg_items_def)
  ultimately show ?thesis using field_str [of "PBFTMsg_items m @ xs" k conv] assms(3,4)
    by (simp add: nth_append del: concat_append)
qed

lemma PBFTMsg_populate_items:
  assumes i: "idx m < 2 ^ 16" and xs: "list_all rlp_item xs"
    and len: "rlp_size_ok (length (concat (PBFTMsg_items m @ xs)))"
  shows "PBFTMsg_populate (rlp_str (concat (PBFTMsg_items m @ xs))) m0 =
    Inr (m0\<lparr>height := height m mod 2 ^ 32, view := view m mod 2 ^ 32, idx := idx m,
      timestamp := timestamp m, block_hash := block_hash m, sig := sig m, sig2 := sig2 m\<rparr>)"
proof -
  have items: "PBFTMsg_items m ! 0 = enc_int (u32 (height m))"
    "PBFTMsg_items m ! Suc 0 = enc_int (u32 (view m))" "PBFTMsg_items m ! 2 = enc_int (idx m)"
    "PBFTMsg_items m ! 3 = enc_int (unat (timestamp m))" "PBFTMsg_items m ! 4 = enc_hash (block_hash m)"
    "PBFTMsg_items m ! 5 = enc_hash (sig m)" "PBFTMsg_items m ! 6 = enc_hash (sig2 m)"
    by (simp_all add: PBFTMsg_items_def)
  have int8: "rlp_toInt (Some 8) (enc_int (u32 x)) Strict = Inr (u32 x)" for x
    using rlp_toInt_compact [of "u32 x" 8] less_trans [OF u32_bound [of x], of "256 ^ 8"]
    by (simp add: enc_int_def)
  have int2: "rlp_toInt (Some 2) (enc_int (idx m)) Strict = Inr (idx m)"
    using rlp_toInt_compact [of "idx m" 2] i by (simp add: enc_int_def)
  show ?thesis
    by (simp add: PBFTMsg_populate_def PBFTMsg_field [OF i xs len] items int8 int2 u32_int64
        del: res_bind_Inr concat_append)
qed

text \<open>What a receiver reads for every message that is sent.\<close>

lemma PBFTMsg_decode_encode:
  fixes m :: PBFTMsg
  assumes i: "idx m < 2 ^ 16"
  shows "res_bind (PBFTMsg_encode m) (\<lambda>b. PBFTMsg_decode b 0) =
    Inr (m\<lparr>height := height m mod 2 ^ 32, view := view m mod 2 ^ 32\<rparr>)"
proof -
  note ok = PBFTMsg_items_ok [OF i]
  have len: "length (concat (PBFTMsg_items m)) < 2 ^ 61" using ok(2) by simp
  then have size: "rlp_size_ok (length (concat (PBFTMsg_items m @ [])))" by (simp add: rlp_size_ok_def)
  have "PBFTMsg_encode m = Inr (rlp_lst (rlp_str (concat (PBFTMsg_items m))))"
    unfolding PBFTMsg_encode_def using ok(3) len by (rule wrap_fields_enc)
  then show ?thesis
    using PBFTMsg_populate_items [OF i _ size, of PBFTMsg_new]
    by (simp add: PBFTMsg_decode_def unwrap_fields_enc [OF len] PBFTMsg_new_def del: length_concat)
qed

lemma PrepareReq_decode_encode:
  assumes i: "idx m < 2 ^ 16" and b: "length (block m) < 2 ^ 60"
  shows "res_bind (PrepareReq_encode m) (\<lambda>d. PrepareReq_decode d 0) =
    Inr (m\<lparr>height := height m mod 2 ^ 32, view := view m mod 2 ^ 32, pBlock := None, p_execContext := None\<rparr>)"
proof -
  note ok = PBFTMsg_items_ok [OF i]
  let ?es = "PBFTMsg_items m @ [rlp_str (block m)]"
  have bok: "rlp_size_ok (length (block m))" using b by (rule size_ok_60)
  have "length (rlp_str (block m)) < 2 ^ 60 + 9" using length_rlp_str_le [OF bok] b by simp
  with ok(2) have len: "length (concat ?es) < 2 ^ 61" by simp
  then have size: "rlp_size_ok (length (concat ?es))" by (simp add: rlp_size_ok_def)
  have item: "list_all rlp_item [rlp_str (block m)]" using rlp_item_str [OF bok] by simp
  have "PrepareReq_encode m = Inr (rlp_lst (rlp_str (concat ?es)))"
    unfolding PrepareReq_encode_def using ok(3) writes_data [OF bok] len
    by (intro wrap_fields_enc list_all2_appendI) (simp_all del: concat_append)
  moreover have "field as_bytes (rlp_str (concat ?es)) 7 = Inr (block m)"
    using field_str [OF size, of 7 as_bytes] ok(1) item bok
    by (simp add: nth_append PBFTMsg_items_def del: concat_append)
  ultimately show ?thesis
    using PBFTMsg_populate_items [OF i item size, of PrepareReq_new]
    by (simp add: PrepareReq_decode_def unwrap_fields_enc [OF len] PrepareReq_new_def
        del: length_concat concat_append)
qed

lemma PBFTMsgPacket_decode_encode:
  assumes "packet_id p < 256" "ttl p < 256" "length (pkt_data p) < 2 ^ 60"
  shows "res_bind (PBFTMsgPacket_encode p) (\<lambda>d. PBFTMsgPacket_decode d q) =
    Inr (q\<lparr>packet_id := packet_id p, ttl := ttl p, pkt_data := pkt_data p\<rparr>)"
proof -
  let ?es = "[enc_int (packet_id p), enc_int (ttl p), rlp_str (pkt_data p)]"
  have n: "bytesRequired (packet_id p) \<le> 32" "bytesRequired (ttl p) \<le> 32"
    using assms(1,2) by (auto intro!: bytesRequired_u32)
  have ok: "rlp_size_ok (length (pkt_data p))" using assms(3) by (rule size_ok_60)
  have len: "length (concat ?es) < 2 ^ 61"
    using length_rlp_str_le [OF ok] length_enc_int [OF n(1)] length_enc_int [OF n(2)] assms(3) by simp
  then have size: "rlp_size_ok (length (concat ?es))" by (simp add: rlp_size_ok_def)
  have item: "list_all rlp_item ?es" using n ok by (simp add: rlp_item_int rlp_item_str)
  have enc: "PBFTMsgPacket_encode p = Inr (rlp_lst (rlp_str (concat ?es)))"
    unfolding PBFTMsgPacket_encode_def using n ok writes_data [OF ok] len
    by (intro wrap_fields_enc) (simp_all add: writes_unsigned del: concat.simps)
  have int1: "rlp_toInt (Some (Suc 0)) (enc_int x) Strict = Inr x" if "x < 256" for x
    using rlp_toInt_compact [of x 1] that by (simp add: enc_int_def)
  note get = field_str [OF size item]
  have "unwrap_fields (rlp_lst (rlp_str (concat ?es))) 0 = Inr (rlp_str (concat ?es))"
    using len by (rule unwrap_fields_enc)
  then show ?thesis
    using enc ok assms(1,2) by (simp add: PBFTMsgPacket_decode_def get int1 del: concat.simps res_bind_Inr)
qed

text \<open>The requests as codecs, for the heights and views that fit the 32 bits on the wire.\<close>

definition PBFTMsg_wire :: "'a PBFTMsg_scheme \<Rightarrow> bool" where
  "PBFTMsg_wire m \<longleftrightarrow> idx m < 2 ^ 16 \<and> 0 \<le> height m \<and> height m < 2 ^ 32 \<and> 0 \<le> view m \<and> view m < 2 ^ 32"

interpretation msg_codec: codec PBFTMsg_encode
  "\<lambda>e. case res_bind e (\<lambda>b. PBFTMsg_decode b 0) of Inr m \<Rightarrow> Some m | Inl x \<Rightarrow> None"
  "PBFTMsg_wire :: PBFTMsg \<Rightarrow> bool"
  by unfold_locales (simp add: PBFTMsg_wire_def PBFTMsg_decode_encode)

section \<open>Properties\<close>

text \<open>C21: the wire format of the sign, commit and view change requests. What the receiver decodes
  from an encoded request agrees with it in every field, except that \<open>height\<close> and \<open>view\<close>, which are
  64-bit integers, arrive modulo \<open>2^32\<close>: they are exact up to \<open>2^32 - 1\<close> and truncated above.\<close>

theorem request_wire:
  fixes m :: PBFTMsg
  assumes "idx m < 2 ^ 16"
  shows "res_bind (PBFTMsg_encode m) (\<lambda>b. PBFTMsg_decode b 0) =
      Inr (m\<lparr>height := height m mod 2 ^ 32, view := view m mod 2 ^ 32\<rparr>)
    \<and> (res_bind (PBFTMsg_encode m) (\<lambda>b. PBFTMsg_decode b 0) = Inr m \<longleftrightarrow> PBFTMsg_wire m)"
proof -
  have "m\<lparr>height := height m mod 2 ^ 32, view := view m mod 2 ^ 32\<rparr> = m \<longleftrightarrow>
      height m mod 2 ^ 32 = height m \<and> view m mod 2 ^ 32 = view m"
    by (cases m) simp
  moreover have "x mod 2 ^ 32 = x \<longleftrightarrow> 0 \<le> x \<and> x < 2 ^ 32" for x :: int
    by (metis mod_pos_pos_trivial pos_mod_bound pos_mod_sign zero_less_numeral zero_less_power)
  ultimately show ?thesis
    using PBFTMsg_decode_encode [OF assms] assms by (simp add: PBFTMsg_wire_def del: res_bind_Inr)
qed

text \<open>Witness for the wire format: a commit request for height 9 arrives unchanged.\<close>

theorem request_wire_witness:
  "res_bind (PBFTMsg_encode (PBFTMsg_new\<lparr>height := 9, view := 4, idx := 1\<rparr>)) (\<lambda>b. PBFTMsg_decode b 0) =
     Inr (PBFTMsg_new\<lparr>height := 9, view := 4, idx := 1\<rparr>)"
proof -
  have "idx (PBFTMsg_new\<lparr>height := 9, view := 4, idx := 1\<rparr>) < 2 ^ 16"
    "PBFTMsg_wire (PBFTMsg_new\<lparr>height := 9, view := 4, idx := 1\<rparr>)"
    by (simp_all add: PBFTMsg_wire_def)
  then show ?thesis using request_wire by blast
qed

text \<open>C18: a prepare request arrives with its block and with empty pointers to the decoded block and
  to its execution result, and \<open>height\<close> and \<open>view\<close> modulo \<open>2^32\<close>.\<close>

theorem prepare_wire:
  assumes "idx m < 2 ^ 16" "length (block m) < 2 ^ 60"
  shows "res_bind (PrepareReq_encode m) (\<lambda>d. PrepareReq_decode d 0) =
    Inr (m\<lparr>height := height m mod 2 ^ 32, view := view m mod 2 ^ 32, pBlock := None,
      p_execContext := None\<rparr>)"
  using assms by (rule PrepareReq_decode_encode)

text \<open>Witness for the prepare request: height \<open>2^32 + 5\<close> arrives as 5.\<close>

theorem prepare_wire_witness:
  "res_bind (PrepareReq_encode (PrepareReq_new\<lparr>height := 2 ^ 32 + 5, view := 0, idx := 1, block := [1, 2]\<rparr>))
     (\<lambda>d. PrepareReq_decode d 0) =
   Inr (PrepareReq_new\<lparr>height := 5, view := 0, idx := 1, block := [1, 2]\<rparr>)"
proof -
  let ?m = "PrepareReq_new\<lparr>height := 2 ^ 32 + 5, view := 0, idx := 1, block := [1, 2]\<rparr>"
  have "idx ?m < 2 ^ 16" "length (block ?m) < 2 ^ 60" by simp_all
  from prepare_wire [OF this] show ?thesis by (simp add: PrepareReq_new_def del: res_bind_Inr)
qed

end
