(* ===== verification/PBFT_ReqCache.thy ===== *)
theory PBFT_ReqCache
  imports PBFT_Types
begin

text \<open>
  libconsensus/pbft/PBFTReqCache.h and PBFTReqCache.cpp: the requests a node has received.

  The record \<open>PBFTReqCache\<close> has the fields of the class. The sign and commit caches map a
  block hash to the requests for it, keyed by the hexadecimal signature; the view change
  cache maps a view to the requests for it, keyed by the index of the sender. The current
  block header is passed as its number and its hash. \<open>PBFTReqCache_ok\<close> is the
  well-formedness of the caches; every operation keeps it, and the sizes that the quorum
  checks of the engine read are related to the requests that were added.
\<close>

section \<open>Definitions\<close>

type_synonym req_cache = "(h256, (string, PBFTMsg) umap) umap"

record PBFTReqCache =
  m_prepareCache :: PrepareReq
  m_rawPrepareCache :: PrepareReq
  m_signCache :: req_cache
  m_recvViewChangeReq :: "(int, (nat, PBFTMsg) umap) umap"
  m_commitCache :: req_cache
  m_committedPrepareCache :: PrepareReq
  m_futurePrepareCache :: "(nat, PrepareReq) umap"

definition PBFTReqCache_new :: PBFTReqCache where
  "PBFTReqCache_new = \<lparr>m_prepareCache = PrepareReq_new, m_rawPrepareCache = PrepareReq_new,
     m_signCache = [], m_recvViewChangeReq = [], m_commitCache = [],
     m_committedPrepareCache = PrepareReq_new, m_futurePrepareCache = []\<rparr>"

subsection \<open>Queries\<close>

definition cacheExists :: "('k, ('s, 'v) umap) umap \<Rightarrow> 'k \<Rightarrow> 's \<Rightarrow> bool" where
  "cacheExists cache mainKey key =
     (case um_find cache mainKey of None \<Rightarrow> False | Some inner \<Rightarrow> um_find inner key \<noteq> None)"

definition getSizeFromCache :: "'k \<Rightarrow> ('k, ('s, 'v) umap) umap \<Rightarrow> nat" where
  "getSizeFromCache key cache =
     (case um_find cache key of Some inner \<Rightarrow> length inner | None \<Rightarrow> 0)"

definition isExistPrepare :: "PBFTReqCache \<Rightarrow> PrepareReq \<Rightarrow> bool" where
  "isExistPrepare c req \<longleftrightarrow> block_hash (m_rawPrepareCache c) = block_hash req"

definition isExistSign :: "PBFTReqCache \<Rightarrow> PBFTMsg \<Rightarrow> bool" where
  "isExistSign c req = cacheExists (m_signCache c) (block_hash req) (hash_hex (sig req))"

definition isExistCommit :: "PBFTReqCache \<Rightarrow> PBFTMsg \<Rightarrow> bool" where
  "isExistCommit c req = cacheExists (m_commitCache c) (block_hash req) (hash_hex (sig req))"

definition isExistViewChange :: "PBFTReqCache \<Rightarrow> PBFTMsg \<Rightarrow> bool" where
  "isExistViewChange c req = cacheExists (m_recvViewChangeReq c) (view req) (idx req)"

definition getSigCacheSize :: "PBFTReqCache \<Rightarrow> h256 \<Rightarrow> nat" where
  "getSigCacheSize c h = getSizeFromCache h (m_signCache c)"

definition getCommitCacheSize :: "PBFTReqCache \<Rightarrow> h256 \<Rightarrow> nat" where
  "getCommitCacheSize c h = getSizeFromCache h (m_commitCache c)"

definition getViewChangeSize :: "PBFTReqCache \<Rightarrow> int \<Rightarrow> nat" where
  "getViewChangeSize c v = getSizeFromCache v (m_recvViewChangeReq c)"

definition futurePrepareCache :: "PBFTReqCache \<Rightarrow> nat \<Rightarrow> PrepareReq option" where
  "futurePrepareCache c n = um_find (m_futurePrepareCache c) n"

definition futurePrepareCacheSize :: "PBFTReqCache \<Rightarrow> nat" where
  "futurePrepareCacheSize c = length (m_futurePrepareCache c)"

subsection \<open>Removal\<close>

definition removeInvalidView :: "h256 \<Rightarrow> int \<Rightarrow> req_cache \<Rightarrow> req_cache" where
  "removeInvalidView bh v cache = um_adjust bh (um_erase_if (\<lambda>_ m. view m \<noteq> v)) cache"

definition removeInvalidSignCache :: "h256 \<Rightarrow> int \<Rightarrow> PBFTReqCache \<Rightarrow> PBFTReqCache" where
  "removeInvalidSignCache bh v c = c\<lparr>m_signCache := removeInvalidView bh v (m_signCache c)\<rparr>"

definition removeInvalidCommitCache :: "h256 \<Rightarrow> int \<Rightarrow> PBFTReqCache \<Rightarrow> PBFTReqCache" where
  "removeInvalidCommitCache bh v c = c\<lparr>m_commitCache := removeInvalidView bh v (m_commitCache c)\<rparr>"

text \<open>The condition on which a request is stale for the block with number \<open>n\<close> and hash \<open>h\<close>.\<close>

definition stale_req :: "int \<Rightarrow> h256 \<Rightarrow> PBFTMsg \<Rightarrow> bool" where
  "stale_req n h m \<longleftrightarrow> height m < n \<or> height m = n \<and> block_hash m \<noteq> h"

definition removeInvalidEntryFromCache ::
    "int \<Rightarrow> h256 \<Rightarrow> ('k, ('s, PBFTMsg) umap) umap \<Rightarrow> ('k, ('s, PBFTMsg) umap) umap" where
  "removeInvalidEntryFromCache n h cache =
     um_erase_if (\<lambda>_ inner. length inner = 0)
       (map (\<lambda>(k, inner). (k, um_erase_if (\<lambda>_ m. stale_req n h m) inner)) cache)"

definition removeInvalidFutureCache :: "int \<Rightarrow> PBFTReqCache \<Rightarrow> PBFTReqCache" where
  "removeInvalidFutureCache n c =
     c\<lparr>m_futurePrepareCache := um_erase_if (\<lambda>k _. k \<le> u64 n) (m_futurePrepareCache c)\<rparr>"

definition delInvalidViewChange :: "int \<Rightarrow> h256 \<Rightarrow> PBFTReqCache \<Rightarrow> PBFTReqCache" where
  "delInvalidViewChange n h c =
     c\<lparr>m_recvViewChangeReq := removeInvalidEntryFromCache n h (m_recvViewChangeReq c)\<rparr>"

definition reqCache_collectGarbage :: "int \<Rightarrow> h256 \<Rightarrow> PBFTReqCache \<Rightarrow> PBFTReqCache" where
  "reqCache_collectGarbage n h c =
     delInvalidViewChange n h (removeInvalidFutureCache n
       (c\<lparr>m_signCache := removeInvalidEntryFromCache n h (m_signCache c),
          m_commitCache := removeInvalidEntryFromCache n h (m_commitCache c)\<rparr>))"

definition removeInvalidViewChange :: "int \<Rightarrow> int \<Rightarrow> h256 \<Rightarrow> PBFTReqCache \<Rightarrow> PBFTReqCache" where
  "removeInvalidViewChange v n h c =
     c\<lparr>m_recvViewChangeReq :=
         um_adjust v (um_erase_if (\<lambda>_ m. stale_req n h m)) (m_recvViewChangeReq c)\<rparr>"

definition removeInvalidViewChange_upto :: "int \<Rightarrow> PBFTReqCache \<Rightarrow> PBFTReqCache" where
  "removeInvalidViewChange_upto curView c =
     c\<lparr>m_recvViewChangeReq := um_erase_if (\<lambda>v _. v \<le> curView) (m_recvViewChangeReq c)\<rparr>"

definition triggerViewChange :: "int \<Rightarrow> PBFTReqCache \<Rightarrow> PBFTReqCache" where
  "triggerViewChange curView c =
     removeInvalidViewChange_upto curView
       (c\<lparr>m_rawPrepareCache := PBFTMsg_clear (m_rawPrepareCache c),
          m_prepareCache := PBFTMsg_clear (m_prepareCache c),
          m_signCache := [], m_commitCache := [], m_futurePrepareCache := []\<rparr>)"

definition delCache :: "h256 \<Rightarrow> PBFTReqCache \<Rightarrow> PBFTReqCache" where
  "delCache h c =
     (let c1 = c\<lparr>m_signCache := um_erase h (m_signCache c)\<rparr>;
          c2 = c1\<lparr>m_commitCache := um_erase h (m_commitCache c1)\<rparr>
      in if h = block_hash (m_prepareCache c2)
         then c2\<lparr>m_prepareCache := PBFTMsg_clear (m_prepareCache c2)\<rparr> else c2)"

definition clearAllExceptCommitCache :: "PBFTReqCache \<Rightarrow> PBFTReqCache" where
  "clearAllExceptCommitCache c =
     c\<lparr>m_prepareCache := PBFTMsg_clear (m_prepareCache c), m_signCache := [], m_recvViewChangeReq := []\<rparr>"

definition reqCache_clearAll :: "PBFTReqCache \<Rightarrow> PBFTReqCache" where
  "reqCache_clearAll c =
     (clearAllExceptCommitCache
       (c\<lparr>m_rawPrepareCache := PBFTMsg_clear (m_rawPrepareCache c), m_futurePrepareCache := []\<rparr>))
     \<lparr>m_commitCache := []\<rparr>"

definition eraseHandledFutureReq :: "nat \<Rightarrow> PBFTReqCache \<Rightarrow> PBFTReqCache" where
  "eraseHandledFutureReq n c = c\<lparr>m_futurePrepareCache := um_erase n (m_futurePrepareCache c)\<rparr>"

subsection \<open>Insertion\<close>

definition addRawPrepare :: "PrepareReq \<Rightarrow> PBFTReqCache \<Rightarrow> PBFTReqCache" where
  "addRawPrepare req c = c\<lparr>m_rawPrepareCache := req, m_prepareCache := PrepareReq_new\<rparr>"

definition addPrepareReq :: "PrepareReq \<Rightarrow> PBFTReqCache \<Rightarrow> PBFTReqCache" where
  "addPrepareReq req c =
     removeInvalidCommitCache (block_hash req) (view req)
       (removeInvalidSignCache (block_hash req) (view req) (c\<lparr>m_prepareCache := req\<rparr>))"

text \<open>\<open>cache[req.block_hash][req.sig.hex()] = req\<close>\<close>

definition addReq :: "PBFTMsg \<Rightarrow> req_cache \<Rightarrow> req_cache" where
  "addReq req cache =
     (let inner = (case um_find cache (block_hash req) of Some i \<Rightarrow> i | None \<Rightarrow> [])
      in um_set (block_hash req) (um_set (hash_hex (sig req)) req inner) cache)"

definition addSignReq :: "PBFTMsg \<Rightarrow> PBFTReqCache \<Rightarrow> PBFTReqCache" where
  "addSignReq req c = c\<lparr>m_signCache := addReq req (m_signCache c)\<rparr>"

definition addCommitReq :: "PBFTMsg \<Rightarrow> PBFTReqCache \<Rightarrow> PBFTReqCache" where
  "addCommitReq req c = c\<lparr>m_commitCache := addReq req (m_commitCache c)\<rparr>"

definition addViewChangeReq :: "PBFTMsg \<Rightarrow> PBFTReqCache \<Rightarrow> PBFTReqCache" where
  "addViewChangeReq req c =
     (case um_find (m_recvViewChangeReq c) (view req) of
        Some inner \<Rightarrow> c\<lparr>m_recvViewChangeReq :=
          um_adjust (view req) (um_set (idx req) req) (m_recvViewChangeReq c)\<rparr>
      | None \<Rightarrow> c\<lparr>m_recvViewChangeReq :=
          um_set (view req) [(idx req, req)] (m_recvViewChangeReq c)\<rparr>)"

definition addFuturePrepareCache :: "PrepareReq \<Rightarrow> PBFTReqCache \<Rightarrow> PBFTReqCache" where
  "addFuturePrepareCache req c =
     (if 20 \<le> length (m_futurePrepareCache c) then c
      else if um_find (m_futurePrepareCache c) (u64 (height req)) = None
      then c\<lparr>m_futurePrepareCache := um_set (u64 (height req)) req (m_futurePrepareCache c)\<rparr>
      else c)"

definition updateCommittedPrepare :: "PBFTReqCache \<Rightarrow> PBFTReqCache" where
  "updateCommittedPrepare c = c\<lparr>m_committedPrepareCache := m_rawPrepareCache c\<rparr>"

subsection \<open>The signatures of a block\<close>

text \<open>\<open>Signature(key.c_str())\<close>: the keys of the caches are hexadecimal signatures.\<close>

definition sig_of_key :: "string \<Rightarrow> h520" where
  "sig_of_key key =
     (case fromHex key Throw of
        Inr b \<Rightarrow> fromBigEndian_word (FixedHash_of_bytes 65 b FailIfDifferent)
      | Inl _ \<Rightarrow> 0)"

definition generateAndSetSigList :: "PBFTReqCache \<Rightarrow> Block \<Rightarrow> nat \<Rightarrow> bool \<times> Block" where
  "generateAndSetSigList c b minSigSize =
     (case um_find (m_commitCache c) (block_hash (m_prepareCache c)) of
        Some inner \<Rightarrow>
          (let sig_list = map (\<lambda>(key, m). (word_of_nat (idx m), sig_of_key key)) inner
           in if length sig_list < minSigSize then (False, b)
              else (True, b\<lparr>m_sigList := sig_list\<rparr>))
      | None \<Rightarrow> (False, b))"

subsection \<open>View change\<close>

record vc_scan =
  idx_view_map :: "(nat, int) umap"
  minView :: int
  min_height :: int

definition vc_entry :: "int \<Rightarrow> int \<Rightarrow> nat \<times> PBFTMsg \<Rightarrow> vc_scan \<Rightarrow> vc_scan" where
  "vc_entry hnum v e s = (case e of (i, m) \<Rightarrow>
     let it = um_find (idx_view_map s) i in
     if (it = None \<or> the it < v) \<and> hnum \<le> height m
     then s\<lparr>idx_view_map := um_set i v (idx_view_map s),
            minView := (if v < minView s then v else minView s),
            min_height := (if height m < min_height s then height m else min_height s)\<rparr>
     else s)"

definition vc_item :: "int \<Rightarrow> int \<Rightarrow> int \<times> (nat, PBFTMsg) umap \<Rightarrow> vc_scan \<Rightarrow> vc_scan" where
  "vc_item hnum toView e s = (case e of (v, inner) \<Rightarrow>
     if toView < v then fold (vc_entry hnum v) inner s else s)"

definition vc_scan_all :: "PBFTReqCache \<Rightarrow> int \<Rightarrow> int \<Rightarrow> vc_scan" where
  "vc_scan_all c toView hnum =
     fold (vc_item hnum toView) (m_recvViewChangeReq c)
       \<lparr>idx_view_map = [], minView = MAXVIEW, min_height = 2 ^ 63 - 1\<rparr>"

text \<open>The result and the view that is returned through the reference parameter.\<close>

definition canTriggerViewChange :: "PBFTReqCache \<Rightarrow> nat \<Rightarrow> int \<Rightarrow> int \<Rightarrow> int \<Rightarrow> bool \<times> int" where
  "canTriggerViewChange c maxInvalidNodeNum toView hnum consensusBlockNumber =
     (let s = vc_scan_all c toView hnum;
          cnt = u16 (int (length (idx_view_map s)));
          flag = (min_height s = consensusBlockNumber \<and>
                  min_height s = height (m_committedPrepareCache c))
      in (maxInvalidNodeNum < cnt \<and> \<not> flag, minView s))"

section \<open>Well-formed caches\<close>

text \<open>
  A two-level map whose keys are distinct on both levels and whose entries satisfy \<open>P\<close>
  together with the keys they are stored under.
\<close>

definition nested_ok :: "('k \<Rightarrow> 's \<Rightarrow> 'v \<Rightarrow> bool) \<Rightarrow> ('k, ('s, 'v) umap) umap \<Rightarrow> bool" where
  "nested_ok P cache \<longleftrightarrow> um_ok cache \<and>
     (\<forall>k inner. (k, inner) \<in> set cache \<longrightarrow> um_ok inner \<and> (\<forall>s v. (s, v) \<in> set inner \<longrightarrow> P k s v))"

definition sig_entry :: "h256 \<Rightarrow> string \<Rightarrow> PBFTMsg \<Rightarrow> bool" where
  "sig_entry h key m \<longleftrightarrow> block_hash m = h \<and> key = hash_hex (sig m)"

definition view_entry :: "int \<Rightarrow> nat \<Rightarrow> PBFTMsg \<Rightarrow> bool" where
  "view_entry v i m \<longleftrightarrow> view m = v \<and> idx m = i \<and> int64_range v"

definition future_ok :: "(nat, PrepareReq) umap \<Rightarrow> bool" where
  "future_ok f \<longleftrightarrow> um_ok f \<and> length f \<le> 20 \<and> (\<forall>n req. (n, req) \<in> set f \<longrightarrow> n = u64 (height req))"

definition PBFTReqCache_ok :: "PBFTReqCache \<Rightarrow> bool" where
  "PBFTReqCache_ok c \<longleftrightarrow> nested_ok sig_entry (m_signCache c) \<and> nested_ok sig_entry (m_commitCache c) \<and>
     nested_ok view_entry (m_recvViewChangeReq c) \<and> future_ok (m_futurePrepareCache c)"

named_theorems cache_ok \<open>the operations keep the caches well formed\<close>

lemma nested_ok_Nil [simp]: "nested_ok P []"
  by (simp add: nested_ok_def)

lemma nested_okD:
  assumes "nested_ok P cache" "um_find cache k = Some inner"
  shows "um_ok inner" and "(s, v) \<in> set inner \<Longrightarrow> P k s v"
  using assms by (auto simp: nested_ok_def dest!: um_find_memI)

lemma nested_ok_erase [cache_ok]: "nested_ok P cache \<Longrightarrow> nested_ok P (um_erase k cache)"
  unfolding nested_ok_def um_mem by (blast intro: um.ok_erase)

lemma nested_ok_erase_if [cache_ok]: "nested_ok P cache \<Longrightarrow> nested_ok P (um_erase_if Q cache)"
  unfolding nested_ok_def um_mem by (blast intro: um.ok_erase_if)

lemma nested_ok_adjust:
  assumes "nested_ok P cache"
    and "\<And>inner. um_ok inner \<Longrightarrow> (\<And>s v. (s, v) \<in> set inner \<Longrightarrow> P k s v) \<Longrightarrow>
      um_ok (f inner) \<and> (\<forall>s v. (s, v) \<in> set (f inner) \<longrightarrow> P k s v)"
  shows "nested_ok P (um_adjust k f cache)"
  unfolding nested_ok_def
proof (intro conjI allI impI)
  show "um_ok (um_adjust k f cache)" using assms(1) by (simp add: nested_ok_def)
  fix k' inner assume "(k', inner) \<in> set (um_adjust k f cache)"
  then consider "(k', inner) \<in> set cache" | v where "k' = k" "(k, v) \<in> set cache" "inner = f v"
    by (auto dest: um_adjust_mem)
  then have *: "um_ok inner \<and> (\<forall>s v. (s, v) \<in> set inner \<longrightarrow> P k' s v)"
  proof cases
    case 1
    with assms(1) show ?thesis by (simp add: nested_ok_def)
  next
    case (2 v)
    with assms(1) have "um_ok v" "\<And>s x. (s, x) \<in> set v \<Longrightarrow> P k s x" by (auto simp: nested_ok_def)
    from assms(2) [OF this] 2 show ?thesis by simp
  qed
  show "um_ok inner" using * by simp
  show "P k' s v" if "(s, v) \<in> set inner" for s v using * that by simp
qed

lemma nested_ok_adjust_erase [cache_ok]:
  "nested_ok P cache \<Longrightarrow> nested_ok P (um_adjust k (um_erase_if Q) cache)"
  by (rule nested_ok_adjust) (simp_all add: um_mem)

lemma nested_ok_set:
  assumes "nested_ok P cache" "um_ok inner" "\<And>s v. (s, v) \<in> set inner \<Longrightarrow> P k s v"
  shows "nested_ok P (um_set k inner cache)"
  using assms by (auto simp: nested_ok_def dest!: um_set_mem)

lemma nested_ok_map:
  assumes "nested_ok P cache"
  shows "nested_ok P (map (\<lambda>(k, inner). (k, um_erase_if Q inner)) cache)"
proof -
  have "um_ok (map (\<lambda>(k, inner). (k, um_erase_if Q inner)) cache)"
    using assms by (simp add: nested_ok_def um_ok_def comp_def case_prod_unfold)
  with assms show ?thesis by (auto simp: nested_ok_def um_mem)
qed

lemma removeInvalidEntry_ok [cache_ok]:
  "nested_ok P cache \<Longrightarrow> nested_ok P (removeInvalidEntryFromCache n h cache)"
  by (simp add: removeInvalidEntryFromCache_def nested_ok_map nested_ok_erase_if)

lemma addReq_ok [cache_ok]:
  assumes "nested_ok sig_entry cache"
  shows "nested_ok sig_entry (addReq m cache)"
proof (cases "um_find cache (block_hash m)")
  case None
  have "nested_ok sig_entry (um_set (block_hash m) (um_set (hash_hex (sig m)) m []) cache)"
    by (rule nested_ok_set [OF assms]) (auto simp: sig_entry_def dest!: um_set_mem)
  with None show ?thesis by (simp add: addReq_def)
next
  case (Some inner)
  note D = nested_okD [OF assms Some]
  have "nested_ok sig_entry (um_set (block_hash m) (um_set (hash_hex (sig m)) m inner) cache)"
    by (rule nested_ok_set [OF assms]) (use D in \<open>auto simp: sig_entry_def dest!: um_set_mem\<close>)
  with Some show ?thesis by (simp add: addReq_def)
qed

lemma addViewChange_ok:
  assumes "nested_ok view_entry cache" "int64_range (view m)"
  shows "nested_ok view_entry (um_adjust (view m) (um_set (idx m) m) cache)"
    and "nested_ok view_entry (um_set (view m) [(idx m, m)] cache)"
proof -
  show "nested_ok view_entry (um_adjust (view m) (um_set (idx m) m) cache)"
    by (rule nested_ok_adjust [OF assms(1)]) (use assms(2) in \<open>auto simp: view_entry_def dest!: um_set_mem\<close>)
  show "nested_ok view_entry (um_set (view m) [(idx m, m)] cache)"
    by (rule nested_ok_set [OF assms(1)]) (use assms(2) in \<open>auto simp: view_entry_def um_ok_def\<close>)
qed

lemma future_ok_simps [simp]: "future_ok []"
  by (simp add: future_ok_def)

lemma future_ok_erase_if [cache_ok]: "future_ok f \<Longrightarrow> future_ok (um_erase_if Q f)"
  by (auto simp: future_ok_def um_mem intro: order_trans [OF um.count_erase_if_le])

lemma future_ok_erase [cache_ok]: "future_ok f \<Longrightarrow> future_ok (um_erase n f)"
  using um.count_erase [of f n] by (auto simp: future_ok_def um_mem)

lemma future_ok_set [cache_ok]:
  "future_ok f \<Longrightarrow> length f < 20 \<Longrightarrow> future_ok (um_set (u64 (height req)) req f)"
  by (auto simp: future_ok_def um_length_set dest!: um_set_mem)

lemma PBFTReqCache_new_ok [simp]: "PBFTReqCache_ok PBFTReqCache_new"
  by (simp add: PBFTReqCache_ok_def PBFTReqCache_new_def)

text \<open>Every operation of the class keeps the caches well formed.\<close>

lemma PBFTReqCache_ops_ok [simp]:
  assumes "PBFTReqCache_ok c"
  shows "PBFTReqCache_ok (addRawPrepare req c)"
    and "PBFTReqCache_ok (addPrepareReq req c)"
    and "PBFTReqCache_ok (addSignReq m c)"
    and "PBFTReqCache_ok (addCommitReq m c)"
    and "PBFTReqCache_ok (addFuturePrepareCache req c)"
    and "PBFTReqCache_ok (updateCommittedPrepare c)"
    and "PBFTReqCache_ok (triggerViewChange v c)"
    and "PBFTReqCache_ok (delCache h c)"
    and "PBFTReqCache_ok (reqCache_collectGarbage n h c)"
    and "PBFTReqCache_ok (removeInvalidViewChange v n h c)"
    and "PBFTReqCache_ok (reqCache_clearAll c)"
    and "PBFTReqCache_ok (clearAllExceptCommitCache c)"
    and "PBFTReqCache_ok (eraseHandledFutureReq k c)"
    and "PBFTReqCache_ok (delInvalidViewChange n h c)"
    and "PBFTReqCache_ok (c\<lparr>m_committedPrepareCache := req\<rparr>)"
    and "PBFTReqCache_ok (c\<lparr>m_prepareCache := req\<rparr>)"
  using assms
  by (simp_all add: PBFTReqCache_ok_def cache_ok addRawPrepare_def addPrepareReq_def addSignReq_def
      addCommitReq_def addFuturePrepareCache_def updateCommittedPrepare_def triggerViewChange_def
      delCache_def reqCache_collectGarbage_def removeInvalidViewChange_def reqCache_clearAll_def
      clearAllExceptCommitCache_def eraseHandledFutureReq_def delInvalidViewChange_def
      removeInvalidCommitCache_def removeInvalidSignCache_def removeInvalidView_def
      removeInvalidFutureCache_def removeInvalidViewChange_upto_def Let_def not_le)

lemma addViewChangeReq_ok [simp]:
  "PBFTReqCache_ok c \<Longrightarrow> int64_range (view m) \<Longrightarrow> PBFTReqCache_ok (addViewChangeReq m c)"
  by (auto simp: PBFTReqCache_ok_def addViewChangeReq_def addViewChange_ok split: option.splits)

section \<open>Sizes\<close>

lemma getSize_addReq:
  assumes "nested_ok sig_entry cache"
  shows "getSizeFromCache h (addReq m cache) =
    (if h = block_hash m \<and> \<not> cacheExists cache h (hash_hex (sig m))
     then Suc (getSizeFromCache h cache) else getSizeFromCache h cache)"
proof (cases "um_find cache (block_hash m)")
  case None
  then show ?thesis
    by (auto simp: getSizeFromCache_def addReq_def cacheExists_def um_length_set)
next
  case (Some inner)
  then show ?thesis
    using nested_okD(1) [OF assms Some]
    by (auto simp: getSizeFromCache_def addReq_def cacheExists_def um_length_set)
qed

lemma cacheExists_addReq: "cacheExists (addReq m cache) (block_hash m) (hash_hex (sig m))"
  by (simp add: cacheExists_def addReq_def Let_def)

text \<open>The number of requests for a block is the number of their signatures.\<close>

lemma getSize_card:
  assumes "nested_ok sig_entry cache" "um_find cache h = Some inner"
  shows "getSizeFromCache h cache = card ((\<lambda>(k, m). sig m) ` set inner)"
proof -
  have ok: "um_ok inner" and key: "\<And>k m. (k, m) \<in> set inner \<Longrightarrow> k = hash_hex (sig m)"
    using nested_okD [OF assms] by (auto simp: sig_entry_def)
  have "inj_on (\<lambda>(k, m). sig m) (set inner)"
    using ok key by (auto simp: inj_on_def um_find_in [OF ok, symmetric]) (metis option.inject um_find_in)+
  moreover have "card (set inner) = length inner"
    using ok by (simp add: um_ok_def distinct_card distinct_map)
  ultimately show ?thesis using assms(2) by (simp add: getSizeFromCache_def card_image)
qed

lemma sig_of_key_hex [simp]: "sig_of_key (hash_hex s) = s"
  by (simp add: sig_of_key_def hash_hex_def FixedHash_of_bytes_def fromBigEndian_word_eq)

text \<open>The signature list of a block: the indices and the signatures of the commit requests.\<close>

lemma generateAndSetSigList_sigs:
  assumes "PBFTReqCache_ok c" "generateAndSetSigList c b n = (True, b')"
  obtains inner where "um_find (m_commitCache c) (block_hash (m_prepareCache c)) = Some inner"
    and "m_sigList b' = map (\<lambda>(k, m). (word_of_nat (idx m), sig m)) inner"
    and "n \<le> length inner" and "b' = b\<lparr>m_sigList := m_sigList b'\<rparr>"
proof -
  obtain inner where inner: "um_find (m_commitCache c) (block_hash (m_prepareCache c)) = Some inner"
    using assms(2) by (auto simp: generateAndSetSigList_def split: option.splits)
  have "\<And>k m. (k, m) \<in> set inner \<Longrightarrow> sig_of_key k = sig m"
    using nested_okD(2) [OF _ inner] assms(1) by (fastforce simp: PBFTReqCache_ok_def sig_entry_def)
  then have sigs: "map (\<lambda>(key, m). (word_of_nat (idx m), sig_of_key key)) inner =
      map (\<lambda>(k, m). (word_of_nat (idx m), sig m)) inner"
    by (intro map_cong) auto
  have "generateAndSetSigList c b n = (if length inner < n then (False, b)
      else (True, b\<lparr>m_sigList := map (\<lambda>(k, m). (word_of_nat (idx m), sig m)) inner\<rparr>))"
    unfolding generateAndSetSigList_def Let_def inner option.case sigs by simp
  with assms(2) have "m_sigList b' = map (\<lambda>(k, m). (word_of_nat (idx m), sig m)) inner"
    "n \<le> length inner" "b' = b\<lparr>m_sigList := m_sigList b'\<rparr>"
    by (auto split: if_splits)
  with inner that show ?thesis by blast
qed

lemma sig_list_facts:
  assumes "PBFTReqCache_ok c" "generateAndSetSigList c b n = (True, b')"
  shows "n \<le> length (m_sigList b') \<and> distinct (map snd (m_sigList b')) \<and>
    b' = b\<lparr>m_sigList := m_sigList b'\<rparr> \<and>
    (\<forall>i s. (i, s) \<in> set (m_sigList b') \<longrightarrow> (\<exists>m. i = word_of_nat (idx m) \<and> s = sig m \<and>
      block_hash m = block_hash (m_prepareCache c) \<and> isExistCommit c m))"
proof -
  obtain inner where inner: "um_find (m_commitCache c) (block_hash (m_prepareCache c)) = Some inner"
    and sigs: "m_sigList b' = map (\<lambda>(k, m). (word_of_nat (idx m), sig m)) inner"
    and len: "n \<le> length inner" and b': "b' = b\<lparr>m_sigList := m_sigList b'\<rparr>"
    using assms by (rule generateAndSetSigList_sigs)
  have ok: "um_ok inner" and entry: "\<And>k m. (k, m) \<in> set inner \<Longrightarrow>
      block_hash m = block_hash (m_prepareCache c) \<and> k = hash_hex (sig m)"
    using nested_okD [of sig_entry, OF _ inner] assms(1) by (auto simp: PBFTReqCache_ok_def sig_entry_def)
  have "map fst inner = map hash_hex (map snd (m_sigList b'))"
    using entry by (auto simp: sigs)
  with ok have "distinct (map snd (m_sigList b'))"
    unfolding um_ok_def by (metis distinct_map)
  moreover have "isExistCommit c m" if "(k, m) \<in> set inner" for k m
  proof -
    have "um_find inner k = Some m" using that ok by (simp add: um_find_in)
    with entry [OF that] inner show ?thesis by (simp add: isExistCommit_def cacheExists_def)
  qed
  ultimately show ?thesis using len b' entry sigs by fastforce
qed

section \<open>The decision to change the view\<close>

text \<open>The nodes that asked for a view above \<open>toView\<close> at the current height or above.\<close>

definition vc_senders :: "PBFTReqCache \<Rightarrow> int \<Rightarrow> int \<Rightarrow> nat set" where
  "vc_senders c toView hnum = {i. \<exists>v inner m. (v, inner) \<in> set (m_recvViewChangeReq c) \<and>
     toView < v \<and> (i, m) \<in> set inner \<and> hnum \<le> height m}"

definition vc_scan_ok :: "int \<Rightarrow> vc_scan \<Rightarrow> bool" where
  "vc_scan_ok toView s \<longleftrightarrow> um_ok (idx_view_map s) \<and> minView s \<le> MAXVIEW \<and>
     (if idx_view_map s = [] then minView s = MAXVIEW else toView < minView s)"

lemma um_set_neq_Nil [simp]: "um_set k v m \<noteq> []"
  using um_set_in [of k v m] by auto

lemma vc_entry_ok:
  "vc_scan_ok toView s \<Longrightarrow> toView < v \<Longrightarrow> v \<le> MAXVIEW \<Longrightarrow> vc_scan_ok toView (vc_entry hnum v e s)"
  by (cases e) (auto simp: vc_scan_ok_def vc_entry_def Let_def split: if_splits)

definition vc_idxs :: "vc_scan \<Rightarrow> nat set" where
  "vc_idxs s = dom (um_find (idx_view_map s))"

lemma vc_entry_idxs:
  "vc_idxs (vc_entry hnum v (i, m) s) = (if hnum \<le> height m then insert i (vc_idxs s) else vc_idxs s)"
  by (auto simp: vc_idxs_def vc_entry_def Let_def um.dom_set insert_absorb)

lemma fold_vc_entry:
  "vc_scan_ok toView s \<Longrightarrow> toView < v \<Longrightarrow> v \<le> MAXVIEW \<Longrightarrow>
    vc_scan_ok toView (fold (vc_entry hnum v) inner s)"
  by (induction inner arbitrary: s) (simp_all add: vc_entry_ok)

lemma fold_vc_entry_idxs:
  "vc_idxs (fold (vc_entry hnum v) inner s) =
    {i. \<exists>m. (i, m) \<in> set inner \<and> hnum \<le> height m} \<union> vc_idxs s"
  by (induction inner arbitrary: s) (auto simp: vc_entry_idxs split: if_splits)

lemma fold_vc_item:
  assumes "vc_scan_ok toView s" "\<And>v inner. (v, inner) \<in> set items \<Longrightarrow> inner \<noteq> [] \<Longrightarrow> v \<le> MAXVIEW"
  shows "vc_scan_ok toView (fold (vc_item hnum toView) items s)"
  using assms
proof (induction items arbitrary: s)
  case (Cons e items)
  obtain v inner where e: "e = (v, inner)" by (cases e)
  with Cons.prems have v: "inner \<noteq> [] \<Longrightarrow> v \<le> MAXVIEW" by auto
  have "vc_scan_ok toView (vc_item hnum toView e s)"
    using Cons.prems(1) v fold_vc_entry [of toView s v hnum inner]
    by (cases "inner = []") (auto simp: e vc_item_def)
  moreover have "\<And>v inner. (v, inner) \<in> set items \<Longrightarrow> inner \<noteq> [] \<Longrightarrow> v \<le> MAXVIEW"
    using Cons.prems(2) by (meson list.set_intros(2))
  ultimately show ?case using Cons.IH [of "vc_item hnum toView e s"] by simp
qed simp

lemma fold_vc_item_idxs:
  "vc_idxs (fold (vc_item hnum toView) items s) =
    {i. \<exists>v inner m. (v, inner) \<in> set items \<and> toView < v \<and> (i, m) \<in> set inner \<and> hnum \<le> height m}
    \<union> vc_idxs s"
proof (induction items arbitrary: s)
  case (Cons e items)
  obtain v inner where e: "e = (v, inner)" by (cases e)
  have "vc_idxs (vc_item hnum toView e s) =
      {i. toView < v \<and> (\<exists>m. (i, m) \<in> set inner \<and> hnum \<le> height m)} \<union> vc_idxs s"
    by (auto simp: e vc_item_def fold_vc_entry_idxs)
  with Cons.IH [of "vc_item hnum toView e s"] show ?case unfolding e by simp blast
qed simp

lemma nested_view_bound:
  assumes "PBFTReqCache_ok c" "(v, inner) \<in> set (m_recvViewChangeReq c)" "inner \<noteq> []"
  shows "v \<le> MAXVIEW"
proof -
  obtain i m where "(i, m) \<in> set inner" using assms(3) by (cases inner) auto
  then have "view_entry v i m"
    using assms(1,2) by (simp add: PBFTReqCache_ok_def nested_ok_def)
  then show ?thesis by (simp add: view_entry_def int64_range_def MAXVIEW_def)
qed

lemma canTriggerViewChange_scan:
  assumes "PBFTReqCache_ok c"
  shows "length (idx_view_map (vc_scan_all c toView hnum)) = card (vc_senders c toView hnum)"
    and "idx_view_map (vc_scan_all c toView hnum) \<noteq> [] \<Longrightarrow>
      toView < minView (vc_scan_all c toView hnum)"
    and "minView (vc_scan_all c toView hnum) \<le> MAXVIEW"
proof -
  let ?s0 = "\<lparr>idx_view_map = [], minView = MAXVIEW, min_height = 2 ^ 63 - 1\<rparr>"
  have "vc_scan_ok toView ?s0" by (simp add: vc_scan_ok_def)
  then have ok: "vc_scan_ok toView (vc_scan_all c toView hnum)"
    unfolding vc_scan_all_def using nested_view_bound [OF assms] by (rule fold_vc_item)
  then show "idx_view_map (vc_scan_all c toView hnum) \<noteq> [] \<Longrightarrow>
      toView < minView (vc_scan_all c toView hnum)"
    and "minView (vc_scan_all c toView hnum) \<le> MAXVIEW"
    by (simp_all add: vc_scan_ok_def)
  have "vc_idxs (vc_scan_all c toView hnum) = vc_senders c toView hnum"
    unfolding vc_scan_all_def fold_vc_item_idxs by (auto simp: vc_senders_def vc_idxs_def)
  with ok show "length (idx_view_map (vc_scan_all c toView hnum)) = card (vc_senders c toView hnum)"
    by (simp add: vc_scan_ok_def vc_idxs_def um.count_dom)
qed

text \<open>
  A view change is triggered only when more than \<open>f\<close> different nodes asked for it, and it
  goes to a view above the one the node is already heading for.
\<close>

lemma canTriggerViewChange_true:
  assumes "PBFTReqCache_ok c" "canTriggerViewChange c f toView hnum cbn = (True, v)"
  shows "toView < v" and "v \<le> MAXVIEW" and "f < card (vc_senders c toView hnum)"
proof -
  let ?s = "vc_scan_all c toView hnum"
  have cnt: "f < u16 (int (length (idx_view_map ?s)))" and v: "v = minView ?s"
    using assms(2) by (auto simp: canTriggerViewChange_def Let_def)
  have "u16 (int n) \<le> n" for n by (simp add: u16_def nat_mod_distrib)
  with cnt have "f < length (idx_view_map ?s)" by (rule less_le_trans)
  then show "f < card (vc_senders c toView hnum)"
    using canTriggerViewChange_scan(1) [OF assms(1)] by simp
  have "idx_view_map ?s \<noteq> []" using \<open>f < length (idx_view_map ?s)\<close> by auto
  with canTriggerViewChange_scan(2,3) [OF assms(1)] v show "toView < v" "v \<le> MAXVIEW" by auto
qed

section \<open>Properties\<close>

text \<open>C22: the decision to change the view. When \<open>canTriggerViewChange\<close> answers yes, more than
  \<open>maxInvalidNodeNum\<close> different nodes sent a view change request for a view above \<open>toView\<close> at the
  current height or above, and the view it returns lies strictly above \<open>toView\<close>.\<close>

theorem view_change_quorum:
  assumes "PBFTReqCache_ok c" "canTriggerViewChange c f toView hnum cbn = (True, v)"
  shows "f < card (vc_senders c toView hnum) \<and> toView < v \<and> v \<le> MAXVIEW"
  using canTriggerViewChange_true [OF assms] by simp

text \<open>Witness for the decision: two nodes ask for view 3 while one may be faulty.\<close>

theorem view_change_quorum_witness:
  "\<exists>c. canTriggerViewChange c 1 2 7 7 = (True, 3) \<and> 1 < card (vc_senders c 2 7)"
proof -
  let ?m = "\<lambda>i. PBFTMsg_new\<lparr>height := 7, view := 3, idx := i\<rparr>"
  let ?c = "addViewChangeReq (?m 1) (addViewChangeReq (?m 2) PBFTReqCache_new)"
  have ok: "PBFTReqCache_ok ?c" by (simp add: int64_range_def)
  have run: "canTriggerViewChange ?c 1 2 7 7 = (True, 3)"
    by (simp add: canTriggerViewChange_def vc_scan_all_def vc_item_def vc_entry_def addViewChangeReq_def
        PBFTReqCache_new_def PrepareReq_new_def um_find_def um_set_def um_adjust_def u16_def MAXVIEW_def Let_def)
  from view_change_quorum [OF ok run] run show ?thesis by blast
qed

text \<open>C21: the view that \<open>canTriggerViewChange\<close> returns is not determined by the requests received.
  Two well-formed caches with the same requests under the same keys, iterated in different orders,
  give the views 3 and 5: a request of a node for a lower view is skipped when its request for a
  higher view came first.\<close>

theorem view_change_order_dependent:
  "\<exists>c c'. PBFTReqCache_ok c \<and> PBFTReqCache_ok c' \<and>
     um_find (m_recvViewChangeReq c) = um_find (m_recvViewChangeReq c') \<and>
     canTriggerViewChange c 0 2 7 7 = (True, 3) \<and> canTriggerViewChange c' 0 2 7 7 = (True, 5)"
proof -
  let ?m = "\<lambda>v. PBFTMsg_new\<lparr>height := 7, view := v, idx := 1\<rparr>"
  let ?c = "addViewChangeReq (?m 5) (addViewChangeReq (?m 3) PBFTReqCache_new)"
  let ?c' = "addViewChangeReq (?m 3) (addViewChangeReq (?m 5) PBFTReqCache_new)"
  note eval = canTriggerViewChange_def vc_scan_all_def vc_item_def vc_entry_def addViewChangeReq_def
    PBFTReqCache_new_def PrepareReq_new_def um_find_def um_set_def um_adjust_def u16_def MAXVIEW_def Let_def
  have "PBFTReqCache_ok ?c" "PBFTReqCache_ok ?c'" by (simp_all add: int64_range_def)
  moreover have "um_find (m_recvViewChangeReq ?c) = um_find (m_recvViewChangeReq ?c')"
    by (rule ext) (simp add: addViewChangeReq_def PBFTReqCache_new_def um_find_def um_set_def)
  moreover have "canTriggerViewChange ?c 0 2 7 7 = (True, 3)" "canTriggerViewChange ?c' 0 2 7 7 = (True, 5)"
    by (simp_all add: eval)
  ultimately show ?thesis by blast
qed

text \<open>C20: the signature list of a committed block. When \<open>generateAndSetSigList\<close> succeeds it puts at
  least \<open>minSigSize\<close> entries into the block, their signatures are pairwise different, each entry is
  the index and the signature of a cached commit request for the hash of the prepare cache, and
  nothing else of the block changes.\<close>

theorem sig_list_of_commits:
  assumes "PBFTReqCache_ok c" "generateAndSetSigList c b n = (True, b')"
  shows "n \<le> length (m_sigList b') \<and> distinct (map snd (m_sigList b')) \<and>
    b' = b\<lparr>m_sigList := m_sigList b'\<rparr> \<and>
    (\<forall>i s. (i, s) \<in> set (m_sigList b') \<longrightarrow> (\<exists>m. i = word_of_nat (idx m) \<and> s = sig m \<and>
      block_hash m = block_hash (m_prepareCache c) \<and> isExistCommit c m))"
  using assms by (rule sig_list_facts)

text \<open>Witness for the signature list: two commit requests for the hash 1.\<close>

theorem sig_list_of_commits_witness:
  "\<exists>c b'. generateAndSetSigList c Block_new 2 = (True, b') \<and> 2 \<le> length (m_sigList b') \<and>
     distinct (map snd (m_sigList b'))"
proof -
  let ?m = "\<lambda>i. PBFTMsg_new\<lparr>block_hash := 1, idx := i, sig := word_of_nat i\<rparr>"
  let ?c = "addCommitReq (?m 1) (addCommitReq (?m 2)
    (PBFTReqCache_new\<lparr>m_prepareCache := PrepareReq_new\<lparr>block_hash := 1\<rparr>\<rparr>))"
  have ok: "PBFTReqCache_ok ?c" by simp
  have "um_find (m_commitCache ?c) 1 = Some [(hash_hex (2 :: h520), ?m 2), (hash_hex (1 :: h520), ?m 1)]"
    by (simp add: addCommitReq_def addReq_def PBFTReqCache_new_def um_find_def um_set_def)
  then obtain b' where "generateAndSetSigList ?c Block_new 2 = (True, b')"
    by (simp add: generateAndSetSigList_def addCommitReq_def)
  with sig_list_of_commits [OF ok this] show ?thesis by blast
qed

end
