(* ===== verification/PBFT_MsgCache.thy ===== *)
theory PBFT_MsgCache
  imports PBFT_Types
begin

text \<open>
  libconsensus/pbft/PBFTMsgCache.h, TimeManager.h and the \<open>QueueSet\<close> of
  libdevcore/Common.h: which messages each peer is known to have, and the timers.

  A \<open>QueueSet\<close> is a set with the queue of its elements in the order of their insertion.
  The locale \<open>bounded_memory\<close> is what the broadcast code relies on: a key that was marked is
  found, and marking forgets at most the oldest key. It is interpreted on the message cache.
\<close>

section \<open>Definitions\<close>

subsection \<open>QueueSet\<close>

record 'a QueueSet =
  m_set :: "'a set"
  m_queue :: "'a list"

definition QueueSet_new :: "'a QueueSet" where
  "QueueSet_new = \<lparr>m_set = {}, m_queue = []\<rparr>"

definition qs_push :: "'a \<Rightarrow> 'a QueueSet \<Rightarrow> 'a QueueSet" where
  "qs_push t q = (if t \<notin> m_set q then \<lparr>m_set = insert t (m_set q), m_queue = m_queue q @ [t]\<rparr> else q)"

definition qs_pop :: "'a QueueSet \<Rightarrow> 'a QueueSet" where
  "qs_pop q = (case m_queue q of
     [] \<Rightarrow> q
   | t # ts \<Rightarrow> \<lparr>m_set = m_set q - {t}, m_queue = ts\<rparr>)"

definition qs_exist :: "'a \<Rightarrow> 'a QueueSet \<Rightarrow> bool" where
  "qs_exist t q \<longleftrightarrow> t \<in> m_set q"

definition qs_size :: "'a QueueSet \<Rightarrow> nat" where
  "qs_size q = card (m_set q)"

definition qs_clear :: "'a QueueSet \<Rightarrow> 'a QueueSet" where
  "qs_clear q = QueueSet_new"

subsection \<open>The messages known to a peer\<close>

record PBFTMsgCache =
  m_knownPrepare :: "string QueueSet"
  m_knownSign :: "string QueueSet"
  m_knownCommit :: "string QueueSet"
  m_knownViewChange :: "string QueueSet"

definition PBFTMsgCache_new :: PBFTMsgCache where
  "PBFTMsgCache_new = \<lparr>m_knownPrepare = QueueSet_new, m_knownSign = QueueSet_new,
     m_knownCommit = QueueSet_new, m_knownViewChange = QueueSet_new\<rparr>"

definition c_known :: nat where "c_known = 1024"

definition insertMessage :: "nat \<Rightarrow> 'a \<Rightarrow> 'a QueueSet \<Rightarrow> 'a QueueSet" where
  "insertMessage maxCacheSize key q =
     qs_push key (if maxCacheSize < qs_size q then qs_pop q else q)"

definition insertByPacketType :: "nat \<Rightarrow> string \<Rightarrow> PBFTMsgCache \<Rightarrow> bool \<times> PBFTMsgCache" where
  "insertByPacketType type key c =
     (if type = PrepareReqPacket
      then (True, c\<lparr>m_knownPrepare := insertMessage c_known key (m_knownPrepare c)\<rparr>)
      else if type = SignReqPacket
      then (True, c\<lparr>m_knownSign := insertMessage c_known key (m_knownSign c)\<rparr>)
      else if type = CommitReqPacket
      then (True, c\<lparr>m_knownCommit := insertMessage c_known key (m_knownCommit c)\<rparr>)
      else if type = ViewChangeReqPacket
      then (True, c\<lparr>m_knownViewChange := insertMessage c_known key (m_knownViewChange c)\<rparr>)
      else (False, c))"

definition msgCache_exists :: "nat \<Rightarrow> string \<Rightarrow> PBFTMsgCache \<Rightarrow> bool" where
  "msgCache_exists type key c =
     (if type = PrepareReqPacket then qs_exist key (m_knownPrepare c)
      else if type = SignReqPacket then qs_exist key (m_knownSign c)
      else if type = CommitReqPacket then qs_exist key (m_knownCommit c)
      else if type = ViewChangeReqPacket then qs_exist key (m_knownViewChange c)
      else False)"

definition msgCache_clearAll :: "PBFTMsgCache \<Rightarrow> PBFTMsgCache" where
  "msgCache_clearAll c = PBFTMsgCache_new"

type_synonym PBFTBroadcastCache = "(h512, PBFTMsgCache) umap"

definition insertKey :: "h512 \<Rightarrow> nat \<Rightarrow> string \<Rightarrow> PBFTBroadcastCache \<Rightarrow> bool \<times> PBFTBroadcastCache" where
  "insertKey nodeId type key bc =
     (let c = (case um_find bc nodeId of Some c \<Rightarrow> c | None \<Rightarrow> PBFTMsgCache_new);
          r = insertByPacketType type key c
      in (fst r, um_set nodeId (snd r) bc))"

definition keyExists :: "h512 \<Rightarrow> nat \<Rightarrow> string \<Rightarrow> PBFTBroadcastCache \<Rightarrow> bool" where
  "keyExists nodeId type key bc =
     (case um_find bc nodeId of None \<Rightarrow> False | Some c \<Rightarrow> msgCache_exists type key c)"

definition broadcast_clearAll :: "PBFTBroadcastCache \<Rightarrow> PBFTBroadcastCache" where
  "broadcast_clearAll bc = map (\<lambda>(n, c). (n, msgCache_clearAll c)) bc"

subsection \<open>Timers\<close>

text \<open>
  \<open>m_viewTimeout\<close> and \<open>m_changeCycle\<close> are \<open>unsigned\<close>; the times are \<open>uint64_t\<close>
  milliseconds, and so is the garbage collection time. \<open>isTimeout\<close> multiplies by
  \<open>pow(1.5, m_changeCycle)\<close> in floating point and truncates: with a cycle of at most 20 the
  power is exact, and so is the product while it is below \<open>2^53\<close>.
\<close>

record TimeManager =
  m_viewTimeout :: nat
  m_changeCycle :: nat
  m_lastSignTime :: nat
  m_lastConsensusTime :: nat
  m_emptyBlockGenTime :: nat
  m_minBlockGenTime :: nat
  m_lastGarbageCollection :: nat

definition kMaxChangeCycle :: nat where "kMaxChangeCycle = 20"
definition CollectInterval :: nat where "CollectInterval = 60"

definition initTimerManager :: "nat \<Rightarrow> nat \<Rightarrow> TimeManager \<Rightarrow> TimeManager" where
  "initTimerManager now view_timeout t =
     t\<lparr>m_lastConsensusTime := now, m_lastSignTime := 0, m_viewTimeout := view_timeout,
       m_changeCycle := 0, m_lastGarbageCollection := now\<rparr>"

definition tm_changeView :: "TimeManager \<Rightarrow> TimeManager" where
  "tm_changeView t = t\<lparr>m_lastConsensusTime := 0, m_lastSignTime := 0\<rparr>"

definition updateChangeCycle :: "TimeManager \<Rightarrow> TimeManager" where
  "updateChangeCycle t = t\<lparr>m_changeCycle := min (m_changeCycle t + 1) kMaxChangeCycle\<rparr>"

definition timeout_interval :: "TimeManager \<Rightarrow> nat" where
  "timeout_interval t = m_viewTimeout t * 3 ^ m_changeCycle t div 2 ^ m_changeCycle t"

definition isTimeout :: "nat \<Rightarrow> TimeManager \<Rightarrow> bool" where
  "isTimeout now t =
     (let last = max (m_lastConsensusTime t) (m_lastSignTime t)
      in timeout_interval t \<le> u64 (int now - int last))"

section \<open>QueueSet\<close>

text \<open>The queue lists the set without repetition.\<close>

definition qs_ok :: "'a QueueSet \<Rightarrow> bool" where
  "qs_ok q \<longleftrightarrow> set (m_queue q) = m_set q \<and> distinct (m_queue q)"

lemma qs_new_ok [simp]: "qs_ok QueueSet_new"
  by (simp add: qs_ok_def QueueSet_new_def)

lemma qs_push_ok [simp]: "qs_ok q \<Longrightarrow> qs_ok (qs_push t q)"
  by (simp add: qs_ok_def qs_push_def)

lemma qs_pop_ok [simp]: "qs_ok q \<Longrightarrow> qs_ok (qs_pop q)"
proof (cases "m_queue q")
  case (Cons t ts)
  assume "qs_ok q"
  with Cons have "m_set q = insert t (set ts)" "t \<notin> set ts" "distinct ts" by (simp_all add: qs_ok_def)
  with Cons show ?thesis by (simp add: qs_ok_def qs_pop_def)
qed (simp add: qs_ok_def qs_pop_def)

lemma qs_size_queue: "qs_ok q \<Longrightarrow> qs_size q = length (m_queue q)"
  using distinct_card [of "m_queue q"] by (simp add: qs_ok_def qs_size_def)

lemma qs_exist_queue: "qs_ok q \<Longrightarrow> qs_exist t q \<longleftrightarrow> t \<in> set (m_queue q)"
  by (simp add: qs_ok_def qs_exist_def)

text \<open>Refinement: on well-formed states the operations are those of a list without repetition.\<close>

lemma qs_push_queue: "qs_ok q \<Longrightarrow> m_queue (qs_push t q) =
    (if t \<in> set (m_queue q) then m_queue q else m_queue q @ [t])"
  by (simp add: qs_ok_def qs_push_def)

lemma qs_pop_queue: "m_queue (qs_pop q) = tl (m_queue q)"
  by (simp add: qs_pop_def split: list.splits)

lemma insertMessage_ok [simp]: "qs_ok q \<Longrightarrow> qs_ok (insertMessage n key q)"
  by (simp add: insertMessage_def)

lemma insertMessage_queue:
  assumes "qs_ok q"
  shows "m_queue (insertMessage n key q) =
    (let old = (if n < length (m_queue q) then tl (m_queue q) else m_queue q)
     in if key \<in> set old then old else old @ [key])"
  using assms by (simp add: insertMessage_def qs_push_queue qs_pop_queue qs_size_queue Let_def)

lemma insertMessage_size:
  assumes "qs_ok q" "length (m_queue q) \<le> Suc n"
  shows "length (m_queue (insertMessage n key q)) \<le> Suc n"
  using assms by (auto simp: insertMessage_queue Let_def)

lemma insertMessage_exist: "qs_ok q \<Longrightarrow> qs_exist key (insertMessage n key q)"
  by (auto simp: qs_exist_queue insertMessage_queue Let_def)

section \<open>The memory of the broadcast code\<close>

locale bounded_memory =
  fixes ok :: "'c \<Rightarrow> bool"
    and mark :: "'n \<Rightarrow> 'k \<Rightarrow> 'c \<Rightarrow> 'c"
    and known :: "'n \<Rightarrow> 'k \<Rightarrow> 'c \<Rightarrow> bool"
    and valid :: "'k \<Rightarrow> bool"
  assumes mark_ok: "ok c \<Longrightarrow> ok (mark n k c)"
    and mark_known: "ok c \<Longrightarrow> valid k \<Longrightarrow> known n k (mark n k c)"
    and mark_other: "ok c \<Longrightarrow> n' \<noteq> n \<Longrightarrow> known n' k' (mark n k c) = known n' k' c"
    and mark_new: "ok c \<Longrightarrow> known n k' (mark n k c) \<Longrightarrow> k' = k \<or> known n k' c"
begin

lemma fold_mark_ok: "ok c \<Longrightarrow> ok (fold (\<lambda>n. mark n k) ns c)"
  by (induction ns arbitrary: c) (simp_all add: mark_ok)

lemma fold_mark_keep:
  "ok c \<Longrightarrow> known n k c \<Longrightarrow> n \<notin> set ns \<Longrightarrow> known n k (fold (\<lambda>n. mark n k) ns c)"
proof (induction ns arbitrary: c)
  case (Cons a ns)
  then have "known n k (mark a k c)" using mark_other [of c n a k k] by simp
  with Cons show ?case by (simp add: mark_ok)
qed simp

lemma fold_mark_known:
  "ok c \<Longrightarrow> valid k \<Longrightarrow> distinct ns \<Longrightarrow> n \<in> set ns \<Longrightarrow> known n k (fold (\<lambda>n. mark n k) ns c)"
proof (induction ns arbitrary: c)
  case (Cons a ns)
  have ok: "ok (mark a k c)" using Cons.prems(1) by (rule mark_ok)
  show ?case
  proof (cases "n = a")
    case True
    have "known a k (mark a k c)" using Cons.prems(1,2) by (rule mark_known)
    from fold_mark_keep [OF ok this] True Cons.prems(3) show ?thesis by simp
  next
    case False
    with Cons.IH [OF ok Cons.prems(2)] Cons.prems(3,4) show ?thesis by simp
  qed
qed simp

end

definition msgCache_ok :: "PBFTMsgCache \<Rightarrow> bool" where
  "msgCache_ok c \<longleftrightarrow> qs_ok (m_knownPrepare c) \<and> qs_ok (m_knownSign c) \<and> qs_ok (m_knownCommit c) \<and>
     qs_ok (m_knownViewChange c)"

definition msgCache_bound :: "PBFTMsgCache \<Rightarrow> bool" where
  "msgCache_bound c \<longleftrightarrow> (\<forall>q \<in> {m_knownPrepare c, m_knownSign c, m_knownCommit c, m_knownViewChange c}.
     length (m_queue q) \<le> Suc c_known)"

definition broadcastCache_ok :: "PBFTBroadcastCache \<Rightarrow> bool" where
  "broadcastCache_ok bc \<longleftrightarrow> um_ok bc \<and> (\<forall>n c. um_find bc n = Some c \<longrightarrow> msgCache_ok c \<and> msgCache_bound c)"

lemma PBFTMsgCache_new_ok [simp]: "msgCache_ok PBFTMsgCache_new" "msgCache_bound PBFTMsgCache_new"
  by (simp_all add: msgCache_ok_def msgCache_bound_def PBFTMsgCache_new_def)
     (simp_all add: QueueSet_new_def)

lemma insertByPacketType_ok:
  assumes "msgCache_ok c" "msgCache_bound c"
  shows "msgCache_ok (snd (insertByPacketType type key c))"
    and "msgCache_bound (snd (insertByPacketType type key c))"
  using assms by (auto simp: insertByPacketType_def msgCache_ok_def msgCache_bound_def insertMessage_size)

lemma insertKey_ok [simp]: "broadcastCache_ok bc \<Longrightarrow> broadcastCache_ok (snd (insertKey n type key bc))"
  by (auto simp: broadcastCache_ok_def insertKey_def Let_def insertByPacketType_ok split: option.splits)

lemmas packet_types = PrepareReqPacket_def SignReqPacket_def CommitReqPacket_def ViewChangeReqPacket_def

lemma insertKey_exists:
  "broadcastCache_ok bc \<Longrightarrow> type \<le> ViewChangeReqPacket \<Longrightarrow>
    keyExists n type key (snd (insertKey n type key bc))"
  by (auto simp: keyExists_def insertKey_def Let_def insertByPacketType_def msgCache_exists_def
      broadcastCache_ok_def msgCache_ok_def insertMessage_exist packet_types PBFTMsgCache_new_def
      split: option.splits)

lemma insertKey_other: "n' \<noteq> n \<Longrightarrow> keyExists n' t k (snd (insertKey n type key bc)) = keyExists n' t k bc"
  by (simp add: keyExists_def insertKey_def Let_def)

lemma set_tl_subset: "set (tl xs) \<subseteq> set xs"
  by (cases xs) auto

lemma insertMessage_new:
  "qs_ok q \<Longrightarrow> qs_exist k (insertMessage n key q) \<Longrightarrow> k = key \<or> qs_exist k q"
  using set_tl_subset [of "m_queue q"]
  by (simp add: qs_exist_queue insertMessage_queue Let_def split: if_splits) blast+

lemma insertByPacketType_new:
  assumes "msgCache_ok c" "msgCache_exists t k (snd (insertByPacketType type key c))"
  shows "(t, k) = (type, key) \<or> msgCache_exists t k c"
proof (cases "t = type")
  case True
  note new = assms(1) [unfolded msgCache_ok_def] insertMessage_new [of _ k c_known key]
  from True new assms(2) show ?thesis
    unfolding insertByPacketType_def msgCache_exists_def
    by (cases "type = PrepareReqPacket"; cases "type = SignReqPacket"; cases "type = CommitReqPacket";
        cases "type = ViewChangeReqPacket"; simp add: packet_types)
next
  case False
  with assms(2) show ?thesis
    unfolding insertByPacketType_def msgCache_exists_def
    by (cases "type = PrepareReqPacket"; cases "type = SignReqPacket"; cases "type = CommitReqPacket";
        cases "type = ViewChangeReqPacket"; simp add: packet_types split: if_splits)
qed

lemma insertKey_new:
  assumes "broadcastCache_ok bc" "keyExists n t k (snd (insertKey n type key bc))"
  shows "(t, k) = (type, key) \<or> keyExists n t k bc"
proof (cases "um_find bc n")
  case None
  have "\<not> msgCache_exists t k PBFTMsgCache_new"
    by (simp add: msgCache_exists_def PBFTMsgCache_new_def qs_exist_def QueueSet_new_def)
  with None assms(2) insertByPacketType_new [OF PBFTMsgCache_new_ok(1), of t k type key] show ?thesis
    by (simp add: keyExists_def insertKey_def Let_def)
next
  case (Some c)
  with assms insertByPacketType_new [of c t k type key] show ?thesis
    by (simp add: keyExists_def insertKey_def Let_def broadcastCache_ok_def)
qed

interpretation bcast: bounded_memory broadcastCache_ok
  "\<lambda>n (t, k) c. snd (insertKey n t k c)" "\<lambda>n (t, k) c. keyExists n t k c"
  "\<lambda>(t, k). t \<le> ViewChangeReqPacket"
  by unfold_locales (auto simp: insertKey_exists insertKey_other dest: insertKey_new)

section \<open>Properties\<close>

text \<open>the memory of sent messages is bounded. After any sequence of insertions into the empty
  broadcast cache, for every peer and every packet type, the queue and the set of known keys agree,
  no key is held twice and at most 1025 keys are held.\<close>

theorem broadcast_cache_bounded:
  "broadcastCache_ok (fold (\<lambda>(n, t, k) bc. snd (insertKey n t k bc)) ops [])"
proof -
  have "broadcastCache_ok bc \<Longrightarrow> broadcastCache_ok (fold (\<lambda>(n, t, k) bc. snd (insertKey n t k bc)) ops bc)" for bc
    by (induction ops arbitrary: bc) (simp_all add: case_prod_unfold)
  moreover have "broadcastCache_ok []" by (simp add: broadcastCache_ok_def)
  ultimately show ?thesis by blast
qed

text \<open>C23: the view timer. While the clock does not run behind the last consensus or sign time,
  \<open>isTimeout\<close> holds exactly from \<open>last + m_viewTimeout * 1.5^m_changeCycle\<close> on; when the clock was
  set back the unsigned difference wraps and the timer fires at once.\<close>

theorem view_timer:
  assumes "now < 2 ^ 64" "max (m_lastConsensusTime t) (m_lastSignTime t) < 2 ^ 64"
    and "timeout_interval t < 2 ^ 63"
  shows "isTimeout now t \<longleftrightarrow>
    (if max (m_lastConsensusTime t) (m_lastSignTime t) \<le> now
     then max (m_lastConsensusTime t) (m_lastSignTime t) + timeout_interval t \<le> now
     else max (m_lastConsensusTime t) (m_lastSignTime t) + timeout_interval t \<le> now + 2 ^ 64)"
proof -
  define last where "last = max (m_lastConsensusTime t) (m_lastSignTime t)"
  have last: "last < 2 ^ 64" using assms(2) by (simp only: last_def)
  have u: "u64 (int now - int last) = (if last \<le> now then now - last else now + 2 ^ 64 - last)"
  proof (cases "last \<le> now")
    case True
    then show ?thesis using assms(1) by (simp add: u64_def nat_diff_distrib flip: of_nat_diff)
  next
    case False
    have "(int now - int last) mod 2 ^ 64 = (int now - int last + 2 ^ 64) mod 2 ^ 64" by simp
    also have "\<dots> = int now - int last + 2 ^ 64"
      using False last by (intro mod_pos_pos_trivial) simp_all
    also have "\<dots> = int (now + 2 ^ 64 - last)"
      using last by (simp add: of_nat_diff)
    finally have "(int now - int last) mod 2 ^ 64 = int (now + 2 ^ 64 - last)" .
    with False show ?thesis by (simp only: u64_def nat_int if_False)
  qed
  show ?thesis using last
    unfolding isTimeout_def Let_def last_def [symmetric] u by auto
qed

text \<open>Witness for the view timer: 3000 ms, second cycle.\<close>

theorem view_timer_witness:
  "\<exists>t. timeout_interval t = 6750 \<and> isTimeout 16750 t \<and> \<not> isTimeout 16749 t \<and> isTimeout 9999 t"
proof -
  let ?t = "\<lparr>m_viewTimeout = 3000, m_changeCycle = 2, m_lastSignTime = 0, m_lastConsensusTime = 10000,
    m_emptyBlockGenTime = 1000, m_minBlockGenTime = 500, m_lastGarbageCollection = 0\<rparr>"
  have i: "timeout_interval ?t = 6750" by (simp add: timeout_interval_def)
  from view_timer [of 16750 ?t] view_timer [of 16749 ?t] view_timer [of 9999 ?t] i
  have "isTimeout 16750 ?t" "\<not> isTimeout 16749 ?t" "isTimeout 9999 ?t" by simp_all
  with i show ?thesis by blast
qed

end
