(* ===== verification/Effects.thy ===== *)
theory Effects
  imports BCOS_Prelude
begin

text \<open>
  Operations that read and change an object and may throw: a function from the state to a
  result and the state at the end. An exception keeps what was changed before it was thrown,
  as in the source.

  \<open>wp\<close> is the weakest precondition for a postcondition on the result and the final state; its
  rules are collected in \<open>wp_rules\<close>. \<open>keeps I m\<close> says that \<open>m\<close> keeps the invariant \<open>I\<close> whether it
  returns or throws, and \<open>within R m\<close> that the state before and the state after are related by
  the preorder \<open>R\<close>; their rules follow the structure of the operation.
\<close>

section \<open>Definitions\<close>

type_synonym ('s, 'e, 'a) eff = "'s \<Rightarrow> ('e + 'a) \<times> 's"

definition e_ret :: "'a \<Rightarrow> ('s, 'e, 'a) eff" where
  "e_ret x = (\<lambda>s. (Inr x, s))"

definition e_throw :: "'e \<Rightarrow> ('s, 'e, 'a) eff" where
  "e_throw e = (\<lambda>s. (Inl e, s))"

definition e_bind :: "('s, 'e, 'a) eff \<Rightarrow> ('a \<Rightarrow> ('s, 'e, 'b) eff) \<Rightarrow> ('s, 'e, 'b) eff" where
  "e_bind m f = (\<lambda>s. case m s of (Inl e, s') \<Rightarrow> (Inl e, s') | (Inr x, s') \<Rightarrow> f x s')"

definition e_seq :: "('s, 'e, 'a) eff \<Rightarrow> ('s, 'e, 'b) eff \<Rightarrow> ('s, 'e, 'b) eff" where
  "e_seq m n = e_bind m (\<lambda>_. n)"

definition e_get :: "('s \<Rightarrow> 'a) \<Rightarrow> ('s, 'e, 'a) eff" where
  "e_get f = (\<lambda>s. (Inr (f s), s))"

definition e_mod :: "('s \<Rightarrow> 's) \<Rightarrow> ('s, 'e, unit) eff" where
  "e_mod f = (\<lambda>s. (Inr (), f s))"

definition e_lift :: "'e + 'a \<Rightarrow> ('s, 'e, 'a) eff" where
  "e_lift r = (\<lambda>s. (r, s))"

definition e_try :: "('s, 'e, 'a) eff \<Rightarrow> ('e \<Rightarrow> ('s, 'e, 'a) eff) \<Rightarrow> ('s, 'e, 'a) eff" where
  "e_try m h = (\<lambda>s. case m s of (Inl e, s') \<Rightarrow> h e s' | (Inr x, s') \<Rightarrow> (Inr x, s'))"

definition e_when :: "bool \<Rightarrow> ('s, 'e, unit) eff \<Rightarrow> ('s, 'e, unit) eff" where
  "e_when b m = (if b then m else e_ret ())"

text \<open>Run on the state as it is now.\<close>

definition e_on :: "('s \<Rightarrow> ('s, 'e, 'a) eff) \<Rightarrow> ('s, 'e, 'a) eff" where
  "e_on f = (\<lambda>s. f s s)"

text \<open>A loop over the elements of a list.\<close>

primrec e_iter :: "('a \<Rightarrow> ('s, 'e, unit) eff) \<Rightarrow> 'a list \<Rightarrow> ('s, 'e, unit) eff" where
  "e_iter f [] = e_ret ()"
| "e_iter f (x # xs) = e_seq (f x) (e_iter f xs)"

text \<open>An operation of a part of the state: \<open>get\<close> and \<open>put\<close> read and write the part, \<open>wrap\<close> embeds its
  exceptions.\<close>

definition e_zoom :: "('s \<Rightarrow> 't) \<Rightarrow> ('t \<Rightarrow> 's \<Rightarrow> 's) \<Rightarrow> ('e \<Rightarrow> 'f) \<Rightarrow> ('t, 'e, 'a) eff \<Rightarrow> ('s, 'f, 'a) eff" where
  "e_zoom get put wrap m = (\<lambda>s. case m (get s) of (r, t) \<Rightarrow> (map_sum wrap id r, put t s))"

section \<open>Weakest preconditions\<close>

definition wp :: "('s, 'e, 'a) eff \<Rightarrow> ('e + 'a \<Rightarrow> 's \<Rightarrow> bool) \<Rightarrow> 's \<Rightarrow> bool" where
  "wp m Q s = (case m s of (r, s') \<Rightarrow> Q r s')"

named_theorems wp_rules \<open>weakest preconditions of the operations\<close>

lemma wp_ret [wp_rules]: "wp (e_ret x) Q s \<longleftrightarrow> Q (Inr x) s"
  by (simp add: wp_def e_ret_def)

lemma wp_throw [wp_rules]: "wp (e_throw e) Q s \<longleftrightarrow> Q (Inl e) s"
  by (simp add: wp_def e_throw_def)

lemma wp_bind [wp_rules]:
  "wp (e_bind m f) Q s \<longleftrightarrow> wp m (\<lambda>r s'. case r of Inl e \<Rightarrow> Q (Inl e) s' | Inr x \<Rightarrow> wp (f x) Q s') s"
  by (simp add: wp_def e_bind_def split: prod.splits sum.splits)

lemma wp_seq [wp_rules]:
  "wp (e_seq m n) Q s \<longleftrightarrow> wp m (\<lambda>r s'. case r of Inl e \<Rightarrow> Q (Inl e) s' | Inr x \<Rightarrow> wp n Q s') s"
  by (simp add: e_seq_def wp_bind)

lemma wp_get [wp_rules]: "wp (e_get f) Q s \<longleftrightarrow> Q (Inr (f s)) s"
  by (simp add: wp_def e_get_def)

lemma wp_mod [wp_rules]: "wp (e_mod f) Q s \<longleftrightarrow> Q (Inr ()) (f s)"
  by (simp add: wp_def e_mod_def)

lemma wp_lift [wp_rules]: "wp (e_lift r) Q s \<longleftrightarrow> Q r s"
  by (simp add: wp_def e_lift_def)

lemma wp_try [wp_rules]:
  "wp (e_try m h) Q s \<longleftrightarrow> wp m (\<lambda>r s'. case r of Inl e \<Rightarrow> wp (h e) Q s' | Inr x \<Rightarrow> Q (Inr x) s') s"
  by (simp add: wp_def e_try_def split: prod.splits sum.splits)

lemma wp_when [wp_rules]: "wp (e_when b m) Q s \<longleftrightarrow> (if b then wp m Q s else Q (Inr ()) s)"
  by (simp add: e_when_def wp_ret)

lemma wp_on [wp_rules]: "wp (e_on f) Q s \<longleftrightarrow> wp (f s) Q s"
  by (simp add: wp_def e_on_def)

lemma wp_zoom [wp_rules]:
  "wp (e_zoom get put wrap m) Q s \<longleftrightarrow> wp m (\<lambda>r t. Q (map_sum wrap id r) (put t s)) (get s)"
  by (simp add: wp_def e_zoom_def split: prod.splits)

lemma wp_mono: "wp m Q s \<Longrightarrow> (\<And>r s'. Q r s' \<Longrightarrow> Q' r s') \<Longrightarrow> wp m Q' s"
  by (simp add: wp_def split: prod.splits)

lemma wp_conj: "wp m P s \<Longrightarrow> wp m Q s \<Longrightarrow> wp m (\<lambda>r t. P r t \<and> Q r t) s"
  by (simp add: wp_def split: prod.splits)

text \<open>A loop that does not throw, with an assertion for the elements that are done.\<close>

lemma wp_iter:
  assumes "P [] s"
    and "\<And>ys x zs t. xs = ys @ x # zs \<Longrightarrow> P ys t \<Longrightarrow> wp (f x) (\<lambda>r t'. r = Inr () \<and> P (ys @ [x]) t') t"
  shows "wp (e_iter f xs) (\<lambda>r t. r = Inr () \<and> P xs t) s"
proof -
  have "wp (e_iter f zs) (\<lambda>r t. r = Inr () \<and> P xs t) t" if "xs = ys @ zs" "P ys t" for ys zs t
    using that
  proof (induction zs arbitrary: ys t)
    case (Cons x zs)
    have "wp (f x) (\<lambda>r t'. r = Inr () \<and> P (ys @ [x]) t') t" using assms(2) Cons.prems by simp
    then show ?case unfolding e_iter.simps wp_seq
      by (rule wp_mono) (use Cons.IH [of "ys @ [x]"] Cons.prems in auto)
  qed (simp add: wp_ret)
  from this [of "[]" xs s] assms(1) show ?thesis by simp
qed

lemma wp_run: "m s = (r, s') \<Longrightarrow> wp m Q s \<Longrightarrow> Q r s'"
  by (simp add: wp_def)

lemma seq_run: "m s = (Inr x, t) \<Longrightarrow> e_seq m n s = n t"
  by (simp add: e_seq_def e_bind_def)

lemma wp_self: "wp m (\<lambda>r s'. m s = (r, s')) s"
  by (simp add: wp_def split: prod.splits)

section \<open>Invariants\<close>

definition keeps :: "('s \<Rightarrow> bool) \<Rightarrow> ('s, 'e, 'a) eff \<Rightarrow> bool" where
  "keeps I m \<longleftrightarrow> (\<forall>s. I s \<longrightarrow> I (snd (m s)))"

named_theorems keeps_rules \<open>operations that keep an invariant\<close>

lemma keepsI: "(\<And>s. I s \<Longrightarrow> wp m (\<lambda>_. I) s) \<Longrightarrow> keeps I m"
  by (simp add: keeps_def wp_def case_prod_unfold)

lemma keepsD: "keeps I m \<Longrightarrow> I s \<Longrightarrow> I (snd (m s))"
  by (simp add: keeps_def)

lemma keeps_wp: "keeps I m \<Longrightarrow> I s \<Longrightarrow> wp m (\<lambda>_. I) s"
  by (simp add: keeps_def wp_def case_prod_unfold)

lemma keeps_ret [keeps_rules]: "keeps I (e_ret x)"
  by (simp add: keeps_def e_ret_def)

lemma keeps_throw [keeps_rules]: "keeps I (e_throw e)"
  by (simp add: keeps_def e_throw_def)

lemma keeps_get [keeps_rules]: "keeps I (e_get f)"
  by (simp add: keeps_def e_get_def)

lemma keeps_lift [keeps_rules]: "keeps I (e_lift r)"
  by (simp add: keeps_def e_lift_def)

lemma keeps_mod: "(\<And>s. I s \<Longrightarrow> I (f s)) \<Longrightarrow> keeps I (e_mod f)"
  by (simp add: keeps_def e_mod_def)

lemma keeps_bind [keeps_rules]: "keeps I m \<Longrightarrow> (\<And>x. keeps I (f x)) \<Longrightarrow> keeps I (e_bind m f)"
  by (auto simp: keeps_def e_bind_def split: prod.splits sum.splits)

lemma keeps_seq [keeps_rules]: "keeps I m \<Longrightarrow> keeps I n \<Longrightarrow> keeps I (e_seq m n)"
  by (simp add: e_seq_def keeps_bind)

lemma keeps_try [keeps_rules]: "keeps I m \<Longrightarrow> (\<And>e. keeps I (h e)) \<Longrightarrow> keeps I (e_try m h)"
  by (auto simp: keeps_def e_try_def split: prod.splits sum.splits)

lemma keeps_when [keeps_rules]: "(b \<Longrightarrow> keeps I m) \<Longrightarrow> keeps I (e_when b m)"
  by (simp add: e_when_def keeps_ret)

lemma keeps_if [keeps_rules]: "(b \<Longrightarrow> keeps I m) \<Longrightarrow> (\<not> b \<Longrightarrow> keeps I n) \<Longrightarrow> keeps I (if b then m else n)"
  by simp

lemma keeps_case_option [keeps_rules]:
  "(v = None \<Longrightarrow> keeps I m) \<Longrightarrow> (\<And>x. v = Some x \<Longrightarrow> keeps I (n x)) \<Longrightarrow>
    keeps I (case v of None \<Rightarrow> m | Some x \<Rightarrow> n x)"
  by (cases v) simp_all

lemma keeps_case_list [keeps_rules]:
  "(v = [] \<Longrightarrow> keeps I m) \<Longrightarrow> (\<And>x xs. v = x # xs \<Longrightarrow> keeps I (n x xs)) \<Longrightarrow>
    keeps I (case v of [] \<Rightarrow> m | x # xs \<Rightarrow> n x xs)"
  by (cases v) simp_all

lemma keeps_case_prod [keeps_rules]: "(\<And>x y. v = (x, y) \<Longrightarrow> keeps I (n x y)) \<Longrightarrow> keeps I (case v of (x, y) \<Rightarrow> n x y)"
  by (cases v) simp

lemma keeps_case_sum [keeps_rules]:
  "(\<And>x. v = Inl x \<Longrightarrow> keeps I (m x)) \<Longrightarrow> (\<And>x. v = Inr x \<Longrightarrow> keeps I (n x)) \<Longrightarrow>
    keeps I (case v of Inl x \<Rightarrow> m x | Inr x \<Rightarrow> n x)"
  by (cases v) simp_all

lemma keeps_on: "(\<And>s. I s \<Longrightarrow> wp (f s) (\<lambda>_. I) s) \<Longrightarrow> keeps I (e_on f)"
  by (rule keepsI) (simp add: wp_on)

lemma keeps_on_all [keeps_rules]: "(\<And>s. keeps I (f s)) \<Longrightarrow> keeps I (e_on f)"
  by (simp add: keeps_def e_on_def)

lemma keeps_let [keeps_rules]: "(\<And>x. x = v \<Longrightarrow> keeps I (f x)) \<Longrightarrow> keeps I (let x = v in f x)"
  by simp

lemma keeps_iter [keeps_rules]: "(\<And>x. x \<in> set xs \<Longrightarrow> keeps I (f x)) \<Longrightarrow> keeps I (e_iter f xs)"
  by (induction xs) (simp_all add: keeps_ret keeps_seq)

lemma keeps_zoom:
  "(\<And>s. I s \<Longrightarrow> wp m (\<lambda>_ t. I (put t s)) (get s)) \<Longrightarrow> keeps I (e_zoom get put wrap m)"
  by (rule keepsI) (simp add: wp_zoom)

lemma keeps_conj: "keeps I m \<Longrightarrow> keeps J m \<Longrightarrow> keeps (\<lambda>s. I s \<and> J s) m"
  by (simp add: keeps_def)

section \<open>Exceptions that are not thrown\<close>

text \<open>From a state with \<open>I\<close> the operation ends in a state with \<open>I\<close> and does not throw what \<open>E\<close> holds for.\<close>

definition never :: "('e \<Rightarrow> bool) \<Rightarrow> ('s \<Rightarrow> bool) \<Rightarrow> ('s, 'e, 'a) eff \<Rightarrow> bool" where
  "never E I m \<longleftrightarrow> (\<forall>s. I s \<longrightarrow> I (snd (m s)) \<and> (\<forall>e. fst (m s) = Inl e \<longrightarrow> \<not> E e))"

named_theorems never_rules \<open>operations that do not throw\<close>

lemma neverI: "(\<And>s. I s \<Longrightarrow> wp m (\<lambda>r t. I t \<and> (\<forall>e. r = Inl e \<longrightarrow> \<not> E e)) s) \<Longrightarrow> never E I m"
  by (simp add: never_def wp_def case_prod_unfold)

lemma neverD: "never E I m \<Longrightarrow> I s \<Longrightarrow> fst (m s) = Inl e \<Longrightarrow> \<not> E e"
  by (simp add: never_def)

lemma never_wp: "never E I m \<Longrightarrow> I s \<Longrightarrow> wp m (\<lambda>r t. I t \<and> (\<forall>e. r = Inl e \<longrightarrow> \<not> E e)) s"
  by (simp add: never_def wp_def case_prod_unfold)

lemma never_ret [never_rules]: "never E I (e_ret x)"
  by (simp add: never_def e_ret_def)

lemma never_throw [never_rules]: "\<not> E e \<Longrightarrow> never E I (e_throw e)"
  by (simp add: never_def e_throw_def)

lemma never_lift [never_rules]: "(\<And>e. r = Inl e \<Longrightarrow> \<not> E e) \<Longrightarrow> never E I (e_lift r)"
  by (simp add: never_def e_lift_def)

lemma never_mod: "(\<And>s. I s \<Longrightarrow> I (f s)) \<Longrightarrow> never E I (e_mod f)"
  by (simp add: never_def e_mod_def)

lemma never_bind [never_rules]: "never E I m \<Longrightarrow> (\<And>x. never E I (f x)) \<Longrightarrow> never E I (e_bind m f)"
  unfolding never_def e_bind_def by (auto split: prod.splits sum.splits)

lemma never_seq [never_rules]: "never E I m \<Longrightarrow> never E I n \<Longrightarrow> never E I (e_seq m n)"
  by (simp add: e_seq_def never_bind)

lemma never_try [never_rules]: "never E' I m \<Longrightarrow> (\<And>e. \<not> E' e \<Longrightarrow> never E I (h e)) \<Longrightarrow> never E I (e_try m h)"
  unfolding never_def e_try_def by (auto split: prod.splits sum.splits)

lemma never_when [never_rules]: "(b \<Longrightarrow> never E I m) \<Longrightarrow> never E I (e_when b m)"
  by (simp add: e_when_def never_ret)

lemma never_if [never_rules]:
  "(b \<Longrightarrow> never E I m) \<Longrightarrow> (\<not> b \<Longrightarrow> never E I n) \<Longrightarrow> never E I (if b then m else n)"
  by simp

lemma never_case_option [never_rules]:
  "(v = None \<Longrightarrow> never E I m) \<Longrightarrow> (\<And>x. v = Some x \<Longrightarrow> never E I (n x)) \<Longrightarrow>
    never E I (case v of None \<Rightarrow> m | Some x \<Rightarrow> n x)"
  by (cases v) simp_all

lemma never_case_sum [never_rules]:
  "(\<And>x. v = Inl x \<Longrightarrow> never E I (m x)) \<Longrightarrow> (\<And>x. v = Inr x \<Longrightarrow> never E I (n x)) \<Longrightarrow>
    never E I (case v of Inl x \<Rightarrow> m x | Inr x \<Rightarrow> n x)"
  by (cases v) simp_all

lemma never_case_prod [never_rules]:
  "(\<And>x y. v = (x, y) \<Longrightarrow> never E I (n x y)) \<Longrightarrow> never E I (case v of (x, y) \<Rightarrow> n x y)"
  by (cases v) simp

lemma never_let [never_rules]: "(\<And>x. x = v \<Longrightarrow> never E I (f x)) \<Longrightarrow> never E I (let x = v in f x)"
  by simp

lemma never_on: "(\<And>s. I s \<Longrightarrow> wp (f s) (\<lambda>r t. I t \<and> (\<forall>e. r = Inl e \<longrightarrow> \<not> E e)) s) \<Longrightarrow> never E I (e_on f)"
  by (rule neverI) (simp add: wp_on)

lemma never_on_all [never_rules]: "(\<And>s. never E I (f s)) \<Longrightarrow> never E I (e_on f)"
  by (simp add: never_def e_on_def)

section \<open>Preorders\<close>

definition within :: "('s \<Rightarrow> 's \<Rightarrow> bool) \<Rightarrow> ('s, 'e, 'a) eff \<Rightarrow> bool" where
  "within R m \<longleftrightarrow> (\<forall>s. R s (snd (m s)))"

lemma within_keeps: "reflp R \<Longrightarrow> (\<And>s. keeps (R s) m) \<Longrightarrow> within R m"
  by (simp add: within_def keeps_def reflp_def)

lemma withinD: "within R m \<Longrightarrow> R s (snd (m s))"
  by (simp add: within_def)

end
