(* ===== verification/PBFT_State.thy ===== *)
theory PBFT_State
  imports PBFT_ReqCache PBFT_MsgCache Effects
begin

text \<open>
  libconsensus/pbft/PBFTEngine.h, libconsensus/ConsensusEngineBase.h and ConsensusEngineBase.cpp:
  the state of the consensus engine, the checks it makes on requests and blocks, its
  configuration and the sending of messages.

  The record \<open>PBFTEngine\<close> has the members of \<open>ConsensusEngineBase\<close> and \<open>PBFTEngine\<close>. What the engine
  asks of the abstract interfaces it is built on (the clock, the sessions of the network, the
  chain, the sync module, the pool, the block verifier, the database) is the record \<open>node_env\<close>: the
  answers during one call of the engine. What it tells them is appended to \<open>m_events\<close>. The clock is
  read once per call. A null pointer dereference is the error \<open>NullDeref\<close>.
\<close>

section \<open>Definitions\<close>

subsection \<open>State\<close>

datatype NodeAccountType = ObserverAccount | SealerAccount

datatype CheckResult = VALID | INVALID | FUTURE

datatype CommitResult = CommitOK | ERROR_NUMBER | ERROR_PARENT_HASH | ERROR_COMMITTING

datatype pbft_exn = EmptySealers | BlockSealerListWrong | OverThresTransNum | DisabledFutureTime
  | InvalidBlockHeight | ParentNoneExist | WrongParentHash | InvalidArgument | DatabaseError
  | NotEnoughAvailableSpace | BadLexicalCast | OpenSysTableFailed | ExecutionFailed
  | EthExn eth_exn | NullDeref

text \<open>What is not a C++ exception: it ends the process and no handler catches it.\<close>

definition fatal :: "pbft_exn \<Rightarrow> bool" where
  "fatal e \<longleftrightarrow> e = NullDeref \<or> e = EthExn OutOfBounds"

datatype pbft_event = AsyncMulticast "h512 list" bytes
  | AsyncSend h512 bytes
  | SetNodeListByGroupID "h512 list"
  | NoteSealingBlockNumber int
  | CommitBlock Block "nat option"
  | DropBlockTrans Block
  | HandleBadBlock Block
  | NotifyNextLeaderReset "h256 set"
  | OnTimeout nat
  | OnCommitBlock nat nat nat
  | OnViewChange

record node_env =
  env_now :: nat
  env_crypto :: crypto
  env_rc2 :: bool
  env_sessions :: "h512 list"
  env_lexical_cast :: "string \<Rightarrow> nat option"
  chain_number :: int
  chain_getBlockByHash :: "h256 \<Rightarrow> Block option"
  chain_getBlockByNumber :: "int \<Rightarrow> Block option"
  chain_numberHash :: "int \<Rightarrow> h256"
  chain_sealerList :: "h512 list option"
  chain_observerList :: "h512 list option"
  chain_getSystemConfigByKey :: "string \<Rightarrow> string"
  chain_commitBlock :: "Block \<Rightarrow> nat option \<Rightarrow> pbft_exn + CommitResult"
  sync_isSyncing :: bool
  sync_knownHighestNumber :: int
  pool_verifyAndSetSenderForBlock :: "Block \<Rightarrow> pbft_exn + Block"
  verifier_executeBlock :: "Block \<Rightarrow> h256 \<times> int \<times> h256 \<Rightarrow> pbft_exn + Block \<times> nat option"
  db_open :: "(string, string) umap option"
  db_insert_ok :: bool
  disk_enough :: bool

record PBFTEngine =
  m_maxBlockTransactions :: nat
  m_consensusBlockNumber :: int
  m_highestBlock :: BlockHeader
  m_nodeNum :: nat
  m_f :: nat
  m_accountType :: NodeAccountType
  m_idx :: nat
  m_keyPair :: KeyPair
  m_sealers :: "h512 list"
  m_allowFutureBlocks :: bool
  m_lastNodeList :: string
  m_connectedNode :: nat
  m_omitEmptyBlock :: bool
  m_cfgErr :: bool
  m_view :: int
  m_toView :: int
  m_leaderFailed :: bool
  m_notifyNextLeaderSeal :: bool
  m_backupDB :: "(string, string) umap option"
  m_broadCastCache :: PBFTBroadcastCache
  m_reqCache :: PBFTReqCache
  m_timeManager :: TimeManager
  m_msgQueue :: "PBFTMsgPacket list"
  m_onViewChange :: bool
  m_onNotifyNextLeaderReset :: bool
  m_onTimeout :: bool
  m_onCommitBlock :: bool
  m_fastViewChange :: bool
  maxTTL :: nat
  m_viewMap :: "(nat, int) umap"
  m_sealingNumber :: nat
  m_events :: "pbft_event list"

type_synonym 'a pbft = "(PBFTEngine, pbft_exn, 'a) eff"

text \<open>The constructors, with the initialisers of the members; the callbacks are not registered, and
  \<open>tm\<close> has the times that are configured or not initialised.\<close>

definition PBFTEngine_new :: "KeyPair \<Rightarrow> h512 list \<Rightarrow> TimeManager \<Rightarrow> PBFTEngine" where
  "PBFTEngine_new kp sealers tm = \<lparr>m_maxBlockTransactions = 1000, m_consensusBlockNumber = 0,
     m_highestBlock = BlockHeader_new, m_nodeNum = 0, m_f = 0, m_accountType = ObserverAccount,
     m_idx = 0, m_keyPair = kp, m_sealers = sort sealers, m_allowFutureBlocks = True,
     m_lastNodeList = [], m_connectedNode = 0, m_omitEmptyBlock = True, m_cfgErr = False,
     m_view = 0, m_toView = 0, m_leaderFailed = False, m_notifyNextLeaderSeal = False,
     m_backupDB = None, m_broadCastCache = [], m_reqCache = PBFTReqCache_new,
     m_timeManager = tm\<lparr>m_changeCycle := 0, m_lastSignTime := 0\<rparr>,
     m_msgQueue = [], m_onViewChange = False, m_onNotifyNextLeaderReset = False,
     m_onTimeout = False, m_onCommitBlock = False, m_fastViewChange = False, maxTTL = MAXTTL,
     m_viewMap = [], m_sealingNumber = 0, m_events = []\<rparr>"

text \<open>Registration of the callbacks.\<close>

definition engine_onViewChange :: "PBFTEngine \<Rightarrow> PBFTEngine" where
  "engine_onViewChange s = s\<lparr>m_onViewChange := True, m_notifyNextLeaderSeal := False\<rparr>"

definition engine_onNotifyNextLeaderReset :: "PBFTEngine \<Rightarrow> PBFTEngine" where
  "engine_onNotifyNextLeaderReset s = s\<lparr>m_onNotifyNextLeaderReset := True\<rparr>"

definition engine_onTimeout :: "PBFTEngine \<Rightarrow> PBFTEngine" where
  "engine_onTimeout s = s\<lparr>m_onTimeout := True\<rparr>"

definition engine_onCommitBlock :: "PBFTEngine \<Rightarrow> PBFTEngine" where
  "engine_onCommitBlock s = s\<lparr>m_onCommitBlock := True\<rparr>"

definition e_event :: "pbft_event \<Rightarrow> unit pbft" where
  "e_event ev = e_mod (\<lambda>s. s\<lparr>m_events := m_events s @ [ev]\<rparr>)"

definition e_cache :: "(PBFTReqCache \<Rightarrow> PBFTReqCache) \<Rightarrow> unit pbft" where
  "e_cache f = e_mod (\<lambda>s. s\<lparr>m_reqCache := f (m_reqCache s)\<rparr>)"

definition e_time :: "(TimeManager \<Rightarrow> TimeManager) \<Rightarrow> unit pbft" where
  "e_time f = e_mod (\<lambda>s. s\<lparr>m_timeManager := f (m_timeManager s)\<rparr>)"

definition pbft_rlp :: "rlp_exn + 'a \<Rightarrow> pbft_exn + 'a" where
  "pbft_rlp r = map_sum (\<lambda>e. EthExn (RlpExn e)) id r"

definition pbft_eth :: "eth_exn + 'a \<Rightarrow> pbft_exn + 'a" where
  "pbft_eth r = map_sum EthExn id r"

subsection \<open>Queries\<close>

text \<open>The remainder of C++ takes the sign of the dividend.\<close>

definition c_rem :: "int \<Rightarrow> int \<Rightarrow> int" where
  "c_rem a b = sgn a * (\<bar>a\<bar> mod \<bar>b\<bar>)"

definition minValidNodes :: "PBFTEngine \<Rightarrow> nat" where
  "minValidNodes s = u16 (int (m_nodeNum s) - int (m_f s))"

definition getNextLeader :: "PBFTEngine \<Rightarrow> nat" where
  "getNextLeader s = u16 (c_rem (i64 (m_number (m_highestBlock s) + 1)) (int (m_nodeNum s)))"

definition getLeader :: "PBFTEngine \<Rightarrow> bool \<times> nat" where
  "getLeader s =
     (if m_cfgErr s \<or> m_leaderFailed s \<or> m_sealer (m_highestBlock s) = Invalid256 \<or> m_nodeNum s = 0
      then (False, MAXIDX)
      else (True, u16 (c_rem (i64 (m_view s + m_number (m_highestBlock s))) (int (m_nodeNum s)))))"

fun sealer_index :: "h512 list \<Rightarrow> h512 \<Rightarrow> nat \<Rightarrow> int" where
  "sealer_index [] nodeId i = - 1"
| "sealer_index (x # xs) nodeId i = (if x = nodeId then int i else sealer_index xs nodeId (Suc i))"

definition getIndexBySealer :: "PBFTEngine \<Rightarrow> h512 \<Rightarrow> int" where
  "getIndexBySealer s nodeId = sealer_index (m_sealers s) nodeId 0"

definition getSealerByIndex :: "PBFTEngine \<Rightarrow> nat \<Rightarrow> h512" where
  "getSealerByIndex s index = (if index < length (m_sealers s) then m_sealers s ! index else 0)"

definition getNodeIDByIndex :: "PBFTEngine \<Rightarrow> nat \<Rightarrow> h512 option" where
  "getNodeIDByIndex s i = (let nodeID = getSealerByIndex s i in if nodeID = 0 then None else Some nodeID)"

definition reachMinBlockGenTime :: "node_env \<Rightarrow> PBFTEngine \<Rightarrow> bool" where
  "reachMinBlockGenTime env s \<longleftrightarrow> m_minBlockGenTime (m_timeManager s)
     \<le> u64 (int (env_now env) - int (m_lastConsensusTime (m_timeManager s)))"

definition reachBlockIntervalTime :: "node_env \<Rightarrow> PBFTEngine \<Rightarrow> bool" where
  "reachBlockIntervalTime env s \<longleftrightarrow> m_emptyBlockGenTime (m_timeManager s)
     \<le> u64 (int (env_now env) - int (m_lastConsensusTime (m_timeManager s)))"

definition canHandleBlockForNextLeader :: "PBFTEngine \<Rightarrow> bool" where
  "canHandleBlockForNextLeader s =
     (if \<not> fst (getLeader s) then False
      else if snd (getLeader s) = m_idx s then True
      else if m_notifyNextLeaderSeal s \<and> getNextLeader s = m_idx s then False
      else True)"

definition shouldReset :: "PBFTEngine \<Rightarrow> Block \<Rightarrow> bool" where
  "shouldReset s b \<longleftrightarrow> getTransactionSize b = 0 \<and> m_omitEmptyBlock s"

subsection \<open>Checks on requests\<close>

definition hasConsensused :: "PBFTEngine \<Rightarrow> 'a PBFTMsg_scheme \<Rightarrow> bool" where
  "hasConsensused s req \<longleftrightarrow> height req < m_consensusBlockNumber s \<or>
     height req = m_consensusBlockNumber s \<and> view req < m_view s"

definition isSyncingHigherBlock :: "node_env \<Rightarrow> 'a PBFTMsg_scheme \<Rightarrow> bool" where
  "isSyncingHigherBlock env req \<longleftrightarrow> sync_isSyncing env \<and> height req \<le> sync_knownHighestNumber env"

definition isFutureBlock :: "PBFTEngine \<Rightarrow> 'a PBFTMsg_scheme \<Rightarrow> bool" where
  "isFutureBlock s req \<longleftrightarrow> m_consensusBlockNumber s \<le> height req \<or> m_view s < view req"

definition isFuturePrepare :: "PBFTEngine \<Rightarrow> 'a PBFTMsg_scheme \<Rightarrow> bool" where
  "isFuturePrepare s req \<longleftrightarrow> m_consensusBlockNumber s < height req \<or>
     height req = m_consensusBlockNumber s \<and> m_view s < view req"

definition isHashSavedAfterCommit :: "PBFTEngine \<Rightarrow> 'a PBFTMsg_scheme \<Rightarrow> bool" where
  "isHashSavedAfterCommit s req \<longleftrightarrow>
     \<not> (height req = height (m_committedPrepareCache (m_reqCache s)) \<and>
        block_hash req \<noteq> block_hash (m_committedPrepareCache (m_reqCache s)))"

definition isValidLeader :: "PBFTEngine \<Rightarrow> 'a PBFTMsg_scheme \<Rightarrow> bool" where
  "isValidLeader s req \<longleftrightarrow> fst (getLeader s) \<and> idx req = snd (getLeader s)"

definition checkSign :: "node_env \<Rightarrow> PBFTEngine \<Rightarrow> 'a PBFTMsg_scheme \<Rightarrow> bool" where
  "checkSign env s req =
     (case getNodeIDByIndex s (idx req) of
        Some pub_id \<Rightarrow> verify (env_crypto env) pub_id (sig req) (block_hash req) \<and>
          verify (env_crypto env) pub_id (sig2 req) (fieldsWithoutBlock (env_crypto env) req)
      | None \<Rightarrow> False)"

definition checkReq :: "node_env \<Rightarrow> PBFTEngine \<Rightarrow> PBFTMsg \<Rightarrow> CheckResult" where
  "checkReq env s req =
     (if isSyncingHigherBlock env req then INVALID
      else if block_hash (m_prepareCache (m_reqCache s)) \<noteq> block_hash req
      then if isFutureBlock s req \<and> checkSign env s req then FUTURE else INVALID
      else if idx req = m_idx s then INVALID
      else if view (m_prepareCache (m_reqCache s)) \<noteq> view req then INVALID
      else if \<not> checkSign env s req then INVALID
      else VALID)"

text \<open>A prepare request of a future block is stored by the check.\<close>

definition isValidPrepare :: "node_env \<Rightarrow> PrepareReq \<Rightarrow> CheckResult pbft" where
  "isValidPrepare env req = e_on (\<lambda>s.
     if isExistPrepare (m_reqCache s) req then e_ret INVALID
     else if isSyncingHigherBlock env req then e_ret INVALID
     else if hasConsensused s req then e_ret INVALID
     else if isFuturePrepare s req then e_seq (e_cache (addFuturePrepareCache req)) (e_ret FUTURE)
     else if \<not> isValidLeader s req then e_ret INVALID
     else if \<not> isHashSavedAfterCommit s req then e_ret INVALID
     else if \<not> checkSign env s req then e_ret INVALID
     else e_ret VALID)"

definition isValidSignReq :: "node_env \<Rightarrow> PBFTMsg \<Rightarrow> CheckResult pbft" where
  "isValidSignReq env req = e_on (\<lambda>s.
     if isExistSign (m_reqCache s) req then e_ret INVALID
     else if hasConsensused s req then e_ret INVALID
     else let result = checkReq env s req in
       e_seq (e_when (result = FUTURE \<and>
           getSigCacheSize (m_reqCache s) (block_hash req) < u64 (int (minValidNodes s) - 1))
         (e_cache (addSignReq req))) (e_ret result))"

definition isValidCommitReq :: "node_env \<Rightarrow> PBFTMsg \<Rightarrow> CheckResult pbft" where
  "isValidCommitReq env req = e_on (\<lambda>s.
     if isExistCommit (m_reqCache s) req then e_ret INVALID
     else if hasConsensused s req then e_ret INVALID
     else let result = checkReq env s req in
       e_seq (e_when (result = FUTURE) (e_cache (addCommitReq req))) (e_ret result))"

subsection \<open>Checks on blocks\<close>

definition blockExists :: "node_env \<Rightarrow> h256 \<Rightarrow> bool" where
  "blockExists env h \<longleftrightarrow> chain_getBlockByHash env h \<noteq> None"

definition checkBlockValid_base :: "node_env \<Rightarrow> PBFTEngine \<Rightarrow> Block \<Rightarrow> pbft_exn + unit" where
  "checkBlockValid_base env s b =
     (let h = m_blockHeader b in
      if m_maxBlockTransactions s < getTransactionSize b then Inl OverThresTransNum
      else if env_now env < m_timestamp h \<and> \<not> m_allowFutureBlocks s then Inl DisabledFutureTime
      else if m_number h \<le> chain_number env then Inl InvalidBlockHeight
      else if \<not> blockExists env (m_parentHash h) then Inl ParentNoneExist
      else if 1 < m_number h \<and> chain_numberHash env (m_number h - 1) \<noteq> m_parentHash h
      then Inl WrongParentHash
      else Inr ())"

definition checkSealerList :: "PBFTEngine \<Rightarrow> Block \<Rightarrow> pbft_exn + unit" where
  "checkSealerList s b =
     (if m_sealers s \<noteq> m_sealerList (m_blockHeader b) then Inl BlockSealerListWrong else Inr ())"

definition checkBlockValid :: "node_env \<Rightarrow> PBFTEngine \<Rightarrow> Block \<Rightarrow> pbft_exn + unit" where
  "checkBlockValid env s b = res_bind (checkBlockValid_base env s b) (\<lambda>_. checkSealerList s b)"

text \<open>The loop over the signature list.\<close>

fun check_sigs :: "crypto \<Rightarrow> h512 list \<Rightarrow> h256 \<Rightarrow> (u256 \<times> h520) list \<Rightarrow> bool" where
  "check_sigs cr sealers h [] = True"
| "check_sigs cr sealers h ((signer, sg) # rest) =
     (if length sealers \<le> unat signer then False
      else if \<not> verify cr (sealers ! unat signer) sg h then False
      else check_sigs cr sealers h rest)"

definition checkBlock :: "node_env \<Rightarrow> PBFTEngine \<Rightarrow> Block \<Rightarrow> bool" where
  "checkBlock env s b =
     (let h = m_blockHeader b; sealers = m_sealers s in
      if m_number h = 0 then True
      else if sealers \<noteq> m_sealerList h then False
      else if getSealerByIndex s (unat (m_sealer h) mod 2 ^ 64) = 0 then False
      else if length (m_sigList b) < minValidNodes s then False
      else if \<not> check_sigs (env_crypto env) sealers (BlockHeader_hash (env_crypto env) h) (m_sigList b)
      then False
      else if m_maxBlockTransactions s < length (m_transactions b) then False
      else True)"

subsection \<open>Configuration\<close>

definition abridged :: "h512 \<Rightarrow> string" where
  "abridged h = toHex (take 4 (hash_bytes h)) @ ''...''"

definition node_list_text :: "h512 list \<Rightarrow> h512 list \<Rightarrow> string" where
  "node_list_text sealers observers =
     ''[updateConsensusNodeList] Sealers:'' @ concat (map (\<lambda>n. abridged n @ '','') sealers) @
     ''Observers:'' @ concat (map (\<lambda>n. abridged n @ '','') observers)"

text \<open>An exception of the chain is caught; the sealers may already have been replaced.\<close>

definition updateConsensusNodeList :: "node_env \<Rightarrow> unit pbft" where
  "updateConsensusNodeList env =
     (case chain_sealerList env of
        None \<Rightarrow> e_ret ()
      | Some sealers \<Rightarrow>
          e_seq (e_mod (\<lambda>s. s\<lparr>m_sealers := sort sealers\<rparr>))
            (case chain_observerList env of
               None \<Rightarrow> e_ret ()
             | Some observers \<Rightarrow> e_on (\<lambda>s.
                 let txt = node_list_text (sort sealers) observers in
                 e_when (m_lastNodeList s \<noteq> txt)
                   (e_seq (e_event (SetNodeListByGroupID (sealers @ observers)))
                     (e_mod (\<lambda>s. s\<lparr>m_lastNodeList := txt\<rparr>))))))"

definition updateMaxBlockTransactions :: "node_env \<Rightarrow> unit pbft" where
  "updateMaxBlockTransactions env =
     (case env_lexical_cast env (chain_getSystemConfigByKey env ''tx_count_limit'') of
        None \<Rightarrow> e_throw BadLexicalCast
      | Some n \<Rightarrow> e_mod (\<lambda>s. s\<lparr>m_maxBlockTransactions := n\<rparr>))"

text \<open>The part of \<open>resetConfig\<close> that reads the new list of sealers.\<close>

definition resetNodeInfo :: "unit pbft" where
  "resetNodeInfo = e_on (\<lambda>s.
     let i = getIndexBySealer s (kp_pub (m_keyPair s));
         node_idx = (if i < 0 then MAXIDX else u16 i)
     in e_seq (e_mod (\<lambda>s. s\<lparr>m_accountType := (if i < 0 then m_accountType s else SealerAccount),
            m_nodeNum := u16 (int (length (m_sealers s)))\<rparr>))
        (e_on (\<lambda>s. if m_nodeNum s < 1 then e_throw EmptySealers
           else e_mod (\<lambda>s. s\<lparr>m_f := (m_nodeNum s - 1) div 3, m_cfgErr := (node_idx = MAXIDX),
                  m_idx := node_idx\<rparr>))))"

definition resetConfig :: "node_env \<Rightarrow> unit pbft" where
  "resetConfig env =
     e_seq (updateMaxBlockTransactions env)
     (e_seq (e_mod (\<lambda>s. s\<lparr>m_accountType := ObserverAccount\<rparr>))
     (e_seq (updateConsensusNodeList env) resetNodeInfo))"

subsection \<open>Sending\<close>

definition broadcastFilter :: "PBFTEngine \<Rightarrow> h512 \<Rightarrow> nat \<Rightarrow> string \<Rightarrow> bool" where
  "broadcastFilter s nodeId packetType key = keyExists nodeId packetType key (m_broadCastCache s)"

definition broadcastMark :: "h512 \<Rightarrow> nat \<Rightarrow> string \<Rightarrow> unit pbft" where
  "broadcastMark nodeId packetType key = e_on (\<lambda>s.
     if broadcastFilter s nodeId packetType key then e_ret ()
     else e_mod (\<lambda>s. s\<lparr>m_broadCastCache := snd (insertKey nodeId packetType key (m_broadCastCache s))\<rparr>))"

definition transDataToMessage :: "node_env \<Rightarrow> PBFTEngine \<Rightarrow> bytes \<Rightarrow> nat \<Rightarrow> nat \<Rightarrow> pbft_exn + bytes" where
  "transDataToMessage env s data packetType ttl0 =
     pbft_rlp (PBFTMsgPacket_encode ((PBFTMsgPacket_new (env_now env))\<lparr>pkt_data := data,
       packet_id := u8 (int packetType), ttl := (if ttl0 = 0 then maxTTL s else u8 (int ttl0))\<rparr>))"

fun broadcast_loop :: "nat \<Rightarrow> string \<Rightarrow> h512 list \<Rightarrow> h512 list \<Rightarrow> h512 list \<Rightarrow> h512 list pbft" where
  "broadcast_loop packetType key filter0 [] nodeIdList = e_ret nodeIdList"
| "broadcast_loop packetType key filter0 (n # ns) nodeIdList = e_on (\<lambda>s.
     if getIndexBySealer s n < 0 then broadcast_loop packetType key filter0 ns nodeIdList
     else if n \<in> set filter0
     then e_seq (broadcastMark n packetType key) (broadcast_loop packetType key filter0 ns nodeIdList)
     else if broadcastFilter s n packetType key
     then broadcast_loop packetType key filter0 ns nodeIdList
     else e_seq (broadcastMark n packetType key)
       (broadcast_loop packetType key filter0 ns (nodeIdList @ [n])))"

definition broadcastMsg :: "node_env \<Rightarrow> nat \<Rightarrow> string \<Rightarrow> bytes \<Rightarrow> h512 list \<Rightarrow> nat \<Rightarrow> bool pbft" where
  "broadcastMsg env packetType key data filter0 ttl0 =
     e_seq (e_mod (\<lambda>s. s\<lparr>m_connectedNode := u16 (int (length (env_sessions env)))\<rparr>))
     (e_bind (broadcast_loop packetType key filter0 (env_sessions env) []) (\<lambda>nodeIdList.
      e_bind (e_on (\<lambda>s. e_lift (transDataToMessage env s data packetType ttl0))) (\<lambda>msg.
      e_seq (e_event (AsyncMulticast nodeIdList msg)) (e_ret True))))"

definition sendMsg :: "node_env \<Rightarrow> h512 \<Rightarrow> nat \<Rightarrow> string \<Rightarrow> bytes \<Rightarrow> nat \<Rightarrow> bool pbft" where
  "sendMsg env nodeId packetType key data ttl0 = e_on (\<lambda>s.
     if getIndexBySealer s nodeId < 0 then e_ret True
     else if broadcastFilter s nodeId packetType key then e_ret True
     else if nodeId \<in> set (env_sessions env)
     then e_bind (e_lift (transDataToMessage env s data packetType ttl0)) (\<lambda>msg.
          e_seq (e_event (AsyncSend nodeId msg))
          (e_seq (broadcastMark nodeId packetType key) (e_ret True)))
     else e_ret False)"

definition broadcastSignReq :: "node_env \<Rightarrow> PrepareReq \<Rightarrow> bool pbft" where
  "broadcastSignReq env req = e_on (\<lambda>s.
     let sign_req = SignReq_make (env_crypto env) (env_now env) req (m_keyPair s) (m_idx s) in
     e_bind (e_lift (pbft_rlp (PBFTMsg_encode sign_req))) (\<lambda>data.
     e_bind (broadcastMsg env SignReqPacket (uniqueKey sign_req) data [] 0) (\<lambda>succ.
     e_seq (e_cache (addSignReq sign_req)) (e_ret succ))))"

definition broadcastCommitReq :: "node_env \<Rightarrow> PrepareReq \<Rightarrow> bool pbft" where
  "broadcastCommitReq env req = e_on (\<lambda>s.
     let commit_req = CommitReq_make (env_crypto env) (env_now env) req (m_keyPair s) (m_idx s) in
     e_bind (e_lift (pbft_rlp (PBFTMsg_encode commit_req))) (\<lambda>data.
     e_bind (broadcastMsg env CommitReqPacket (uniqueKey commit_req) data [] 0) (\<lambda>succ.
     e_seq (e_when succ (e_cache (addCommitReq commit_req))) (e_ret succ))))"

definition own_view_change :: "node_env \<Rightarrow> PBFTEngine \<Rightarrow> PBFTMsg" where
  "own_view_change env s =
     ViewChangeReq_make (env_crypto env) (env_now env) (m_keyPair s) (m_number (m_highestBlock s))
       (m_toView s) (m_idx s) (BlockHeader_hash (env_crypto env) (m_highestBlock s))"

definition sendViewChangeMsg :: "node_env \<Rightarrow> h512 \<Rightarrow> unit pbft" where
  "sendViewChangeMsg env nodeId = e_on (\<lambda>s.
     let req = own_view_change env s in
     e_bind (e_lift (pbft_rlp (PBFTMsg_encode req))) (\<lambda>data.
     e_bind (sendMsg env nodeId ViewChangeReqPacket (uniqueKey req) data 1) (\<lambda>_. e_ret ())))"

definition broadcastViewChangeReq :: "node_env \<Rightarrow> bool pbft" where
  "broadcastViewChangeReq env = e_on (\<lambda>s.
     let req = own_view_change env s in
     e_bind (e_lift (pbft_rlp (PBFTMsg_encode req))) (\<lambda>data.
     broadcastMsg env ViewChangeReqPacket (uniqueKey req) data [] 0))"

end
