(* ===== verification/PBFT_Engine.thy ===== *)
theory PBFT_Engine
  imports PBFT_State
begin

text \<open>
  libconsensus/pbft/PBFTEngine.cpp: the handlers of the consensus engine.

  Each function of the source that changes the engine is an operation of the monad of
  \<open>Effects\<close>; the locks make the handlers atomic. \<open>pbft_step\<close> is one call into the engine: a message
  from the network, one round of the work loop, a call from the sealing thread, or the report of a
  block that was written to the chain, each in an arbitrary environment.
\<close>

section \<open>Definitions\<close>

subsection \<open>Backup of the committed request\<close>

definition c_backupKeyCommitted :: string where
  "c_backupKeyCommitted = ''committed''"

text \<open>Members are assigned one by one, so a failure leaves the first ones changed.\<close>

definition set_field :: "rlp_exn + 'a \<Rightarrow> ('a \<Rightarrow> PrepareReq \<Rightarrow> PrepareReq) \<Rightarrow> (PrepareReq, rlp_exn, unit) eff" where
  "set_field r upd = e_bind (e_lift r) (\<lambda>x. e_mod (upd x))"

definition PrepareReq_populate_into :: "bytes \<Rightarrow> (PrepareReq, rlp_exn, unit) eff" where
  "PrepareReq_populate_into r =
     e_seq (set_field (field (\<lambda>i. rlp_toInt (Some 8) i Strict) r 0) (\<lambda>h. height_update (\<lambda>_. i64 (int h))))
     (e_seq (set_field (field (\<lambda>i. rlp_toInt (Some 8) i Strict) r 1) (\<lambda>v. view_update (\<lambda>_. i64 (int v))))
     (e_seq (set_field (field (\<lambda>i. rlp_toInt (Some 2) i Strict) r 2) (\<lambda>x. idx_update (\<lambda>_. x)))
     (e_seq (set_field (field as_u256 r 3) (\<lambda>t. timestamp_update (\<lambda>_. t)))
     (e_seq (set_field (field as_hash r 4) (\<lambda>h. block_hash_update (\<lambda>_. h)))
     (e_seq (set_field (field as_signature r 5) (\<lambda>g. sig_update (\<lambda>_. g)))
     (e_seq (set_field (field as_signature r 6) (\<lambda>g. sig2_update (\<lambda>_. g)))
       (set_field (field as_bytes r 7) (\<lambda>b. block_update (\<lambda>_. b)))))))))"

definition PrepareReq_decode_into :: "bytes \<Rightarrow> (PrepareReq, rlp_exn, unit) eff" where
  "PrepareReq_decode_into d = e_bind (e_lift (unwrap_fields d 0)) PrepareReq_populate_into"

definition reloadMsg :: "string \<Rightarrow> unit pbft" where
  "reloadMsg key = e_on (\<lambda>s.
     case m_backupDB s of
       None \<Rightarrow> e_ret ()
     | Some db \<Rightarrow>
         (case fromHex (case um_find db key of Some v \<Rightarrow> v | None \<Rightarrow> []) DontThrow of
            Inl _ \<Rightarrow> e_ret ()
          | Inr data \<Rightarrow>
              if data = [] then e_ret ()
              else e_cache (\<lambda>c. c\<lparr>m_committedPrepareCache :=
                snd (PrepareReq_decode_into data (m_committedPrepareCache c))\<rparr>)))"

definition backupMsg :: "node_env \<Rightarrow> string \<Rightarrow> PrepareReq \<Rightarrow> unit pbft" where
  "backupMsg env key msg = e_on (\<lambda>s.
     case m_backupDB s of
       None \<Rightarrow> e_ret ()
     | Some db \<Rightarrow>
         e_bind (e_lift (pbft_rlp (PrepareReq_encode msg))) (\<lambda>data.
           if db_insert_ok env
           then e_mod (\<lambda>s. s\<lparr>m_backupDB := Some (um_set key (toHex data) db)\<rparr>)
           else e_throw InvalidArgument))"

definition initBackupDB :: "node_env \<Rightarrow> unit pbft" where
  "initBackupDB env =
     (case db_open env of
        None \<Rightarrow> e_throw DatabaseError
      | Some db \<Rightarrow>
          e_seq (e_mod (\<lambda>s. s\<lparr>m_backupDB := Some db\<rparr>))
            (if \<not> disk_enough env then e_throw NotEnoughAvailableSpace
             else reloadMsg c_backupKeyCommitted))"

definition initPBFTEnv :: "node_env \<Rightarrow> nat \<Rightarrow> unit pbft" where
  "initPBFTEnv env view_timeout =
     e_seq (resetConfig env)
     (e_seq (e_mod (\<lambda>s. s\<lparr>m_consensusBlockNumber := 0, m_view := 0, m_toView := 0, m_leaderFailed := False\<rparr>))
     (e_seq (initBackupDB env)
       (e_time (initTimerManager (env_now env) view_timeout))))"

definition pbft_start :: "node_env \<Rightarrow> unit pbft" where
  "pbft_start env = e_on (\<lambda>s. initPBFTEnv env (u32 (3 * int (m_emptyBlockGenTime (m_timeManager s)))))"

subsection \<open>Commit\<close>

definition changeViewForFastViewChange :: "unit pbft" where
  "changeViewForFastViewChange =
     e_seq (e_time tm_changeView) (e_mod (\<lambda>s. s\<lparr>m_fastViewChange := True\<rparr>))"

definition updateViewMap :: "nat \<Rightarrow> int \<Rightarrow> unit pbft" where
  "updateViewMap i v = e_mod (\<lambda>s. s\<lparr>m_viewMap := um_set i v (m_viewMap s)\<rparr>)"

text \<open>The block of the prepare cache is committed; the pointer shares it, so that the signature
  list is also set in the cache.\<close>

definition commit_prepared :: "node_env \<Rightarrow> PrepareReq \<Rightarrow> Block \<Rightarrow> unit pbft" where
  "commit_prepared env p b =
     e_seq (e_cache (\<lambda>c. c\<lparr>m_prepareCache := (m_prepareCache c)\<lparr>pBlock := Some b\<rparr>\<rparr>))
     (e_seq (e_event (CommitBlock b (p_execContext p)))
     (e_bind (e_lift (chain_commitBlock env b (p_execContext p))) (\<lambda>ret.
        if ret = CommitOK
        then e_seq (e_event (DropBlockTrans b))
          (e_seq (e_event (NoteSealingBlockNumber (height p)))
          (e_on (\<lambda>s. e_cache (\<lambda>c. removeInvalidFutureCache (m_number (m_highestBlock s))
             (delCache (block_hash p) c)))))
        else e_seq (e_event (NoteSealingBlockNumber (chain_number env)))
          (e_event (HandleBadBlock b)))))"

definition checkAndSave :: "node_env \<Rightarrow> unit pbft" where
  "checkAndSave env = e_on (\<lambda>s.
     let c = m_reqCache s; p = m_prepareCache c in
     if minValidNodes s \<le> getSigCacheSize c (block_hash p) \<and> minValidNodes s \<le> getCommitCacheSize c (block_hash p)
     then if view p \<noteq> m_view s then e_ret ()
       else if m_number (m_highestBlock s) < height p
       then (case pBlock p of
               None \<Rightarrow> e_throw NullDeref
             | Some b \<Rightarrow> commit_prepared env p (snd (generateAndSetSigList c b (minValidNodes s))))
       else e_ret ()
     else e_ret ())"

definition checkAndCommit :: "node_env \<Rightarrow> unit pbft" where
  "checkAndCommit env = e_on (\<lambda>s.
     let p = m_prepareCache (m_reqCache s) in
     if getSigCacheSize (m_reqCache s) (block_hash p) = minValidNodes s
     then if view p \<noteq> m_view s then e_ret ()
       else e_seq (e_cache updateCommittedPrepare)
         (e_seq (e_on (\<lambda>s. backupMsg env c_backupKeyCommitted (m_committedPrepareCache (m_reqCache s))))
         (e_seq (e_on (\<lambda>s. broadcastCommitReq env (m_prepareCache (m_reqCache s))))
         (e_seq (e_time (\<lambda>t. t\<lparr>m_lastSignTime := env_now env\<rparr>))
           (checkAndSave env))))
     else e_ret ())"

subsection \<open>Prepare requests\<close>

definition notifySealing :: "node_env \<Rightarrow> Block \<Rightarrow> unit pbft" where
  "notifySealing env b = e_on (\<lambda>s.
     if \<not> m_onNotifyNextLeaderReset s then e_ret ()
     else if fst (getLeader s) \<and> snd (getLeader s) \<noteq> m_idx s \<and> m_idx s = getNextLeader s
     then e_bind (e_lift (pbft_eth (res_mapM
              (\<lambda>t. Transaction_sha3 (env_crypto env) (env_rc2 env) t True) (m_transactions b)))) (\<lambda>hs.
          e_seq (e_mod (\<lambda>s. s\<lparr>m_notifyNextLeaderSeal := True\<rparr>))
            (e_event (NotifyNextLeaderReset (set hs))))
     else e_ret ())"

definition executeBlock :: "node_env \<Rightarrow> Block \<Rightarrow> pbft_exn + Block \<times> nat option" where
  "executeBlock env b =
     (case chain_getBlockByNumber env (chain_number env) of
        None \<Rightarrow> Inl NullDeref
      | Some parent \<Rightarrow> let h = m_blockHeader parent in
          verifier_executeBlock env b (BlockHeader_hash (env_crypto env) h, m_number h, m_stateRoot h))"

definition execBlock :: "node_env \<Rightarrow> PrepareReq \<Rightarrow> Sealing pbft" where
  "execBlock env req =
     e_bind (e_lift (case pBlock req of
         Some b \<Rightarrow> Inr b
       | None \<Rightarrow> pbft_eth (Block_decode (env_crypto env) (env_rc2 env) (block req) CheckNone False Block_new)))
     (\<lambda>b.
     e_seq (e_mod (\<lambda>s. s\<lparr>m_sealingNumber := getTransactionSize b\<rparr>))
     (e_on (\<lambda>s.
       if getTransactionSize b = 0 \<and> m_omitEmptyBlock s then e_ret (Sealing_new\<lparr>s_block := b\<rparr>)
       else e_seq (e_lift (checkBlockValid env s b))
         (e_seq (e_when (idx req \<noteq> m_idx s) (notifySealing env b))
         (e_seq (e_event (NoteSealingBlockNumber (m_number (m_blockHeader b))))
         (e_bind (e_lift (pool_verifyAndSetSenderForBlock env b)) (\<lambda>b.
          e_bind (e_lift (executeBlock env b)) (\<lambda>(b, ctx).
          e_ret (Sealing_new\<lparr>s_block := b, s_execContext := ctx\<rparr>)))))))))"

definition needOmit :: "PBFTEngine \<Rightarrow> Sealing \<Rightarrow> bool" where
  "needOmit s sealing \<longleftrightarrow> getTransactionSize (s_block sealing) = 0 \<and> m_omitEmptyBlock s"

definition e_catch :: "'a pbft \<Rightarrow> 'a option pbft" where
  "e_catch m = e_try (e_bind m (\<lambda>x. e_ret (Some x))) (\<lambda>e. if fatal e then e_throw e else e_ret None)"

text \<open>The part of \<open>handlePrepareMsg\<close> after the execution of the block, which may have failed.\<close>

definition signPrepared :: "node_env \<Rightarrow> PrepareReq \<Rightarrow> Sealing option \<Rightarrow> bool pbft" where
  "signPrepared env req r =
     (case r of
        None \<Rightarrow> e_ret True
      | Some workingSealing \<Rightarrow> e_on (\<lambda>s.
          if needOmit s workingSealing
          then e_seq changeViewForFastViewChange
            (e_seq (e_time (\<lambda>t. t\<lparr>m_changeCycle := 0\<rparr>)) (e_ret True))
          else let sign_prepare = PrepareReq_of_sealing (env_crypto env) (env_now env) req
                 workingSealing (m_keyPair s) in
            e_seq (e_cache (addPrepareReq sign_prepare))
            (e_seq (broadcastSignReq env sign_prepare)
            (e_seq (checkAndCommit env) (e_ret True)))))"

definition handlePrepareMsg :: "node_env \<Rightarrow> PrepareReq \<Rightarrow> bool pbft" where
  "handlePrepareMsg env req =
     e_bind (isValidPrepare env req) (\<lambda>valid_ret.
     if valid_ret = INVALID then e_ret False
     else e_seq (updateViewMap (idx req) (view req))
       (if valid_ret = FUTURE then e_ret True
        else e_seq (e_cache (addRawPrepare req))
          (e_bind (e_catch (execBlock env req)) (signPrepared env req))))"

definition rehandleCommitedPrepareCache :: "node_env \<Rightarrow> PrepareReq \<Rightarrow> unit pbft" where
  "rehandleCommitedPrepareCache env req =
     e_seq (e_mod (\<lambda>s. s\<lparr>m_broadCastCache := broadcast_clearAll (m_broadCastCache s)\<rparr>))
     (e_on (\<lambda>s.
       let prepare_req = PrepareReq_renew (env_crypto env) (env_now env) req (m_keyPair s) (m_view s) (m_idx s) in
       e_bind (e_lift (pbft_rlp (PrepareReq_encode prepare_req))) (\<lambda>data.
       e_seq (broadcastMsg env PrepareReqPacket (uniqueKey prepare_req) data [] 0)
       (e_seq (handlePrepareMsg env prepare_req)
         (e_event (NoteSealingBlockNumber (chain_number env)))))))"

definition shouldSeal :: "node_env \<Rightarrow> bool pbft" where
  "shouldSeal env = e_on (\<lambda>s.
     if m_cfgErr s \<or> m_accountType s \<noteq> SealerAccount then e_ret False
     else if \<not> fst (getLeader s) then e_ret False
     else if snd (getLeader s) \<noteq> m_idx s
     then e_ret (m_notifyNextLeaderSeal s \<and> getNextLeader s = m_idx s)
     else if height (m_committedPrepareCache (m_reqCache s)) = m_consensusBlockNumber s
     then e_seq (e_when (height (m_rawPrepareCache (m_reqCache s)) \<noteq> m_consensusBlockNumber s)
            (rehandleCommitedPrepareCache env (m_committedPrepareCache (m_reqCache s))))
          (e_ret False)
     else e_ret True)"

definition generatePrepare :: "node_env \<Rightarrow> Block \<Rightarrow> bool pbft" where
  "generatePrepare env b =
     e_seq (e_mod (\<lambda>s. s\<lparr>m_notifyNextLeaderSeal := False\<rparr>))
     (e_on (\<lambda>s.
       e_bind (e_lift (pbft_eth (PrepareReq_of_block (env_crypto env) (env_rc2 env) (env_now env) b
         (m_keyPair s) (m_view s) (m_idx s)))) (\<lambda>prepare_req.
       e_bind (e_lift (pbft_rlp (PrepareReq_encode prepare_req))) (\<lambda>data.
       e_bind (broadcastMsg env PrepareReqPacket (uniqueKey prepare_req) data [] 0) (\<lambda>succ.
       if succ
       then if getTransactionSize b = 0 \<and> m_omitEmptyBlock s
         then e_seq (e_mod (\<lambda>s. s\<lparr>m_leaderFailed := True\<rparr>))
           (e_seq changeViewForFastViewChange
           (e_seq (e_time (\<lambda>t. t\<lparr>m_changeCycle := 0\<rparr>)) (e_ret True)))
         else e_seq (handlePrepareMsg env prepare_req) (e_ret succ)
       else e_ret succ)))))"

subsection \<open>Sign and commit requests\<close>

definition decodeToRequests :: "rlp_exn + 'a \<Rightarrow> 'a option" where
  "decodeToRequests r = (case r of Inr x \<Rightarrow> Some x | Inl _ \<Rightarrow> None)"

definition handleSignMsg :: "node_env \<Rightarrow> PBFTMsg \<Rightarrow> bool pbft" where
  "handleSignMsg env req =
     e_bind (isValidSignReq env req) (\<lambda>check_ret.
     if check_ret = INVALID then e_ret False
     else e_seq (updateViewMap (idx req) (view req))
       (if check_ret = FUTURE then e_ret True
        else e_seq (e_cache (addSignReq req)) (e_seq (checkAndCommit env) (e_ret True))))"

definition handleCommitMsg :: "node_env \<Rightarrow> PBFTMsg \<Rightarrow> bool pbft" where
  "handleCommitMsg env req =
     e_bind (isValidCommitReq env req) (\<lambda>valid_ret.
     if valid_ret = INVALID then e_ret False
     else e_seq (updateViewMap (idx req) (view req))
       (if valid_ret = FUTURE then e_ret True
        else e_seq (e_cache (addCommitReq req)) (e_seq (checkAndSave env) (e_ret True))))"

subsection \<open>View changes\<close>

definition catchupView :: "node_env \<Rightarrow> PBFTMsg \<Rightarrow> unit pbft" where
  "catchupView env req = e_on (\<lambda>s.
     if i64 (view req + 1) < m_toView s
     then (case getNodeIDByIndex s (idx req) of
             Some nodeId \<Rightarrow> sendViewChangeMsg env nodeId
           | None \<Rightarrow> e_ret ())
     else e_ret ())"

definition isValidViewChangeReq :: "node_env \<Rightarrow> PBFTMsg \<Rightarrow> nat \<Rightarrow> bool pbft" where
  "isValidViewChangeReq env req source = e_on (\<lambda>s.
     if isExistViewChange (m_reqCache s) req then e_ret False
     else if idx req = m_idx s then e_ret False
     else e_seq (e_when (i64 (view req + 1) < m_toView s \<and> idx req = source) (catchupView env req))
       (if height req < m_number (m_highestBlock s) \<or> view req \<le> m_view s then e_ret False
        else if height req = m_number (m_highestBlock s) \<and>
            block_hash req \<noteq> BlockHeader_hash (env_crypto env) (m_highestBlock s) \<or>
            chain_getBlockByHash env (block_hash req) = None then e_ret False
        else if \<not> checkSign env s req then e_ret False
        else e_ret True))"

definition checkAndChangeView :: "node_env \<Rightarrow> unit pbft" where
  "checkAndChangeView env = e_on (\<lambda>s.
     if int (minValidNodes s) - 1 \<le> int (u16 (int (getViewChangeSize (m_reqCache s) (m_toView s))))
     then e_seq (e_when (m_lastSignTime (m_timeManager s) = 0) (e_mod (\<lambda>s. s\<lparr>m_fastViewChange := False\<rparr>)))
       (e_seq (e_when (i64 (m_view s + 1) < m_toView s) (e_time (\<lambda>t. t\<lparr>m_changeCycle := 1\<rparr>)))
       (e_seq (e_mod (\<lambda>s. s\<lparr>m_leaderFailed := False\<rparr>))
       (e_seq (e_time (\<lambda>t. t\<lparr>m_lastConsensusTime := env_now env\<rparr>))
       (e_seq (e_mod (\<lambda>s. s\<lparr>m_view := m_toView s, m_notifyNextLeaderSeal := False\<rparr>))
       (e_seq (e_on (\<lambda>s. e_cache (triggerViewChange (m_view s))))
         (e_event (NoteSealingBlockNumber (chain_number env))))))))
     else e_ret ())"

definition handleViewChangeMsg :: "node_env \<Rightarrow> PBFTMsg \<Rightarrow> nat \<Rightarrow> bool pbft" where
  "handleViewChangeMsg env req source =
     e_bind (isValidViewChangeReq env req source) (\<lambda>valid.
     if \<not> valid then e_ret False
     else e_seq (e_cache (addViewChangeReq req))
       (e_seq (e_on (\<lambda>s.
          if view req = m_toView s then checkAndChangeView env
          else (case canTriggerViewChange (m_reqCache s) (m_f s) (m_toView s)
                  (m_number (m_highestBlock s)) (m_consensusBlockNumber s) of (should_trigger, min_view) \<Rightarrow>
            e_when should_trigger
              (e_seq (e_mod (\<lambda>s. s\<lparr>m_toView := i64 (min_view - 1)\<rparr>)) changeViewForFastViewChange))))
        (e_ret True)))"

subsection \<open>The messages of the network\<close>

definition isValidReq :: "PBFTEngine \<Rightarrow> h512 \<Rightarrow> bytes \<Rightarrow> int option" where
  "isValidReq s peer buffer =
     (if buffer = [] then None
      else let peerIndex = getIndexBySealer s peer in
        if peerIndex < 0 then None
        else case getNodeIDByIndex s (m_idx s) of
            None \<Rightarrow> None
          | Some self_id \<Rightarrow> if peer = self_id then None else Some peerIndex)"

definition onRecvPBFTMessage :: "node_env \<Rightarrow> h512 \<Rightarrow> string \<Rightarrow> bytes \<Rightarrow> unit pbft" where
  "onRecvPBFTMessage env peer endpointName buffer = e_on (\<lambda>s.
     if m_idx s = MAXIDX then e_ret ()
     else case isValidReq s peer buffer of
         None \<Rightarrow> e_ret ()
       | Some peerIndex \<Rightarrow>
           (case decodeToRequests (PBFTMsgPacket_decode buffer (PBFTMsgPacket_new (env_now env))) of
              None \<Rightarrow> e_ret ()
            | Some p \<Rightarrow> let pbft_msg = setOtherField (env_now env) (u16 peerIndex) peer endpointName p in
                if packet_id pbft_msg \<le> ViewChangeReqPacket
                then e_mod (\<lambda>s. s\<lparr>m_msgQueue := m_msgQueue s @ [pbft_msg]\<rparr>)
                else e_ret ()))"

text \<open>The request in a packet, reduced to the members of the base class, and whether its handler
  succeeded; no request when the bytes cannot be decoded.\<close>

definition base_msg :: "'a PBFTMsg_scheme \<Rightarrow> PBFTMsg" where
  "base_msg m = \<lparr>height = height m, view = view m, idx = idx m, timestamp = timestamp m,
     block_hash = block_hash m, sig = sig m, sig2 = sig2 m\<rparr>"

definition dispatchMsg :: "node_env \<Rightarrow> PBFTMsgPacket \<Rightarrow> (PBFTMsg \<times> bool) option pbft" where
  "dispatchMsg env p =
     (if packet_id p = PrepareReqPacket
      then (case decodeToRequests (PrepareReq_decode (pkt_data p) 0) of
              None \<Rightarrow> e_ret None
            | Some req \<Rightarrow> e_bind (handlePrepareMsg env req) (\<lambda>succ. e_ret (Some (base_msg req, succ))))
      else if packet_id p = SignReqPacket
      then (case decodeToRequests (PBFTMsg_decode (pkt_data p) 0) of
              None \<Rightarrow> e_ret None
            | Some req \<Rightarrow> e_bind (handleSignMsg env req) (\<lambda>succ. e_ret (Some (req, succ))))
      else if packet_id p = CommitReqPacket
      then (case decodeToRequests (PBFTMsg_decode (pkt_data p) 0) of
              None \<Rightarrow> e_ret None
            | Some req \<Rightarrow> e_bind (handleCommitMsg env req) (\<lambda>succ. e_ret (Some (req, succ))))
      else if packet_id p = ViewChangeReqPacket
      then (case decodeToRequests (PBFTMsg_decode (pkt_data p) 0) of
              None \<Rightarrow> e_ret None
            | Some req \<Rightarrow> e_bind (handleViewChangeMsg env req (node_idx p)) (\<lambda>succ. e_ret (Some (req, succ))))
      else e_ret None)"

definition forwardMsg :: "node_env \<Rightarrow> PBFTMsgPacket \<Rightarrow> PBFTMsg \<Rightarrow> unit pbft" where
  "forwardMsg env p m = e_on (\<lambda>s.
     let number = m_number (m_highestBlock s);
         height_flag = (number < height m \<or> i64 (number - height m) < 10) in
     e_when (0 < length (uniqueKey m) \<and> height_flag)
       (let gen_node_id = getSealerByIndex s (idx m);
            filter0 = node_id p # (if gen_node_id \<noteq> 0 then [gen_node_id] else []);
            current_ttl = u32 (int (ttl p) - 1)
        in e_bind (broadcastMsg env (packet_id p) (uniqueKey m) (pkt_data p) filter0 current_ttl)
             (\<lambda>_. e_ret ())))"

definition handleMsg :: "node_env \<Rightarrow> PBFTMsgPacket \<Rightarrow> unit pbft" where
  "handleMsg env p =
     e_bind (dispatchMsg env p) (\<lambda>r.
     if ttl p = 1 then e_ret ()
     else case r of
         None \<Rightarrow> e_ret ()
       | Some (m, succ) \<Rightarrow> e_when succ (forwardMsg env p m))"

subsection \<open>The work loop\<close>

definition checkTimeout :: "node_env \<Rightarrow> unit pbft" where
  "checkTimeout env = e_on (\<lambda>s.
     if isTimeout (env_now env) (m_timeManager s)
     then e_seq (e_when (m_lastConsensusTime (m_timeManager s) \<noteq> 0)
            (e_seq (e_mod (\<lambda>s. s\<lparr>m_fastViewChange := False\<rparr>))
            (e_seq (e_time updateChangeCycle)
              (e_when (m_onTimeout s \<and>
                  m_number (m_highestBlock s) < height (m_prepareCache (m_reqCache s)))
                (e_event (OnTimeout (m_sealingNumber s)))))))
       (e_seq (e_mod (\<lambda>s. s\<lparr>m_toView := i64 (m_toView s + 1), m_leaderFailed := True\<rparr>))
       (e_seq (e_event (NoteSealingBlockNumber (chain_number env)))
       (e_seq (e_time (\<lambda>t. t\<lparr>m_lastConsensusTime := env_now env\<rparr>))
       (e_seq (e_on (\<lambda>s. e_cache (removeInvalidViewChange (m_toView s) (m_number (m_highestBlock s))
           (BlockHeader_hash (env_crypto env) (m_highestBlock s)))))
       (e_bind (broadcastViewChangeReq env) (\<lambda>succ.
         if \<not> succ then e_ret ()
         else e_seq (checkAndChangeView env)
           (e_on (\<lambda>s. e_when (m_onViewChange s) (e_event OnViewChange)))))))))
     else e_ret ())"

definition collectGarbage :: "node_env \<Rightarrow> unit pbft" where
  "collectGarbage env = e_on (\<lambda>s.
     if \<not> BlockHeader_bool (m_highestBlock s) then e_ret ()
     else if 1000 * CollectInterval + m_lastGarbageCollection (m_timeManager s) < env_now env
     then e_seq (e_cache (reqCache_collectGarbage (m_number (m_highestBlock s))
              (BlockHeader_hash (env_crypto env) (m_highestBlock s))))
            (e_time (\<lambda>t. t\<lparr>m_lastGarbageCollection := env_now env\<rparr>))
     else e_ret ())"

definition handleFutureBlock :: "node_env \<Rightarrow> unit pbft" where
  "handleFutureBlock env = e_on (\<lambda>s.
     case futurePrepareCache (m_reqCache s) (u64 (m_consensusBlockNumber s)) of
       None \<Rightarrow> e_ret ()
     | Some req \<Rightarrow>
         e_when (view req = m_view s)
           (e_seq (handlePrepareMsg env req) (e_cache (eraseHandledFutureReq (u64 (height req))))))"

definition popAndHandle :: "node_env \<Rightarrow> unit pbft" where
  "popAndHandle env = e_on (\<lambda>s.
     case m_msgQueue s of
       [] \<Rightarrow> e_ret ()
     | p # ps \<Rightarrow> e_seq (e_mod (\<lambda>s. s\<lparr>m_msgQueue := ps\<rparr>)) (handleMsg env p))"

text \<open>One round of the loop; exceptions are caught.\<close>

definition workLoop_round :: "node_env \<Rightarrow> unit pbft" where
  "workLoop_round env =
     e_bind (e_catch
       (e_seq (popAndHandle env)
        (e_on (\<lambda>s. e_when (m_idx s \<noteq> MAXIDX)
          (e_seq (checkTimeout env) (e_seq (handleFutureBlock env) (collectGarbage env)))))))
     (\<lambda>_. e_ret ())"

subsection \<open>Report of a block\<close>

definition advanceConsensus :: "node_env \<Rightarrow> unit pbft" where
  "advanceConsensus env = e_on (\<lambda>s. e_when (m_consensusBlockNumber s \<le> m_number (m_highestBlock s))
     (e_seq (e_mod (\<lambda>s. s\<lparr>m_view := 0, m_toView := 0, m_leaderFailed := False\<rparr>))
     (e_seq (e_time (\<lambda>t. t\<lparr>m_lastConsensusTime := env_now env, m_changeCycle := 0\<rparr>))
     (e_seq (e_mod (\<lambda>s. s\<lparr>m_consensusBlockNumber := i64 (m_number (m_highestBlock s) + 1)\<rparr>))
       (e_cache (delInvalidViewChange (m_number (m_highestBlock s))
         (BlockHeader_hash (env_crypto env) (m_highestBlock s))))))))"

definition reportBlock :: "node_env \<Rightarrow> Block \<Rightarrow> unit pbft" where
  "reportBlock env b = e_on (\<lambda>s.
     if chain_number env = 0 \<or> m_number (m_highestBlock s) < m_number (m_blockHeader b)
     then e_seq (e_when (m_onCommitBlock s) (e_event (OnCommitBlock (u64 (m_number (m_blockHeader b)))
              (getTransactionSize b) (m_changeCycle (m_timeManager s)))))
       (e_seq (e_cache (removeInvalidFutureCache (m_number (m_highestBlock s))))
       (e_seq (e_mod (\<lambda>s. s\<lparr>m_highestBlock := m_blockHeader b\<rparr>))
       (e_seq (advanceConsensus env)
       (e_seq (resetConfig env)
         (e_cache (delCache (BlockHeader_hash (env_crypto env) (m_blockHeader b))))))))
     else e_ret ())"

subsection \<open>Runs\<close>

text \<open>A block that was written to the chain was encoded, and \<open>Block::encode\<close> refuses the number
  \<open>INT64_MAX\<close>.\<close>

inductive pbft_step :: "PBFTEngine \<Rightarrow> PBFTEngine \<Rightarrow> bool" where
  Recv: "pbft_step s (snd (onRecvPBFTMessage env peer ep buffer s))"
| Work: "pbft_step s (snd (workLoop_round env s))"
| Seal: "pbft_step s (snd (shouldSeal env s))"
| Generate: "pbft_step s (snd (generatePrepare env b s))"
| Report: "m_number (m_blockHeader b) < 2 ^ 63 - 1 \<Longrightarrow> pbft_step s (snd (reportBlock env b s))"

inductive_cases pbft_stepE: "pbft_step s t"

text \<open>A new engine, with any of the callbacks registered.\<close>

inductive pbft_new :: "PBFTEngine \<Rightarrow> bool" where
  New: "pbft_new (PBFTEngine_new kp sealers tm)"
| ViewChange: "pbft_new s \<Longrightarrow> pbft_new (engine_onViewChange s)"
| NextLeader: "pbft_new s \<Longrightarrow> pbft_new (engine_onNotifyNextLeaderReset s)"
| Timeout: "pbft_new s \<Longrightarrow> pbft_new (engine_onTimeout s)"
| Commit: "pbft_new s \<Longrightarrow> pbft_new (engine_onCommitBlock s)"

definition pbft_started :: "PBFTEngine \<Rightarrow> bool" where
  "pbft_started s \<longleftrightarrow> (\<exists>env s0. pbft_new s0 \<and> pbft_start env s0 = (Inr (), s))"

end
