(* ===== verification/PBFT_Invariants.thy ===== *)
theory PBFT_Invariants
  imports PBFT_Engine
begin

text \<open>
  The invariant of the consensus engine: well-formed caches, a prepared request that has its block,
  a configuration that fits the list of sealers, and integers within their widths. Every call into
  the engine keeps it, whether it returns or throws; the locale \<open>invariant_system\<close> is interpreted on
  the steps of the engine.
\<close>

section \<open>Definitions\<close>

text \<open>The prepare cache without a block is an empty request, whose view is \<open>MAXVIEW\<close>.\<close>

definition prepare_ok :: "PBFTReqCache \<Rightarrow> bool" where
  "prepare_ok c \<longleftrightarrow> (pBlock (m_prepareCache c) = None \<longrightarrow> view (m_prepareCache c) = MAXVIEW)"

definition cache_inv :: "PBFTReqCache \<Rightarrow> bool" where
  "cache_inv c \<longleftrightarrow> PBFTReqCache_ok c \<and> prepare_ok c"

definition own_idx :: "PBFTEngine \<Rightarrow> nat" where
  "own_idx s = (let i = getIndexBySealer s (kp_pub (m_keyPair s)) in if i < 0 then MAXIDX else u16 i)"

definition config_ok :: "PBFTEngine \<Rightarrow> bool" where
  "config_ok s \<longleftrightarrow> sorted (m_sealers s) \<and> m_nodeNum s = u16 (int (length (m_sealers s))) \<and>
     (m_accountType s = SealerAccount \<longleftrightarrow> kp_pub (m_keyPair s) \<in> set (m_sealers s)) \<and>
     (m_nodeNum s \<noteq> 0 \<longrightarrow> m_f s = (m_nodeNum s - 1) div 3 \<and> m_idx s = own_idx s \<and>
        m_cfgErr s = (m_idx s = MAXIDX))"

definition engine_ok :: "PBFTEngine \<Rightarrow> bool" where
  "engine_ok s \<longleftrightarrow> config_ok s \<and> cache_inv (m_reqCache s) \<and> broadcastCache_ok (m_broadCastCache s) \<and>
     um_ok (m_viewMap s) \<and> int64_range (m_view s) \<and> int64_range (m_toView s) \<and>
     m_changeCycle (m_timeManager s) \<le> kMaxChangeCycle \<and>
     list_all (\<lambda>p. packet_id p \<le> ViewChangeReqPacket) (m_msgQueue s)"

section \<open>The caches\<close>

lemma removeInvalidFutureCache_ok [simp]: "PBFTReqCache_ok c \<Longrightarrow> PBFTReqCache_ok (removeInvalidFutureCache n c)"
  by (simp add: PBFTReqCache_ok_def removeInvalidFutureCache_def cache_ok)

lemma cache_inv_new [simp]: "cache_inv PBFTReqCache_new"
  by (simp add: cache_inv_def prepare_ok_def PBFTReqCache_new_def PrepareReq_new_def
      PBFTReqCache_new_ok [unfolded PBFTReqCache_new_def PrepareReq_new_def])

lemmas cache_op_defs = addRawPrepare_def addPrepareReq_def addSignReq_def addCommitReq_def
  addFuturePrepareCache_def updateCommittedPrepare_def triggerViewChange_def delCache_def
  reqCache_collectGarbage_def removeInvalidViewChange_def removeInvalidFutureCache_def
  eraseHandledFutureReq_def delInvalidViewChange_def removeInvalidCommitCache_def
  removeInvalidSignCache_def removeInvalidViewChange_upto_def addViewChangeReq_def

lemma cache_inv_ops [simp]:
  assumes "cache_inv c"
  shows "cache_inv (addRawPrepare req c)"
    and "pBlock req \<noteq> None \<Longrightarrow> cache_inv (addPrepareReq req c)"
    and "cache_inv (addSignReq m c)"
    and "cache_inv (addCommitReq m c)"
    and "int64_range (view m) \<Longrightarrow> cache_inv (addViewChangeReq m c)"
    and "cache_inv (addFuturePrepareCache req c)"
    and "cache_inv (updateCommittedPrepare c)"
    and "cache_inv (triggerViewChange v c)"
    and "cache_inv (delCache h c)"
    and "cache_inv (reqCache_collectGarbage n h c)"
    and "cache_inv (removeInvalidViewChange v n h c)"
    and "cache_inv (removeInvalidFutureCache n c)"
    and "cache_inv (eraseHandledFutureReq k c)"
    and "cache_inv (delInvalidViewChange n h c)"
    and "cache_inv (c\<lparr>m_committedPrepareCache := req\<rparr>)"
    and "cache_inv (c\<lparr>m_prepareCache := (m_prepareCache c)\<lparr>pBlock := Some b\<rparr>\<rparr>)"
proof -
  have ok: "PBFTReqCache_ok c" and prep: "prepare_ok c" using assms by (simp_all add: cache_inv_def)
  note ops = PBFTReqCache_ops_ok [OF ok]
  show "cache_inv (addRawPrepare req c)" "cache_inv (updateCommittedPrepare c)"
    "cache_inv (triggerViewChange v c)" "cache_inv (delCache h c)"
    "cache_inv (reqCache_collectGarbage n h c)" "cache_inv (removeInvalidViewChange v n h c)"
    "cache_inv (eraseHandledFutureReq k c)"
    "cache_inv (delInvalidViewChange n h c)" "cache_inv (c\<lparr>m_committedPrepareCache := req\<rparr>)"
    "cache_inv (addSignReq m c)" "cache_inv (addCommitReq m c)" "cache_inv (addFuturePrepareCache req c)"
    "cache_inv (c\<lparr>m_prepareCache := (m_prepareCache c)\<lparr>pBlock := Some b\<rparr>\<rparr>)"
    using prep by (simp_all add: cache_inv_def ops)
      (simp_all add: prepare_ok_def cache_op_defs PrepareReq_new_def PBFTMsg_clear_def Let_def)
  show "pBlock req \<noteq> None \<Longrightarrow> cache_inv (addPrepareReq req c)"
    by (simp add: cache_inv_def ops) (auto simp: prepare_ok_def cache_op_defs)
  show "cache_inv (removeInvalidFutureCache n c)"
    using ok prep by (simp add: cache_inv_def) (simp add: prepare_ok_def cache_op_defs)
  show "int64_range (view m) \<Longrightarrow> cache_inv (addViewChangeReq m c)"
    using ok prep by (simp add: cache_inv_def) (simp add: prepare_ok_def cache_op_defs split: option.splits)
qed

lemma broadcast_clearAll_ok [simp]: "broadcastCache_ok bc \<Longrightarrow> broadcastCache_ok (broadcast_clearAll bc)"
proof -
  have "um_find (broadcast_clearAll bc) n = map_option msgCache_clearAll (um_find bc n)" for n
    by (induction bc) (auto simp: broadcast_clearAll_def um_find_def)
  moreover have "um_ok (broadcast_clearAll bc) = um_ok bc"
    by (simp add: broadcast_clearAll_def um_ok_def comp_def case_prod_unfold)
  ultimately show "broadcastCache_ok bc \<Longrightarrow> broadcastCache_ok (broadcast_clearAll bc)"
    by (auto simp: broadcastCache_ok_def msgCache_clearAll_def)
qed

lemma PrepareReq_of_sealing_block [simp]: "pBlock (PrepareReq_of_sealing cr now req g kp) = Some (s_block g)"
  by (simp add: PrepareReq_of_sealing_def)

lemma PBFTMsg_decode_range: "PBFTMsg_decode d k = Inr m \<Longrightarrow> int64_range (view m)"
  by (auto simp: PBFTMsg_decode_def PBFTMsg_populate_def)

section \<open>Operations\<close>

lemma config_ok_frame [simp]:
  "config_ok (s\<lparr>m_maxBlockTransactions := x0\<rparr>) = config_ok s"
  "config_ok (s\<lparr>m_consensusBlockNumber := x1\<rparr>) = config_ok s"
  "config_ok (s\<lparr>m_highestBlock := x2\<rparr>) = config_ok s"
  "config_ok (s\<lparr>m_allowFutureBlocks := x3\<rparr>) = config_ok s"
  "config_ok (s\<lparr>m_lastNodeList := x4\<rparr>) = config_ok s"
  "config_ok (s\<lparr>m_connectedNode := x5\<rparr>) = config_ok s"
  "config_ok (s\<lparr>m_omitEmptyBlock := x6\<rparr>) = config_ok s"
  "config_ok (s\<lparr>m_view := x7\<rparr>) = config_ok s"
  "config_ok (s\<lparr>m_toView := x8\<rparr>) = config_ok s"
  "config_ok (s\<lparr>m_leaderFailed := x9\<rparr>) = config_ok s"
  "config_ok (s\<lparr>m_notifyNextLeaderSeal := x10\<rparr>) = config_ok s"
  "config_ok (s\<lparr>m_backupDB := x11\<rparr>) = config_ok s"
  "config_ok (s\<lparr>m_broadCastCache := x12\<rparr>) = config_ok s"
  "config_ok (s\<lparr>m_reqCache := x13\<rparr>) = config_ok s"
  "config_ok (s\<lparr>m_timeManager := x14\<rparr>) = config_ok s"
  "config_ok (s\<lparr>m_msgQueue := x15\<rparr>) = config_ok s"
  "config_ok (s\<lparr>m_fastViewChange := x16\<rparr>) = config_ok s"
  "config_ok (s\<lparr>m_viewMap := x17\<rparr>) = config_ok s"
  "config_ok (s\<lparr>m_sealingNumber := x18\<rparr>) = config_ok s"
  "config_ok (s\<lparr>m_events := x19\<rparr>) = config_ok s"
  by (simp_all add: config_ok_def own_idx_def getIndexBySealer_def)

text \<open>The operations on single members.\<close>

lemma keeps_event [keeps_rules]: "keeps engine_ok (e_event ev)"
  unfolding e_event_def by (rule keeps_mod) (simp add: engine_ok_def)

lemma keeps_cache: "(\<And>c. cache_inv c \<Longrightarrow> cache_inv (f c)) \<Longrightarrow> keeps engine_ok (e_cache f)"
  unfolding e_cache_def by (rule keeps_mod) (simp add: engine_ok_def)

lemma keeps_time: "(\<And>t. m_changeCycle t \<le> kMaxChangeCycle \<Longrightarrow> m_changeCycle (f t) \<le> kMaxChangeCycle) \<Longrightarrow>
    keeps engine_ok (e_time f)"
  unfolding e_time_def by (rule keeps_mod) (simp add: engine_ok_def)

lemma keeps_catch [keeps_rules]: "keeps I m \<Longrightarrow> keeps I (e_catch m)"
  unfolding e_catch_def by (intro keeps_rules)

lemmas engine_mod = keeps_mod [where I = engine_ok] keeps_cache keeps_time

lemma keeps_broadcastMark [keeps_rules]: "keeps engine_ok (broadcastMark n t k)"
  unfolding broadcastMark_def by (intro keeps_rules engine_mod) (auto simp: engine_ok_def)

lemma keeps_broadcast_loop [keeps_rules]: "keeps engine_ok (broadcast_loop t k f ns acc)"
proof (induction ns arbitrary: acc)
  case (Cons n ns)
  show ?case by (simp only: broadcast_loop.simps) (intro keeps_rules Cons.IH)
qed (simp add: keeps_rules)

lemma keeps_broadcastMsg [keeps_rules]: "keeps engine_ok (broadcastMsg env t k d f ttl0)"
  unfolding broadcastMsg_def by (intro keeps_rules engine_mod) (auto simp: engine_ok_def)

lemma keeps_sendMsg [keeps_rules]: "keeps engine_ok (sendMsg env n t k d ttl0)"
  unfolding sendMsg_def by (intro keeps_rules)

lemma keeps_requests [keeps_rules]:
  "keeps engine_ok (broadcastSignReq env req)" "keeps engine_ok (broadcastCommitReq env req)"
  "keeps engine_ok (sendViewChangeMsg env n)" "keeps engine_ok (broadcastViewChangeReq env)"
  unfolding broadcastSignReq_def broadcastCommitReq_def sendViewChangeMsg_def broadcastViewChangeReq_def
  by (intro keeps_rules engine_mod; simp)+

lemma keeps_valid [keeps_rules]:
  "keeps engine_ok (isValidPrepare env req)" "keeps engine_ok (isValidSignReq env m)"
  "keeps engine_ok (isValidCommitReq env m)"
  unfolding isValidPrepare_def isValidSignReq_def isValidCommitReq_def
  by (intro keeps_rules engine_mod; simp)+

text \<open>The configuration is computed anew as a whole.\<close>

lemma sealer_index_neg: "sealer_index xs n i < 0 \<longleftrightarrow> n \<notin> set xs"
  by (induction xs n i rule: sealer_index.induct) auto

text \<open>What a new configuration leaves alone.\<close>

definition config_frame :: "PBFTEngine \<Rightarrow> PBFTEngine \<Rightarrow> bool" where
  "config_frame s t \<longleftrightarrow>
    m_consensusBlockNumber t = m_consensusBlockNumber s \<and>
    m_highestBlock t = m_highestBlock s \<and> m_keyPair t = m_keyPair s \<and>
    m_allowFutureBlocks t = m_allowFutureBlocks s \<and>
    m_connectedNode t = m_connectedNode s \<and> m_omitEmptyBlock t = m_omitEmptyBlock s \<and>
    m_view t = m_view s \<and> m_toView t = m_toView s \<and>
    m_leaderFailed t = m_leaderFailed s \<and>
    m_notifyNextLeaderSeal t = m_notifyNextLeaderSeal s \<and> m_backupDB t = m_backupDB s \<and>
    m_broadCastCache t = m_broadCastCache s \<and> m_reqCache t = m_reqCache s \<and>
    m_timeManager t = m_timeManager s \<and> m_msgQueue t = m_msgQueue s \<and>
    m_onViewChange t = m_onViewChange s \<and>
    m_onNotifyNextLeaderReset t = m_onNotifyNextLeaderReset s \<and>
    m_onTimeout t = m_onTimeout s \<and> m_onCommitBlock t = m_onCommitBlock s \<and>
    m_fastViewChange t = m_fastViewChange s \<and> maxTTL t = maxTTL s \<and>
    m_viewMap t = m_viewMap s \<and> m_sealingNumber t = m_sealingNumber s"

lemma config_frame_trans: "config_frame s t \<Longrightarrow> config_frame t u \<Longrightarrow> config_frame s u"
  by (simp add: config_frame_def)

lemma updateConsensusNodeList_frame:
  "wp (updateConsensusNodeList env) (\<lambda>r t. r = Inr () \<and> config_frame s t \<and>
     m_accountType t = m_accountType s \<and> (sorted (m_sealers s) \<longrightarrow> sorted (m_sealers t))) s"
  by (cases "chain_sealerList env"; cases "chain_observerList env")
     (simp_all add: updateConsensusNodeList_def e_event_def wp_rules Let_def config_frame_def)

lemma resetNodeInfo_frame:
  assumes "sorted (m_sealers s)" "m_accountType s = ObserverAccount"
  shows "wp resetNodeInfo (\<lambda>r t. config_frame s t \<and> config_ok t \<and>
    (if m_nodeNum t = 0 then r = Inl EmptySealers else r = Inr ())) s"
  using assms by (auto simp: resetNodeInfo_def wp_rules Let_def config_frame_def config_ok_def own_idx_def
      getIndexBySealer_def sealer_index_neg)

lemma resetConfig_result:
  assumes "sorted (m_sealers s)"
  shows "wp (resetConfig env) (\<lambda>r t. config_frame s t \<and>
    (r = Inl BadLexicalCast \<and> t = s \<or>
     config_ok t \<and> (if m_nodeNum t = 0 then r = Inl EmptySealers else r = Inr ()))) s"
proof (cases "env_lexical_cast env (chain_getSystemConfigByKey env ''tx_count_limit'')")
  case None
  then show ?thesis by (simp add: resetConfig_def updateMaxBlockTransactions_def wp_rules config_frame_def)
next
  case (Some n)
  let ?s = "s\<lparr>m_maxBlockTransactions := n, m_accountType := ObserverAccount\<rparr>"
  have s: "config_frame s ?s" by (simp add: config_frame_def)
  let ?Q = "\<lambda>r t. config_frame s t \<and> config_ok t \<and> (if m_nodeNum t = 0 then r = Inl EmptySealers else r = Inr ())"
  have info: "wp resetNodeInfo ?Q t"
    if t: "config_frame ?s t" "m_accountType t = m_accountType ?s" "sorted (m_sealers ?s) \<longrightarrow> sorted (m_sealers t)" for t
  proof -
    have "sorted (m_sealers t)" "m_accountType t = ObserverAccount" using t(2,3) assms by simp_all
    from resetNodeInfo_frame [OF this] show ?thesis
      by (rule wp_mono) (use config_frame_trans [OF config_frame_trans [OF s t(1)]] in blast)
  qed
  have "wp (e_seq (updateConsensusNodeList env) resetNodeInfo) ?Q ?s"
    unfolding wp_seq by (rule wp_mono [OF updateConsensusNodeList_frame]) (elim conjE, simp only: sum.case info)
  moreover have "wp (resetConfig env) Q s = wp (e_seq (updateConsensusNodeList env) resetNodeInfo) Q ?s" for Q
    by (simp add: resetConfig_def updateMaxBlockTransactions_def Some wp_rules)
  ultimately have "wp (resetConfig env) ?Q s" by (simp only:)
  then show ?thesis by (rule wp_mono) blast
qed

lemma keeps_resetConfig [keeps_rules]: "keeps engine_ok (resetConfig env)"
proof (rule keepsI)
  fix s assume ok: "engine_ok s"
  then have "sorted (m_sealers s)" by (simp add: engine_ok_def config_ok_def)
  then show "wp (resetConfig env) (\<lambda>_. engine_ok) s"
    by (rule wp_mono [OF resetConfig_result]) (use ok in \<open>auto simp: engine_ok_def config_frame_def\<close>)
qed

lemma keeps_backup [keeps_rules]:
  "keeps engine_ok (reloadMsg k)" "keeps engine_ok (backupMsg env k m)" "keeps engine_ok (initBackupDB env)"
proof -
  show reload: "keeps engine_ok (reloadMsg k)" for k
    unfolding reloadMsg_def by (intro keeps_rules engine_mod) simp
  show "keeps engine_ok (backupMsg env k m)"
    unfolding backupMsg_def by (intro keeps_rules engine_mod) (simp add: engine_ok_def)
  show "keeps engine_ok (initBackupDB env)"
    unfolding initBackupDB_def by (intro keeps_rules engine_mod reload) (simp add: engine_ok_def)
qed

lemma keeps_small [keeps_rules]:
  "keeps engine_ok changeViewForFastViewChange" "keeps engine_ok (updateViewMap i v)"
  "keeps engine_ok (notifySealing env b)"
  unfolding changeViewForFastViewChange_def updateViewMap_def notifySealing_def
  by (intro keeps_rules engine_mod; simp add: engine_ok_def tm_changeView_def)+

lemma keeps_checkAndSave [keeps_rules]: "keeps engine_ok (checkAndSave env)"
  unfolding checkAndSave_def commit_prepared_def
  by (intro keeps_rules engine_mod) simp_all

lemma keeps_checkAndCommit [keeps_rules]: "keeps engine_ok (checkAndCommit env)"
  unfolding checkAndCommit_def by (intro keeps_rules engine_mod) simp_all

lemma keeps_execBlock [keeps_rules]: "keeps engine_ok (execBlock env req)"
  unfolding execBlock_def by (intro keeps_rules engine_mod) (simp add: engine_ok_def)

lemma keeps_handlePrepareMsg [keeps_rules]: "keeps engine_ok (handlePrepareMsg env req)"
  unfolding handlePrepareMsg_def signPrepared_def by (intro keeps_rules engine_mod) simp_all

lemma keeps_shouldSeal [keeps_rules]: "keeps engine_ok (shouldSeal env)"
  unfolding shouldSeal_def rehandleCommitedPrepareCache_def
  by (intro keeps_rules engine_mod) (simp add: engine_ok_def)

lemma keeps_generatePrepare [keeps_rules]: "keeps engine_ok (generatePrepare env b)"
  unfolding generatePrepare_def by (intro keeps_rules engine_mod) (simp_all add: engine_ok_def)

lemma keeps_handlers [keeps_rules]:
  "keeps engine_ok (handleSignMsg env m)" "keeps engine_ok (handleCommitMsg env m)"
  unfolding handleSignMsg_def handleCommitMsg_def by (intro keeps_rules engine_mod; simp)+

lemma keeps_checkAndChangeView [keeps_rules]: "keeps engine_ok (checkAndChangeView env)"
  unfolding checkAndChangeView_def
  by (intro keeps_rules engine_mod) (simp_all add: engine_ok_def kMaxChangeCycle_def)

lemma keeps_handleViewChangeMsg:
  "int64_range (view m) \<Longrightarrow> keeps engine_ok (handleViewChangeMsg env m source)"
  unfolding handleViewChangeMsg_def isValidViewChangeReq_def catchupView_def
  by (intro keeps_rules engine_mod) (simp_all add: engine_ok_def)

lemma keeps_dispatchMsg [keeps_rules]: "keeps engine_ok (dispatchMsg env p)"
  unfolding dispatchMsg_def decodeToRequests_def
  by (intro keeps_rules keeps_handleViewChangeMsg) (auto dest: PBFTMsg_decode_range split: sum.splits)

lemma keeps_handleMsg [keeps_rules]: "keeps engine_ok (handleMsg env p)"
  unfolding handleMsg_def forwardMsg_def by (intro keeps_rules)

lemma keeps_loop [keeps_rules]:
  "keeps engine_ok (checkTimeout env)" "keeps engine_ok (collectGarbage env)"
  "keeps engine_ok (handleFutureBlock env)"
  unfolding checkTimeout_def collectGarbage_def handleFutureBlock_def
  by (intro keeps_rules engine_mod; simp add: engine_ok_def updateChangeCycle_def)+

lemma keeps_popAndHandle [keeps_rules]: "keeps engine_ok (popAndHandle env)"
  unfolding popAndHandle_def
proof (rule keeps_on)
  fix s assume ok: "engine_ok s"
  have "engine_ok (s\<lparr>m_msgQueue := ps\<rparr>)" if "m_msgQueue s = p # ps" for p ps
    using ok that by (simp add: engine_ok_def)
  with ok show "wp (case m_msgQueue s of [] \<Rightarrow> e_ret ()
      | p # ps \<Rightarrow> e_seq (e_mod (\<lambda>s. s\<lparr>m_msgQueue := ps\<rparr>)) (handleMsg env p)) (\<lambda>_. engine_ok) s"
    by (auto simp: wp_rules keeps_wp [OF keeps_handleMsg] split: list.splits)
qed

lemma keeps_workLoop [keeps_rules]: "keeps engine_ok (workLoop_round env)"
  unfolding workLoop_round_def by (intro keeps_rules)

lemma keeps_onRecv [keeps_rules]: "keeps engine_ok (onRecvPBFTMessage env peer ep buffer)"
  unfolding onRecvPBFTMessage_def by (intro keeps_rules engine_mod) (simp add: engine_ok_def)

lemma keeps_reportBlock [keeps_rules]: "keeps engine_ok (reportBlock env b)"
  unfolding reportBlock_def advanceConsensus_def
  by (intro keeps_rules engine_mod) (simp_all add: engine_ok_def int64_range_def)

section \<open>Runs\<close>

lemma new_parts:
  assumes "pbft_new s"
  shows "cache_inv (m_reqCache s)" "broadcastCache_ok (m_broadCastCache s)" "um_ok (m_viewMap s)"
    "int64_range (m_view s)" "int64_range (m_toView s)" "m_changeCycle (m_timeManager s) \<le> kMaxChangeCycle"
    "m_msgQueue s = []" "sorted (m_sealers s)"
  using assms
  by (induction rule: pbft_new.induct)
     (simp_all add: PBFTEngine_new_def broadcastCache_ok_def int64_range_def engine_onViewChange_def
       engine_onNotifyNextLeaderReset_def engine_onTimeout_def engine_onCommitBlock_def)

lemma keeps_initTail: "keeps engine_ok
    (e_seq (e_mod (\<lambda>s. s\<lparr>m_consensusBlockNumber := 0, m_view := 0, m_toView := 0, m_leaderFailed := False\<rparr>))
     (e_seq (initBackupDB env) (e_time (initTimerManager now view_timeout))))"
  by (intro keeps_rules engine_mod) (simp_all add: engine_ok_def int64_range_def initTimerManager_def)

lemma pbft_start_ok:
  assumes "pbft_new s0"
  shows "wp (pbft_start env) (\<lambda>r s. r = Inr () \<longrightarrow> engine_ok s) s0"
proof -
  have frame: "engine_ok t" if "config_frame s0 t" "config_ok t" for t
    using that new_parts [OF assms] by (simp add: engine_ok_def config_frame_def)
  have "wp (initPBFTEnv env n) (\<lambda>r s. r = Inr () \<longrightarrow> engine_ok s) s0" for n
    unfolding initPBFTEnv_def wp_seq [of "resetConfig env"]
    by (rule wp_mono [OF resetConfig_result [OF new_parts(8) [OF assms]]])
       (auto split: sum.splits intro!: wp_mono [OF keeps_wp [OF keeps_initTail]] intro: frame)
  then show ?thesis by (simp add: pbft_start_def wp_on)
qed

interpretation pbft: invariant_system pbft_started pbft_step engine_ok
proof unfold_locales
  show "engine_ok s" if "pbft_started s" for s
    using that wp_run [OF _ pbft_start_ok] by (auto simp: pbft_started_def)
  show "engine_ok t" if "engine_ok s" "pbft_step s t" for s t
    using that(2,1) by cases (simp_all add: keepsD keeps_rules)
qed

end
