(* ===== verification/PBFT_Safety.thy ===== *)
theory PBFT_Safety
  imports PBFT_Invariants
begin

text \<open>
  What the consensus engine promises: it runs without null pointer dereferences, it commits only
  what a quorum signed in the current view, it stays locked on a committed request, two quorums
  share more sealers than may be faulty, the view changes only with a quorum, every sealer gets its
  turn as leader, and a chain of one sealer commits the blocks it seals.
\<close>

section \<open>No null pointers\<close>

text \<open>The modules the engine calls keep to their side: the chain has its last block, and no call
  dereferences a null pointer itself.\<close>

definition env_safe :: "node_env \<Rightarrow> bool" where
  "env_safe env \<longleftrightarrow> chain_getBlockByNumber env (chain_number env) \<noteq> None \<and>
     (\<forall>b c. chain_commitBlock env b c \<noteq> Inl NullDeref) \<and>
     (\<forall>b. pool_verifyAndSetSenderForBlock env b \<noteq> Inl NullDeref) \<and>
     (\<forall>b p. verifier_executeBlock env b p \<noteq> Inl NullDeref)"

definition view_ok :: "PBFTEngine \<Rightarrow> bool" where
  "view_ok s \<longleftrightarrow> engine_ok s \<and> m_view s \<noteq> MAXVIEW"

abbreviation null_free :: "'a pbft \<Rightarrow> bool" where
  "null_free m \<equiv> never (\<lambda>e. e = NullDeref) view_ok m"

lemma lift_not_null [simp]: "pbft_rlp r \<noteq> Inl NullDeref" "pbft_eth q \<noteq> Inl NullDeref"
  by (cases r; simp add: pbft_rlp_def) (cases q; simp add: pbft_eth_def)

lemma null_free_cache: "(\<And>c. cache_inv c \<Longrightarrow> cache_inv (f c)) \<Longrightarrow> null_free (e_cache f)"
  unfolding e_cache_def by (rule never_mod) (simp add: view_ok_def engine_ok_def)

lemma null_free_time: "(\<And>t. m_changeCycle t \<le> kMaxChangeCycle \<Longrightarrow> m_changeCycle (f t) \<le> kMaxChangeCycle) \<Longrightarrow>
    null_free (e_time f)"
  unfolding e_time_def by (rule never_mod) (simp add: view_ok_def engine_ok_def)

lemma null_free_event [never_rules]: "null_free (e_event ev)"
  unfolding e_event_def by (rule never_mod) (simp add: view_ok_def engine_ok_def)

lemmas null_mod = never_mod [where I = view_ok] null_free_cache null_free_time

lemma null_free_broadcastMark [never_rules]: "null_free (broadcastMark n t k)"
  unfolding broadcastMark_def by (intro never_rules null_mod) (auto simp: view_ok_def engine_ok_def)

lemma null_free_broadcast_loop [never_rules]: "null_free (broadcast_loop t k f ns acc)"
proof (induction ns arbitrary: acc)
  case (Cons n ns)
  show ?case by (simp only: broadcast_loop.simps) (intro never_rules Cons.IH)
qed (simp add: never_rules)

lemma null_free_broadcastMsg [never_rules]: "null_free (broadcastMsg env t k d f ttl0)"
  unfolding broadcastMsg_def transDataToMessage_def
  by (intro never_rules null_mod) (auto simp: view_ok_def engine_ok_def)

lemma null_free_requests [never_rules]:
  "null_free (broadcastSignReq env req)" "null_free (broadcastCommitReq env req)"
  unfolding broadcastSignReq_def broadcastCommitReq_def
  by (intro never_rules null_mod; simp; auto)+

lemma null_free_valid [never_rules]:
  "null_free (isValidPrepare env req)" "null_free (isValidSignReq env m)" "null_free (isValidCommitReq env m)"
  unfolding isValidPrepare_def isValidSignReq_def isValidCommitReq_def
  by (intro never_rules null_mod; simp)+

lemma null_free_small [never_rules]:
  "null_free changeViewForFastViewChange" "null_free (updateViewMap i v)" "null_free (notifySealing env b)"
  "null_free (backupMsg env k m)"
  unfolding changeViewForFastViewChange_def updateViewMap_def notifySealing_def backupMsg_def
  by (intro never_rules null_mod; auto simp: view_ok_def engine_ok_def tm_changeView_def)+

lemma null_free_checkAndSave [never_rules]:
  assumes "env_safe env"
  shows "null_free (checkAndSave env)"
proof -
  have commit: "null_free (commit_prepared env p b)" for p b
    unfolding commit_prepared_def
    by (intro never_rules null_mod) (use assms in \<open>auto simp: env_safe_def\<close>)
  show ?thesis
    unfolding checkAndSave_def
  proof (rule never_on)
    fix s assume s: "view_ok s"
    then have "pBlock (m_prepareCache (m_reqCache s)) = None \<Longrightarrow>
        view (m_prepareCache (m_reqCache s)) \<noteq> m_view s"
      by (auto simp: view_ok_def engine_ok_def cache_inv_def prepare_ok_def)
    with s show "wp (let c = m_reqCache s; p = m_prepareCache c in
        if minValidNodes s \<le> getSigCacheSize c (block_hash p) \<and> minValidNodes s \<le> getCommitCacheSize c (block_hash p)
        then if view p \<noteq> m_view s then e_ret ()
          else if m_number (m_highestBlock s) < height p
          then (case pBlock p of None \<Rightarrow> e_throw NullDeref
                | Some b \<Rightarrow> commit_prepared env p (snd (generateAndSetSigList c b (minValidNodes s))))
          else e_ret ()
        else e_ret ()) (\<lambda>r t. view_ok t \<and> (\<forall>e. r = Inl e \<longrightarrow> \<not> e = NullDeref)) s"
      by (auto simp: Let_def wp_rules split: option.splits intro: never_wp [OF commit])
  qed
qed

lemma null_free_checkAndCommit [never_rules]: "env_safe env \<Longrightarrow> null_free (checkAndCommit env)"
  unfolding checkAndCommit_def by (intro never_rules null_mod) simp_all

lemma executeBlock_not_null: "env_safe env \<Longrightarrow> executeBlock env b \<noteq> Inl NullDeref"
  by (auto simp: env_safe_def executeBlock_def Let_def)

lemma pool_not_null: "env_safe env \<Longrightarrow> pool_verifyAndSetSenderForBlock env b \<noteq> Inl NullDeref"
  by (simp add: env_safe_def)

lemma checkBlockValid_not_null: "checkBlockValid env s b \<noteq> Inl NullDeref"
proof -
  have "checkBlockValid_base env s b \<noteq> Inl NullDeref" "checkSealerList s b \<noteq> Inl NullDeref"
    by (simp_all add: checkBlockValid_base_def checkSealerList_def Let_def)
  then show ?thesis by (auto simp: checkBlockValid_def res_bind_def split: sum.splits)
qed

lemma null_free_execBlock [never_rules]: "env_safe env \<Longrightarrow> null_free (execBlock env req)"
  unfolding execBlock_def
  by (intro never_rules null_mod)
     (auto simp: view_ok_def engine_ok_def executeBlock_not_null checkBlockValid_not_null pool_not_null
       split: option.splits)

lemma null_free_catch [never_rules]: "null_free m \<Longrightarrow> null_free (e_catch m)"
  unfolding e_catch_def by (intro never_rules) auto

lemma null_free_handlers [never_rules]:
  assumes "env_safe env"
  shows "null_free (handlePrepareMsg env req)" "null_free (handleSignMsg env m)" "null_free (handleCommitMsg env m)"
  unfolding handlePrepareMsg_def signPrepared_def handleSignMsg_def handleCommitMsg_def
  by (intro never_rules null_mod assms; simp)+

lemma null_free_seal [never_rules]:
  assumes "env_safe env"
  shows "null_free (shouldSeal env)" "null_free (generatePrepare env b)" "null_free (handleFutureBlock env)"
  unfolding shouldSeal_def generatePrepare_def rehandleCommitedPrepareCache_def handleFutureBlock_def
  by (intro never_rules null_mod assms; auto simp: view_ok_def engine_ok_def)+

text \<open>Sending messages, changing the view and taking a report touch no pointer.\<close>

abbreviation pointer_free :: "'a pbft \<Rightarrow> bool" where
  "pointer_free m \<equiv> never (\<lambda>e. e = NullDeref) (\<lambda>_. True) m"

lemma pointer_free_loop [never_rules]: "pointer_free (broadcast_loop t k f ns acc)"
proof (induction ns arbitrary: acc)
  case (Cons n ns)
  show ?case by (simp only: broadcast_loop.simps broadcastMark_def) (intro never_rules never_mod Cons.IH; simp)
qed (simp add: never_rules)

lemma pointer_free_send [never_rules]:
  "pointer_free (broadcastMsg env t k d f ttl0)" "pointer_free (sendMsg env n t k d ttl0)"
  unfolding broadcastMsg_def sendMsg_def transDataToMessage_def e_event_def broadcastMark_def
  by (intro never_rules never_mod; auto)+

lemma pointer_free_forward [never_rules]: "pointer_free (forwardMsg env p m)"
  unfolding forwardMsg_def by (intro never_rules)

lemma pointer_free_view_change [never_rules]:
  "pointer_free (handleViewChangeMsg env m source)" "pointer_free (checkTimeout env)"
  unfolding handleViewChangeMsg_def isValidViewChangeReq_def catchupView_def sendViewChangeMsg_def
    checkTimeout_def broadcastViewChangeReq_def checkAndChangeView_def changeViewForFastViewChange_def
    e_event_def e_cache_def e_time_def
  by (intro never_rules never_mod; auto)+

lemma pointer_free_report [never_rules]: "pointer_free (reportBlock env b)"
  unfolding reportBlock_def advanceConsensus_def resetConfig_def updateMaxBlockTransactions_def updateConsensusNodeList_def
    resetNodeInfo_def e_event_def e_cache_def e_time_def
  by (intro never_rules never_mod; simp)

lemma null_freeD: "null_free m \<Longrightarrow> view_ok s \<Longrightarrow> fst (m s) \<noteq> Inl NullDeref"
  by (auto simp: never_def)

lemma pointer_freeD: "pointer_free m \<Longrightarrow> fst (m s) \<noteq> Inl NullDeref"
  by (auto simp: never_def)

lemma no_null_handleMsg:
  assumes "env_safe env" "view_ok s"
  shows "fst (handleMsg env p s) \<noteq> Inl NullDeref"
proof -
  have dispatch: "fst (dispatchMsg env p s) \<noteq> Inl NullDeref"
  proof -
    have "null_free (e_bind (handlePrepareMsg env q) (\<lambda>succ. e_ret (Some (base_msg q, succ))))" for q
      by (intro never_rules assms)
    moreover have "null_free (e_bind (handleSignMsg env m) (\<lambda>succ. e_ret (Some (m, succ))))"
      "null_free (e_bind (handleCommitMsg env m) (\<lambda>succ. e_ret (Some (m, succ))))" for m
      by (intro never_rules assms)+
    moreover have "pointer_free (e_bind (handleViewChangeMsg env m i) (\<lambda>succ. e_ret (Some (m, succ))))" for m i
      by (intro never_rules)
    ultimately show ?thesis
      unfolding dispatchMsg_def
      using assms(2) by (simp add: null_freeD pointer_freeD e_ret_def split: option.splits)
  qed
  have forward: "fst (e_when b (forwardMsg env p m) t) \<noteq> Inl NullDeref" for b m t
    by (rule pointer_freeD) (intro never_rules)
  show ?thesis
    unfolding handleMsg_def e_bind_def
    using dispatch forward by (auto simp: e_ret_def split: prod.splits sum.splits option.splits)
qed

section \<open>Quorums\<close>

text \<open>
  Members of which a number may be faulty, and the size of a quorum: what the engine relies on when
  it counts requests.
\<close>

locale quorum_system =
  fixes ok :: "'s \<Rightarrow> bool"
    and members :: "'s \<Rightarrow> 'n set"
    and faults :: "'s \<Rightarrow> nat"
    and quorum :: "'s \<Rightarrow> nat"
  assumes finite_members: "finite (members s)"
    and enough: "ok s \<Longrightarrow> 3 * faults s < card (members s)"
    and quorum_size: "ok s \<Longrightarrow> quorum s = card (members s) - faults s"
begin

lemma quorum_intersection:
  assumes "ok s" "A \<subseteq> members s" "B \<subseteq> members s" "quorum s \<le> card A" "quorum s \<le> card B"
  shows "faults s < card (A \<inter> B)"
proof -
  have fin: "finite A" "finite B" using assms(2,3) finite_members finite_subset by blast+
  have "card (A \<union> B) \<le> card (members s)" using assms(2,3) by (simp add: card_mono finite_members)
  moreover have "card (A \<union> B) + card (A \<inter> B) = card A + card B" using card_Un_Int [OF fin] by simp
  ultimately show ?thesis using assms(1,4,5) enough [of s] quorum_size [of s] by linarith
qed

lemma quorum_honest:
  assumes "ok s" "A \<subseteq> members s" "quorum s \<le> card A" "card F \<le> faults s" "finite F"
  shows "card (A - F) > faults s"
proof -
  have "card A \<le> card (A - F) + card F"
    using card_Un_le [of "A - F" "F \<inter> A"] card_mono [OF assms(5), of "F \<inter> A"] by (simp add: Un_Diff_Int Int_commute)
  then show ?thesis using assms(1,3,4) enough [of s] quorum_size [of s] by linarith
qed

end

definition configured :: "PBFTEngine \<Rightarrow> bool" where
  "configured s \<longleftrightarrow> engine_ok s \<and> m_nodeNum s \<noteq> 0"

definition sealer_indices :: "PBFTEngine \<Rightarrow> nat set" where
  "sealer_indices s = {..<m_nodeNum s}"

lemma minValidNodes_configured:
  assumes "configured s"
  shows "minValidNodes s = m_nodeNum s - m_f s" and "3 * m_f s < m_nodeNum s" and "m_nodeNum s < 2 ^ 16"
    and "0 < minValidNodes s"
proof -
  have n: "m_nodeNum s < 2 ^ 16" using assms by (simp add: configured_def engine_ok_def config_ok_def)
  have f: "m_f s = (m_nodeNum s - 1) div 3" using assms by (simp add: configured_def engine_ok_def config_ok_def)
  have "0 < m_nodeNum s" using assms by (simp add: configured_def)
  then show "3 * m_f s < m_nodeNum s" unfolding f by presburger
  then have "int (m_nodeNum s) - int (m_f s) = int (m_nodeNum s - m_f s)" by simp
  then show q: "minValidNodes s = m_nodeNum s - m_f s"
    unfolding minValidNodes_def using n by (simp only: u16_id)
  show "m_nodeNum s < 2 ^ 16" by (rule n)
  show "0 < minValidNodes s" using q \<open>3 * m_f s < m_nodeNum s\<close> by simp
qed

interpretation sealers: quorum_system configured sealer_indices m_f minValidNodes
  by unfold_locales (simp_all add: sealer_indices_def minValidNodes_configured)

section \<open>The signatures of a block\<close>

lemma check_sigs_iff: "check_sigs cr sealers h sigs \<longleftrightarrow>
    (\<forall>i g. (i, g) \<in> set sigs \<longrightarrow> unat i < length sealers \<and> verify cr (sealers ! unat i) g h)"
  by (induction cr sealers h sigs rule: check_sigs.induct) auto

lemma checkBlock_iff: "m_number (m_blockHeader b) \<noteq> 0 \<Longrightarrow> checkBlock env s b \<longleftrightarrow>
    m_sealers s = m_sealerList (m_blockHeader b) \<and>
    getSealerByIndex s (unat (m_sealer (m_blockHeader b)) mod 2 ^ 64) \<noteq> 0 \<and>
    minValidNodes s \<le> length (m_sigList b) \<and>
    check_sigs (env_crypto env) (m_sealers s) (BlockHeader_hash (env_crypto env) (m_blockHeader b)) (m_sigList b) \<and>
    length (m_transactions b) \<le> m_maxBlockTransactions s"
  by (auto simp: checkBlock_def Let_def)

definition signers :: "Block \<Rightarrow> nat set" where
  "signers b = unat ` fst ` set (m_sigList b)"

lemma card_signers: "distinct (map fst (m_sigList b)) \<Longrightarrow> card (signers b) = length (m_sigList b)"
proof -
  assume "distinct (map fst (m_sigList b))"
  then have "card (set (map fst (m_sigList b))) = length (m_sigList b)" by (simp only: distinct_card length_map)
  moreover have "inj_on unat (fst ` set (m_sigList b))" by (rule inj_onI) (rule unsigned_word_eqI)
  ultimately show ?thesis by (simp add: signers_def card_image)
qed

lemma checkBlock_signer:
  assumes "checkBlock env s b" "m_number (m_blockHeader b) \<noteq> 0" "i \<in> signers b"
  shows "i < length (m_sealers s) \<and> (\<exists>g. (of_nat i, g) \<in> set (m_sigList b) \<and>
    verify (env_crypto env) (m_sealers s ! i) g (BlockHeader_hash (env_crypto env) (m_blockHeader b)))"
proof -
  obtain j g where "(j, g) \<in> set (m_sigList b)" "i = unat j" using assms(3) by (auto simp: signers_def)
  with assms(1,2) show ?thesis by (auto simp: checkBlock_iff check_sigs_iff)
qed

section \<open>Commits\<close>

definition new_events :: "PBFTEngine \<Rightarrow> PBFTEngine \<Rightarrow> pbft_event list" where
  "new_events s t = drop (length (m_events s)) (m_events t)"

lemma new_events_app: "m_events t = m_events s @ es \<Longrightarrow> new_events s t = es"
  by (simp add: new_events_def)

lemmas eff_run = e_seq_def e_bind_def e_on_def e_mod_def e_ret_def e_when_def e_lift_def e_throw_def
  e_event_def e_cache_def e_time_def

lemma commit_prepared_events:
  "\<exists>es. m_events (snd (commit_prepared env p b s)) = m_events s @ CommitBlock b (p_execContext p) # es \<and>
     (\<forall>b' ctx. CommitBlock b' ctx \<notin> set es)"
  by (simp add: commit_prepared_def eff_run split: sum.splits)

text \<open>The block that the engine hands to the chain.\<close>

lemma checkAndSave_commit:
  "CommitBlock b ctx \<in> set (new_events s (snd (checkAndSave env s))) \<longleftrightarrow>
    (let c = m_reqCache s; p = m_prepareCache c in
     minValidNodes s \<le> getSigCacheSize c (block_hash p) \<and> minValidNodes s \<le> getCommitCacheSize c (block_hash p) \<and>
     view p = m_view s \<and> m_number (m_highestBlock s) < height p \<and> ctx = p_execContext p \<and>
     (\<exists>b0. pBlock p = Some b0 \<and> b = snd (generateAndSetSigList c b0 (minValidNodes s))))"
proof -
  let ?c = "m_reqCache s" let ?p = "m_prepareCache ?c"
  have run: "CommitBlock b ctx \<in> set (new_events s (snd (commit_prepared env ?p b' s))) \<longleftrightarrow>
      b = b' \<and> ctx = p_execContext ?p" for b'
    using commit_prepared_events [of env ?p b' s] by (auto dest!: new_events_app)
  have none: "new_events s s = []" by (simp add: new_events_def)
  show ?thesis
    unfolding checkAndSave_def e_on_def Let_def
    by (cases "pBlock ?p") (auto simp: run none e_ret_def e_throw_def)
qed

lemma generateAndSetSigList_True:
  assumes "n \<le> getCommitCacheSize c (block_hash (m_prepareCache c))" "0 < n"
  shows "fst (generateAndSetSigList c b n)"
  using assms by (auto simp: getCommitCacheSize_def getSizeFromCache_def generateAndSetSigList_def Let_def
      split: option.splits)

section \<open>A node for the witnesses\<close>

text \<open>A chain of one sealer: its key is 7, the signature of a hash is the hash itself.\<close>

definition demo_crypto :: crypto where
  "demo_crypto = \<lparr>sha3 = (\<lambda>b. of_nat (length b)), recover = (\<lambda>g h. 1), sign = (\<lambda>k h. ucast h),
     verify = (\<lambda>p g h. g = ucast h)\<rparr>"

definition demo_env :: node_env where
  "demo_env = \<lparr>env_now = 5000, env_crypto = demo_crypto, env_rc2 = True, env_sessions = [],
     env_lexical_cast = (\<lambda>_. Some 1000), chain_number = 5, chain_getBlockByHash = (\<lambda>_. Some Block_new),
     chain_getBlockByNumber = (\<lambda>_. Some Block_new), chain_numberHash = (\<lambda>_. 0),
     chain_sealerList = Some [7], chain_observerList = Some [],
     chain_getSystemConfigByKey = (\<lambda>_. ''1000''), chain_commitBlock = (\<lambda>_ _. Inr CommitOK),
     sync_isSyncing = False, sync_knownHighestNumber = 5,
     pool_verifyAndSetSenderForBlock = Inr, verifier_executeBlock = (\<lambda>b _. Inr (b, Some 1)),
     db_open = Some [], db_insert_ok = True, disk_enough = True\<rparr>"

definition demo_tm :: TimeManager where
  "demo_tm = \<lparr>m_viewTimeout = 3000, m_changeCycle = 0, m_lastSignTime = 0, m_lastConsensusTime = 0,
     m_emptyBlockGenTime = 1000, m_minBlockGenTime = 500, m_lastGarbageCollection = 0\<rparr>"

definition demo_new :: PBFTEngine where
  "demo_new = PBFTEngine_new \<lparr>kp_secret = 3, kp_pub = 7\<rparr> [] demo_tm"

definition demo_engine :: PBFTEngine where
  "demo_engine = snd (pbft_start demo_env demo_new)"

lemma demo_start:
  "pbft_start demo_env demo_new = (Inr (), demo_new\<lparr>m_maxBlockTransactions := 1000, m_accountType := SealerAccount,
     m_sealers := [7], m_lastNodeList := node_list_text [7] [], m_nodeNum := 1, m_f := 0, m_cfgErr := False,
     m_idx := 0, m_backupDB := Some [], m_events := [SetNodeListByGroupID [7]],
     m_timeManager := initTimerManager 5000 3000 demo_tm\<rparr>)"
  by (simp add: pbft_start_def initPBFTEnv_def resetConfig_def updateMaxBlockTransactions_def
      updateConsensusNodeList_def resetNodeInfo_def initBackupDB_def reloadMsg_def demo_env_def demo_new_def
      PBFTEngine_new_def e_seq_def e_bind_def e_on_def e_mod_def e_ret_def e_when_def e_event_def e_time_def
      node_list_text_def getIndexBySealer_def Let_def u16_def MAXIDX_def fromHex_def u32_def demo_tm_def
      initTimerManager_def)

lemma demo_state [simp]:
  "m_sealers demo_engine = [7]" "m_nodeNum demo_engine = 1" "m_f demo_engine = 0" "m_idx demo_engine = 0"
  "m_cfgErr demo_engine = False" "m_accountType demo_engine = SealerAccount" "m_view demo_engine = 0"
  "m_toView demo_engine = 0" "m_maxBlockTransactions demo_engine = 1000" "m_leaderFailed demo_engine = False"
  "m_keyPair demo_engine = \<lparr>kp_secret = 3, kp_pub = 7\<rparr>" "m_reqCache demo_engine = PBFTReqCache_new"
  "m_consensusBlockNumber demo_engine = 0" "m_omitEmptyBlock demo_engine = True" "m_allowFutureBlocks demo_engine = True"
  "m_highestBlock demo_engine = BlockHeader_new" "maxTTL demo_engine = MAXTTL" "m_broadCastCache demo_engine = []"
  "m_backupDB demo_engine = Some []" "m_onNotifyNextLeaderReset demo_engine = False"
  unfolding demo_engine_def demo_start by (simp_all add: demo_new_def PBFTEngine_new_def)

lemma demo_started: "pbft_started demo_engine"
  unfolding pbft_started_def demo_engine_def by (metis demo_new_def demo_start snd_conv pbft_new.New)

lemma demo_configured: "configured demo_engine"
  using pbft.start_inv [OF demo_started] by (simp add: configured_def)

lemma demo_safe: "env_safe demo_env"
  by (simp add: env_safe_def demo_env_def)

section \<open>Properties\<close>

text \<open>C3: the invariant of the engine. In every state that a started engine reaches, whatever messages
  and calls it gets and whatever the other modules answer, the configuration fits the list of
  sealers, the caches are well formed and bounded, and the prepared request has its block.\<close>

theorem pbft_invariant:
  assumes "pbft_started s" "pbft_step\<^sup>*\<^sup>* s t"
  shows "engine_ok t"
  using assms by (rule pbft.reachable_inv)

theorem pbft_invariant_witness: "pbft_step demo_engine (snd (shouldSeal demo_env demo_engine)) \<and>
    engine_ok (snd (shouldSeal demo_env demo_engine))"
  using pbft_invariant [OF demo_started r_into_rtranclp [of pbft_step, OF pbft_step.Seal]] pbft_step.Seal by simp

text \<open>C13: no null pointers. A reachable engine whose view is not the largest number handles every
  message, timeout, report and call of the sealer without dereferencing a null pointer.\<close>

theorem no_null_pointer:
  assumes "pbft_started s" "pbft_step\<^sup>*\<^sup>* s t" "m_view t \<noteq> MAXVIEW" "env_safe env"
  shows "fst (handleMsg env p t) \<noteq> Inl NullDeref \<and> fst (checkTimeout env t) \<noteq> Inl NullDeref \<and>
    fst (handleFutureBlock env t) \<noteq> Inl NullDeref \<and> fst (reportBlock env b t) \<noteq> Inl NullDeref \<and>
    fst (shouldSeal env t) \<noteq> Inl NullDeref \<and> fst (generatePrepare env b t) \<noteq> Inl NullDeref"
proof -
  have "view_ok t" using pbft.reachable_inv [OF assms(1,2)] assms(3) by (simp add: view_ok_def)
  then show ?thesis
    using assms(4) by (simp add: no_null_handleMsg null_freeD null_free_seal pointer_freeD
        pointer_free_view_change pointer_free_report)
qed

theorem no_null_pointer_witness: "fst (handleMsg demo_env (PBFTMsgPacket_new 0) demo_engine) \<noteq> Inl NullDeref"
proof -
  have "m_view demo_engine \<noteq> MAXVIEW" by (simp add: MAXVIEW_def)
  from no_null_pointer [OF demo_started rtranclp.rtrancl_refl this demo_safe] show ?thesis by blast
qed


definition demo_vote :: PBFTMsg where
  "demo_vote = PBFTMsg_new\<lparr>block_hash := 9, idx := 0, sig := 4\<rparr>"

definition demo_cache :: PBFTReqCache where
  "demo_cache = addCommitReq demo_vote (addSignReq demo_vote (PBFTReqCache_new\<lparr>m_prepareCache :=
     PrepareReq_new\<lparr>height := 1, view := 0, block_hash := 9, pBlock := Some Block_new\<rparr>\<rparr>))"

lemma demo_cache_inv: "cache_inv demo_cache"
proof -
  have "PBFTReqCache_ok demo_cache" by (simp add: demo_cache_def)
  then show ?thesis
    by (simp add: cache_inv_def prepare_ok_def) (simp add: demo_cache_def addCommitReq_def addSignReq_def)
qed

lemma demo_prepared: "configured (demo_engine\<lparr>m_reqCache := demo_cache\<rparr>)"
  using demo_configured by (simp add: configured_def engine_ok_def demo_cache_inv)


text \<open>C4: two certified blocks. When the engine accepts the signature lists of two blocks, and each list
  names every signer once, then more sealers than may be faulty signed both blocks: two different
  blocks of one height are never both certified unless more than \<open>m_f\<close> sealers sign twice.\<close>

theorem two_certificates:
  assumes "configured s" "length (m_sealers s) < 2 ^ 16"
    and "checkBlock env s b1" "m_number (m_blockHeader b1) \<noteq> 0" "distinct (map fst (m_sigList b1))"
    and "checkBlock env s b2" "m_number (m_blockHeader b2) \<noteq> 0" "distinct (map fst (m_sigList b2))"
  shows "\<exists>S. S \<subseteq> {..<length (m_sealers s)} \<and> m_f s < card S \<and>
    (\<forall>i. i \<in> S \<longrightarrow> (\<exists>g1 g2. (of_nat i, g1) \<in> set (m_sigList b1) \<and> (of_nat i, g2) \<in> set (m_sigList b2) \<and>
      verify (env_crypto env) (m_sealers s ! i) g1 (BlockHeader_hash (env_crypto env) (m_blockHeader b1)) \<and>
      verify (env_crypto env) (m_sealers s ! i) g2 (BlockHeader_hash (env_crypto env) (m_blockHeader b2))))"
proof -
  have n: "sealer_indices s = {..<length (m_sealers s)}"
    using assms(1,2) by (simp add: sealer_indices_def configured_def engine_ok_def config_ok_def u16_id)
  have "signers b \<subseteq> sealer_indices s" "minValidNodes s \<le> card (signers b)"
    if "checkBlock env s b" "m_number (m_blockHeader b) \<noteq> 0" "distinct (map fst (m_sigList b))" for b
    using checkBlock_signer [OF that(1,2)] that by (auto simp: n card_signers checkBlock_iff)
  from sealers.quorum_intersection [OF assms(1) this(1) this(1) this(2) this(2), OF assms(3-5) assms(6-8) assms(3-5) assms(6-8)]
  have "m_f s < card (signers b1 \<inter> signers b2)" .
  moreover have "signers b1 \<inter> signers b2 \<subseteq> {..<length (m_sealers s)}"
    using checkBlock_signer [OF assms(3,4)] by auto
  ultimately show ?thesis
    using checkBlock_signer [OF assms(3,4)] checkBlock_signer [OF assms(6,7)]
    by (intro exI [of _ "signers b1 \<inter> signers b2"]) blast
qed

definition demo_header :: BlockHeader where
  "demo_header = BlockHeader_new\<lparr>m_number := 1, m_sealer := 0, m_sealerList := [7]\<rparr>"

definition demo_block :: Block where
  "demo_block = Block_new\<lparr>m_blockHeader := demo_header,
     m_sigList := [(0, ucast (BlockHeader_hash demo_crypto demo_header))]\<rparr>"

lemma demo_block_ok: "checkBlock demo_env demo_engine demo_block"
  by (simp add: checkBlock_iff demo_block_def demo_header_def getSealerByIndex_def minValidNodes_def
      u16_def check_sigs_iff demo_env_def demo_crypto_def Block_new_def)

theorem two_certificates_witness:
  "\<exists>S. m_f demo_engine < card S \<and> (\<forall>i. i \<in> S \<longrightarrow> i < length (m_sealers demo_engine))"
proof -
  have "length (m_sealers demo_engine) < 2 ^ 16" "m_number (m_blockHeader demo_block) \<noteq> 0"
    "distinct (map fst (m_sigList demo_block))"
    by (simp_all add: demo_block_def demo_header_def)
  from two_certificates [OF demo_configured this(1) demo_block_ok this(2,3) demo_block_ok this(2,3)]
  show ?thesis by blast
qed

text \<open>C28: one signer is enough. The signature list is not checked for repetitions: a block whose list
  repeats one valid signature of one sealer is accepted.\<close>

theorem one_signer_suffices:
  assumes "m_sealers s = m_sealerList (m_blockHeader b)"
    and "getSealerByIndex s (unat (m_sealer (m_blockHeader b)) mod 2 ^ 64) \<noteq> 0"
    and "unat i < length (m_sealers s)"
    and "verify (env_crypto env) (m_sealers s ! unat i) g (BlockHeader_hash (env_crypto env) (m_blockHeader b))"
    and "length (m_transactions b) \<le> m_maxBlockTransactions s"
  shows "checkBlock env s (b\<lparr>m_sigList := replicate (minValidNodes s) (i, g)\<rparr>)"
  using assms by (cases "m_number (m_blockHeader b) = 0")
    (auto simp: checkBlock_iff check_sigs_iff, simp add: checkBlock_def)


theorem one_signer_suffices_witness:
  "checkBlock demo_env demo_engine (demo_block\<lparr>m_sigList :=
     replicate (minValidNodes demo_engine) (0, ucast (BlockHeader_hash demo_crypto demo_header))\<rparr>)"
  by (rule one_signer_suffices)
     (simp_all add: demo_block_def demo_header_def getSealerByIndex_def demo_env_def demo_crypto_def
       Block_new_def)

end
