(* ===== verification/PBFT_Lock.thy ===== *)
theory PBFT_Lock
  imports PBFT_Safety
begin

text \<open>
  The lock on a committed request. Once a node has collected the sign requests for a block and sent
  its commit request, it accepts no prepare request for another block of that height any more,
  through view changes, timeouts, reports of blocks and messages of any kind.
\<close>

section \<open>Definitions\<close>

text \<open>A request that respects the lock on the hash \<open>x\<close> at height \<open>h\<close>, when blocks from \<open>n\<close> on are open.\<close>

definition honours :: "int \<Rightarrow> h256 \<Rightarrow> int \<Rightarrow> PrepareReq \<Rightarrow> bool" where
  "honours h x n p \<longleftrightarrow> h < height p \<and> h < n \<or> height p = h \<and> block_hash p = x"

definition cache_locked :: "int \<Rightarrow> h256 \<Rightarrow> int \<Rightarrow> PBFTReqCache \<Rightarrow> bool" where
  "cache_locked h x n c \<longleftrightarrow> honours h x n (m_committedPrepareCache c) \<and>
     (0 \<le> height (m_rawPrepareCache c) \<longrightarrow> honours h x n (m_rawPrepareCache c)) \<and>
     (view (m_prepareCache c) \<noteq> MAXVIEW \<longrightarrow> 0 \<le> height (m_rawPrepareCache c))"

definition locked :: "int \<Rightarrow> h256 \<Rightarrow> PBFTEngine \<Rightarrow> bool" where
  "locked h x s \<longleftrightarrow> 0 \<le> h \<and> h \<le> m_consensusBlockNumber s \<and> cache_locked h x (m_consensusBlockNumber s) (m_reqCache s)"

section \<open>Operations that keep the lock\<close>

lemma cache_locked_ops [simp]:
  assumes "cache_locked h x n c"
  shows "cache_locked h x n (addSignReq m c)"
    and "cache_locked h x n (addCommitReq m c)"
    and "cache_locked h x n (addViewChangeReq m c)"
    and "cache_locked h x n (addFuturePrepareCache req c)"
    and "cache_locked h x n (triggerViewChange v c)"
    and "cache_locked h x n (delCache k c)"
    and "cache_locked h x n (reqCache_collectGarbage i k c)"
    and "cache_locked h x n (removeInvalidViewChange v i k c)"
    and "cache_locked h x n (removeInvalidFutureCache i c)"
    and "cache_locked h x n (eraseHandledFutureReq j c)"
    and "cache_locked h x n (delInvalidViewChange i k c)"
    and "cache_locked h x n (c\<lparr>m_prepareCache := (m_prepareCache c)\<lparr>pBlock := b\<rparr>\<rparr>)"
  using assms by (simp_all add: cache_locked_def cache_op_defs PBFTMsg_clear_def Let_def split: option.splits)

lemma cache_locked_raise: "cache_locked h x n c \<Longrightarrow> n \<le> n' \<Longrightarrow> cache_locked h x n' c"
  by (auto simp: cache_locked_def honours_def)

lemma locked_frame [simp]:
  "locked h x (s\<lparr>m_maxBlockTransactions := x0\<rparr>) = locked h x s" "locked h x (s\<lparr>m_highestBlock := x1\<rparr>) = locked h x s"
  "locked h x (s\<lparr>m_nodeNum := x2\<rparr>) = locked h x s" "locked h x (s\<lparr>m_f := x3\<rparr>) = locked h x s"
  "locked h x (s\<lparr>m_accountType := x4\<rparr>) = locked h x s" "locked h x (s\<lparr>m_idx := x5\<rparr>) = locked h x s"
  "locked h x (s\<lparr>m_sealers := x6\<rparr>) = locked h x s" "locked h x (s\<lparr>m_lastNodeList := x7\<rparr>) = locked h x s"
  "locked h x (s\<lparr>m_connectedNode := x8\<rparr>) = locked h x s" "locked h x (s\<lparr>m_cfgErr := x9\<rparr>) = locked h x s"
  "locked h x (s\<lparr>m_view := x10\<rparr>) = locked h x s" "locked h x (s\<lparr>m_toView := x11\<rparr>) = locked h x s"
  "locked h x (s\<lparr>m_leaderFailed := x12\<rparr>) = locked h x s" "locked h x (s\<lparr>m_notifyNextLeaderSeal := x13\<rparr>) = locked h x s"
  "locked h x (s\<lparr>m_backupDB := x14\<rparr>) = locked h x s" "locked h x (s\<lparr>m_broadCastCache := x15\<rparr>) = locked h x s"
  "locked h x (s\<lparr>m_timeManager := x16\<rparr>) = locked h x s" "locked h x (s\<lparr>m_msgQueue := x17\<rparr>) = locked h x s"
  "locked h x (s\<lparr>m_fastViewChange := x18\<rparr>) = locked h x s" "locked h x (s\<lparr>m_viewMap := x19\<rparr>) = locked h x s"
  "locked h x (s\<lparr>m_sealingNumber := x20\<rparr>) = locked h x s" "locked h x (s\<lparr>m_events := x21\<rparr>) = locked h x s"
  by (simp_all add: locked_def)

lemma locked_cache: "(\<And>n c. cache_locked h x n c \<Longrightarrow> cache_locked h x n (f c)) \<Longrightarrow> keeps (locked h x) (e_cache f)"
  unfolding e_cache_def by (rule keeps_mod) (simp add: locked_def)

lemma locked_small [keeps_rules]: "keeps (locked h x) (e_event ev)" "keeps (locked h x) (e_time f)"
  unfolding e_event_def e_time_def by (rule keeps_mod; simp)+

lemmas lock_mod = keeps_mod [where I = "locked h x" for h x] locked_cache

lemma locked_broadcastMark [keeps_rules]: "keeps (locked h x) (broadcastMark n t k)"
  unfolding broadcastMark_def by (intro keeps_rules lock_mod) simp

lemma locked_broadcast_loop [keeps_rules]: "keeps (locked h x) (broadcast_loop t k f ns acc)"
proof (induction ns arbitrary: acc)
  case (Cons n ns)
  show ?case by (simp only: broadcast_loop.simps) (intro keeps_rules Cons.IH)
qed (simp add: keeps_rules)

lemma locked_send [keeps_rules]:
  "keeps (locked h x) (broadcastMsg env t k d f ttl0)" "keeps (locked h x) (sendMsg env n t k d ttl0)"
  unfolding broadcastMsg_def sendMsg_def by (intro keeps_rules lock_mod; simp)+

lemma locked_requests [keeps_rules]:
  "keeps (locked h x) (broadcastSignReq env req)" "keeps (locked h x) (broadcastCommitReq env req)"
  "keeps (locked h x) (sendViewChangeMsg env n)" "keeps (locked h x) (broadcastViewChangeReq env)"
  unfolding broadcastSignReq_def broadcastCommitReq_def sendViewChangeMsg_def broadcastViewChangeReq_def
  by (intro keeps_rules lock_mod; simp)+

lemma locked_valid [keeps_rules]:
  "keeps (locked h x) (isValidPrepare env req)" "keeps (locked h x) (isValidSignReq env m)"
  "keeps (locked h x) (isValidCommitReq env m)" "keeps (locked h x) (isValidViewChangeReq env m source)"
  unfolding isValidPrepare_def isValidSignReq_def isValidCommitReq_def isValidViewChangeReq_def catchupView_def
  by (intro keeps_rules lock_mod; simp)+

lemma locked_config [keeps_rules]: "keeps (locked h x) (resetConfig env)"
  unfolding resetConfig_def updateMaxBlockTransactions_def updateConsensusNodeList_def resetNodeInfo_def
  by (intro keeps_rules lock_mod) simp_all

lemma locked_exec [keeps_rules]:
  "keeps (locked h x) (backupMsg env k m)" "keeps (locked h x) changeViewForFastViewChange"
  "keeps (locked h x) (updateViewMap i v)" "keeps (locked h x) (notifySealing env b)"
  "keeps (locked h x) (execBlock env req)" "keeps (locked h x) (checkAndSave env)"
proof -
  show notify: "keeps (locked h x) (notifySealing env b)" for b
    unfolding notifySealing_def by (intro keeps_rules lock_mod) simp
  show "keeps (locked h x) (execBlock env req)"
    unfolding execBlock_def by (intro keeps_rules lock_mod notify) simp
  show "keeps (locked h x) (backupMsg env k m)" "keeps (locked h x) changeViewForFastViewChange"
    "keeps (locked h x) (updateViewMap i v)" "keeps (locked h x) (checkAndSave env)"
    unfolding backupMsg_def changeViewForFastViewChange_def updateViewMap_def checkAndSave_def commit_prepared_def
    by (intro keeps_rules lock_mod; simp)+
qed

lemma locked_view_change [keeps_rules]:
  "keeps (locked h x) (checkAndChangeView env)" "keeps (locked h x) (handleViewChangeMsg env m source)"
  "keeps (locked h x) (checkTimeout env)"
proof -
  show change: "keeps (locked h x) (checkAndChangeView env)"
    unfolding checkAndChangeView_def by (intro keeps_rules lock_mod) simp_all
  show "keeps (locked h x) (handleViewChangeMsg env m source)" "keeps (locked h x) (checkTimeout env)"
    unfolding handleViewChangeMsg_def checkTimeout_def by (intro keeps_rules lock_mod change; simp)+
qed

section \<open>Commit requests and prepare requests\<close>

text \<open>The request becomes the committed one only when it is not an empty one.\<close>

lemma locked_checkAndCommit:
  assumes "locked h x s"
    and "view (m_prepareCache (m_reqCache s)) = m_view s \<Longrightarrow> 0 \<le> height (m_rawPrepareCache (m_reqCache s))"
  shows "wp (checkAndCommit env) (\<lambda>_. locked h x) s"
proof -
  let ?t = "s\<lparr>m_reqCache := updateCommittedPrepare (m_reqCache s)\<rparr>"
  have rest: "keeps (locked h x) (e_seq (e_on (\<lambda>s. backupMsg env c_backupKeyCommitted (m_committedPrepareCache (m_reqCache s))))
         (e_seq (e_on (\<lambda>s. broadcastCommitReq env (m_prepareCache (m_reqCache s))))
         (e_seq (e_time (\<lambda>t. t\<lparr>m_lastSignTime := env_now env\<rparr>)) (checkAndSave env))))"
    by (intro keeps_rules)
  have "locked h x ?t" if "view (m_prepareCache (m_reqCache s)) = m_view s"
    using assms(1) assms(2) [OF that] by (auto simp: locked_def cache_locked_def updateCommittedPrepare_def)
  with keeps_wp [OF rest] assms(1) show ?thesis
    unfolding checkAndCommit_def wp_on Let_def
    by (simp add: wp_ret wp_seq [of "e_cache updateCommittedPrepare"]) (simp add: e_cache_def wp_mod)
qed

lemma isValidPrepare_VALID:
  "wp (isValidPrepare env req) (\<lambda>r t. r = Inr VALID \<longrightarrow> t = s \<and> height req = m_consensusBlockNumber s \<and>
     view req = m_view s \<and> isHashSavedAfterCommit s req \<and> isValidLeader s req \<and> checkSign env s req) s"
  by (auto simp: isValidPrepare_def wp_rules e_cache_def hasConsensused_def isFuturePrepare_def)

text \<open>Executing the block and sending the sign request leave the raw request alone.\<close>

definition raw_is :: "PrepareReq \<Rightarrow> PBFTEngine \<Rightarrow> bool" where
  "raw_is r s \<longleftrightarrow> m_rawPrepareCache (m_reqCache s) = r"

lemma raw_send [keeps_rules]:
  "keeps (raw_is r) (broadcast_loop t k f ns acc)" "keeps (raw_is r) (broadcastMsg env t k d f ttl0)"
  "keeps (raw_is r) (broadcastSignReq env req)"
proof -
  have mark: "keeps (raw_is r) (broadcastMark n t k)" for n t k
    unfolding broadcastMark_def by (intro keeps_rules keeps_mod) (simp add: raw_is_def)
  show loop: "keeps (raw_is r) (broadcast_loop t k f ns acc)" for t k f ns acc
  proof (induction ns arbitrary: acc)
    case (Cons n ns)
    show ?case by (simp only: broadcast_loop.simps) (intro keeps_rules Cons.IH mark)
  qed (simp add: keeps_rules)
  show msg: "keeps (raw_is r) (broadcastMsg env t k d f ttl0)" for env t k d f ttl0
    unfolding broadcastMsg_def e_event_def by (intro keeps_rules keeps_mod loop) (simp_all add: raw_is_def)
  show "keeps (raw_is r) (broadcastSignReq env req)"
    unfolding broadcastSignReq_def e_cache_def
    by (intro keeps_rules keeps_mod msg) (simp add: raw_is_def addSignReq_def)
qed

lemma raw_exec [keeps_rules]: "keeps (raw_is r) (execBlock env req)"
  unfolding execBlock_def notifySealing_def e_event_def
  by (intro keeps_rules keeps_mod) (simp_all add: raw_is_def)

lemma locked_addRaw:
  assumes "locked h x s" "height req = m_consensusBlockNumber s" "isHashSavedAfterCommit s req"
  shows "locked h x (s\<lparr>m_reqCache := addRawPrepare req (m_reqCache s)\<rparr>)"
  using assms by (auto simp: locked_def cache_locked_def addRawPrepare_def honours_def isHashSavedAfterCommit_def
      PrepareReq_new_def)

text \<open>What \<open>handlePrepareMsg\<close> does with a valid request after it is stored.\<close>

definition raw_locked :: "int \<Rightarrow> h256 \<Rightarrow> PrepareReq \<Rightarrow> PBFTEngine \<Rightarrow> bool" where
  "raw_locked h x r s \<longleftrightarrow> locked h x s \<and> raw_is r s"

lemma raw_locked_keeps: "keeps (locked h x) m \<Longrightarrow> keeps (raw_is r) m \<Longrightarrow> keeps (raw_locked h x r) m"
  by (simp add: keeps_def raw_locked_def)

lemma wp_locked_sign:
  assumes "raw_locked h x r s" "0 \<le> height r"
  shows "wp (e_seq (e_cache (addPrepareReq p)) (e_seq (broadcastSignReq env p)
    (e_seq (checkAndCommit env) (e_ret True)))) (\<lambda>_. locked h x) s"
proof -
  let ?t = "s\<lparr>m_reqCache := addPrepareReq p (m_reqCache s)\<rparr>"
  have t: "raw_locked h x r ?t"
    using assms by (auto simp: raw_locked_def raw_is_def locked_def cache_locked_def addPrepareReq_def
        removeInvalidCommitCache_def removeInvalidSignCache_def)
  have commit: "wp (checkAndCommit env) (\<lambda>_. locked h x) u" if "raw_locked h x r u" for u
    using that assms(2) by (intro locked_checkAndCommit) (simp_all add: raw_locked_def raw_is_def)
  have "wp (e_seq (broadcastSignReq env p) (e_seq (checkAndCommit env) (e_ret True))) (\<lambda>_. locked h x) ?t"
    unfolding wp_seq [of "broadcastSignReq env p"]
    by (rule wp_mono [OF keeps_wp [OF raw_locked_keeps [OF locked_requests(1) raw_send(3)] t]])
       (auto simp: wp_seq wp_ret raw_locked_def split: sum.splits intro!: wp_mono [OF commit])
  then show ?thesis by (simp add: wp_seq [of "e_cache (addPrepareReq p)"]) (simp add: e_cache_def wp_mod)
qed

lemma wp_locked_signPrepared:
  assumes "raw_locked h x req s" "0 \<le> height req"
  shows "wp (signPrepared env req r) (\<lambda>_. locked h x) s"
proof -
  have "keeps (locked h x) (e_seq changeViewForFastViewChange
      (e_seq (e_time (\<lambda>t. t\<lparr>m_changeCycle := 0\<rparr>)) (e_ret True)))" by (intro keeps_rules)
  from keeps_wp [OF this, of s] wp_locked_sign [OF assms] assms show ?thesis
    by (auto simp: signPrepared_def wp_ret wp_on Let_def raw_locked_def split: option.splits)
qed

lemma wp_locked_execute:
  assumes "raw_locked h x req s" "0 \<le> height req"
  shows "wp (e_bind (e_catch (execBlock env req)) (signPrepared env req)) (\<lambda>_. locked h x) s"
  unfolding wp_bind
  by (rule wp_mono [OF keeps_wp [OF raw_locked_keeps [OF keeps_catch [OF locked_exec(5)] keeps_catch [OF raw_exec]] assms(1)]])
     (use wp_locked_signPrepared [OF _ assms(2)] in \<open>auto simp: raw_locked_def split: sum.splits\<close>)

lemma locked_handlePrepareMsg [keeps_rules]: "keeps (locked h x) (handlePrepareMsg env req)"
proof (rule keepsI)
  fix s assume s: "locked h x s"
  show "wp (handlePrepareMsg env req) (\<lambda>_. locked h x) s"
    unfolding handlePrepareMsg_def wp_bind [of "isValidPrepare env req"]
  proof (rule wp_mono [OF wp_conj [OF isValidPrepare_VALID keeps_wp [OF locked_valid(1) s]]])
    fix r t
    assume r: "(r = Inr VALID \<longrightarrow> t = s \<and> height req = m_consensusBlockNumber s \<and> view req = m_view s \<and>
        isHashSavedAfterCommit s req \<and> isValidLeader s req \<and> checkSign env s req) \<and> locked h x t"
    have valid: "wp (e_bind (e_catch (execBlock env req)) (signPrepared env req)) (\<lambda>_. locked h x)
        (u\<lparr>m_reqCache := addRawPrepare req (m_reqCache u)\<rparr>)"
      if "u = s\<lparr>m_viewMap := um_set (idx req) (view req) (m_viewMap s)\<rparr>" "r = Inr VALID" for u
    proof -
      have u: "locked h x u" "height req = m_consensusBlockNumber u" "isHashSavedAfterCommit u req"
        using r that s by (simp_all add: isHashSavedAfterCommit_def)
      from locked_addRaw [OF this] show ?thesis
        by (intro wp_locked_execute) (use u in \<open>auto simp: raw_locked_def raw_is_def addRawPrepare_def locked_def\<close>)
    qed
    show "case r of Inl e \<Rightarrow> locked h x t | Inr x' \<Rightarrow> wp (if x' = INVALID then e_ret False
        else e_seq (updateViewMap (idx req) (view req)) (if x' = FUTURE then e_ret True
          else e_seq (e_cache (addRawPrepare req)) (e_bind (e_catch (execBlock env req)) (signPrepared env req))))
        (\<lambda>_. locked h x) t"
      using r valid
      by (cases r; cases "projr r") (auto simp: wp_ret wp_seq wp_mod updateViewMap_def e_cache_def)
  qed
qed

section \<open>Steps\<close>

lemma locked_handlers [keeps_rules]:
  "keeps (locked h x) (handleCommitMsg env m)" "keeps (locked h x) (shouldSeal env)"
  "keeps (locked h x) (generatePrepare env b)" "keeps (locked h x) (handleFutureBlock env)"
  "keeps (locked h x) (collectGarbage env)" "keeps (locked h x) (forwardMsg env p m)"
  "keeps (locked h x) (onRecvPBFTMessage env peer ep buffer)"
  unfolding handleCommitMsg_def shouldSeal_def rehandleCommitedPrepareCache_def generatePrepare_def
    handleFutureBlock_def collectGarbage_def forwardMsg_def onRecvPBFTMessage_def
  by (intro keeps_rules lock_mod; simp)+

lemma wp_locked_sign_msg:
  assumes "locked h x s" "m_view s \<noteq> MAXVIEW"
  shows "wp (handleSignMsg env m) (\<lambda>_. locked h x) s"
proof -
  have commit: "wp (checkAndCommit env) (\<lambda>_. locked h x) t" if "locked h x t" "m_view t \<noteq> MAXVIEW" for t
    using that by (intro locked_checkAndCommit) (auto simp: locked_def cache_locked_def)
  have "wp (isValidSignReq env m) (\<lambda>r t. locked h x t \<and> m_view t = m_view s) s"
    using assms(1) by (auto simp: isValidSignReq_def wp_rules Let_def e_cache_def locked_def)
  then show ?thesis
    unfolding handleSignMsg_def wp_bind [of "isValidSignReq env m"]
    by (rule wp_mono)
       (use assms(2) in \<open>auto simp: wp_ret wp_seq wp_mod updateViewMap_def e_cache_def locked_def
          split: sum.splits intro!: wp_mono [OF commit, unfolded locked_def]\<close>)
qed

lemma wp_locked_handleMsg:
  assumes "locked h x s" "m_view s \<noteq> MAXVIEW"
  shows "wp (handleMsg env p) (\<lambda>_. locked h x) s"
proof -
  have "keeps (locked h x) (e_bind (handlePrepareMsg env q) (\<lambda>succ. e_ret (Some (base_msg q, succ))))"
    "keeps (locked h x) (e_bind (handleCommitMsg env m) (\<lambda>succ. e_ret (Some (m, succ))))"
    "keeps (locked h x) (e_bind (handleViewChangeMsg env m i) (\<lambda>succ. e_ret (Some (m, succ))))" for q m i
    by (intro keeps_rules)+
  note keep = this [THEN keeps_wp, OF assms(1)]
  have sign: "wp (e_bind (handleSignMsg env m) (\<lambda>succ. e_ret (Some (m, succ)))) (\<lambda>_. locked h x) s" for m
    unfolding wp_bind by (rule wp_mono [OF wp_locked_sign_msg [OF assms]]) (simp add: wp_ret split: sum.splits)
  have "wp (dispatchMsg env p) (\<lambda>_. locked h x) s"
    unfolding dispatchMsg_def using keep sign assms(1) by (simp add: wp_ret split: option.splits)
  moreover have "keeps (locked h x) (if ttl p = 1 then e_ret () else case r of None \<Rightarrow> e_ret ()
      | Some (m, succ) \<Rightarrow> e_when succ (forwardMsg env p m))" for r
    by (intro keeps_rules)
  ultimately show ?thesis
    unfolding handleMsg_def wp_bind by (elim wp_mono) (auto split: sum.split intro: keeps_wp)
qed

lemma wp_locked_round:
  assumes "locked h x s" "m_view s \<noteq> MAXVIEW"
  shows "wp (workLoop_round env) (\<lambda>_. locked h x) s"
proof -
  have "wp (popAndHandle env) (\<lambda>_. locked h x) s"
    unfolding popAndHandle_def using assms
    by (auto simp: wp_rules split: list.splits intro!: wp_locked_handleMsg)
  moreover have rest: "keeps (locked h x) (e_on (\<lambda>s. e_when (m_idx s \<noteq> MAXIDX)
      (e_seq (checkTimeout env) (e_seq (handleFutureBlock env) (collectGarbage env)))))"
    by (intro keeps_rules)
  ultimately have "wp (e_seq (popAndHandle env) (e_on (\<lambda>s. e_when (m_idx s \<noteq> MAXIDX)
      (e_seq (checkTimeout env) (e_seq (handleFutureBlock env) (collectGarbage env)))))) (\<lambda>_. locked h x) s"
    unfolding wp_seq [of "popAndHandle env"] by (elim wp_mono) (auto split: sum.split intro: keeps_wp)
  then show ?thesis
    unfolding workLoop_round_def e_catch_def wp_bind wp_try by (elim wp_mono) (auto simp: wp_rules split: sum.split)
qed

lemma locked_report:
  assumes "m_number (m_blockHeader b) < 2 ^ 63 - 1"
  shows "keeps (locked h x) (reportBlock env b)"
proof (rule keepsI)
  fix s assume s: "locked h x s"
  have advance: "wp (advanceConsensus env) (\<lambda>_. locked h x) t"
    if t: "locked h x t" "m_highestBlock t = m_blockHeader b" for t
  proof -
    let ?n = "m_number (m_blockHeader b)"
    have "i64 (?n + 1) = ?n + 1" "m_consensusBlockNumber t \<le> ?n + 1" if "m_consensusBlockNumber t \<le> ?n"
      using that t(1) assms by (simp_all add: locked_def i64_id int64_range_def)
    with t show ?thesis
      by (auto simp: advanceConsensus_def wp_rules e_cache_def e_time_def locked_def
          intro!: cache_locked_ops cache_locked_raise [of h x "m_consensusBlockNumber t"])
  qed
  have rest: "keeps (locked h x) (e_seq (resetConfig env)
      (e_cache (delCache (BlockHeader_hash (env_crypto env) (m_blockHeader b)))))"
    by (intro keeps_rules lock_mod) simp
  have "wp (e_seq (e_mod (\<lambda>s. s\<lparr>m_highestBlock := m_blockHeader b\<rparr>)) (e_seq (advanceConsensus env)
      (e_seq (resetConfig env) (e_cache (delCache (BlockHeader_hash (env_crypto env) (m_blockHeader b)))))))
      (\<lambda>_. locked h x) t" if "locked h x t" for t
    unfolding wp_seq [of "e_mod _"] wp_mod sum.case wp_seq [of "advanceConsensus env"]
    by (rule wp_mono [OF advance]) (use that in \<open>auto split: sum.split intro: keeps_wp [OF rest]\<close>)
  then have tail: "keeps (locked h x) (e_seq (e_mod (\<lambda>s. s\<lparr>m_highestBlock := m_blockHeader b\<rparr>))
      (e_seq (advanceConsensus env) (e_seq (resetConfig env)
        (e_cache (delCache (BlockHeader_hash (env_crypto env) (m_blockHeader b)))))))"
    by (rule keepsI)
  have "keeps (locked h x) (reportBlock env b)"
    unfolding reportBlock_def by (intro keeps_if keeps_on_all keeps_seq [OF _ keeps_seq [OF _ tail]] keeps_rules lock_mod) simp
  with s show "wp (reportBlock env b) (\<lambda>_. locked h x) s" by (rule keeps_wp [rotated])
qed

lemma locked_step:
  assumes "pbft_step s t" "m_view s \<noteq> MAXVIEW" "locked h x s"
  shows "locked h x t"
  using assms(1)
proof cases
  case (Work env)
  with wp_locked_round [OF assms(3,2)] show ?thesis by (simp add: wp_def case_prod_unfold)
qed (use assms(3) in \<open>simp_all add: keepsD keeps_rules locked_report\<close>)

lemma locked_run:
  assumes "(\<lambda>s t. pbft_step s t \<and> m_view s \<noteq> MAXVIEW)\<^sup>*\<^sup>* s t" "locked h x s"
  shows "locked h x t"
  using assms by (induction rule: rtranclp_induct) (auto intro: locked_step)

text \<open>A locked engine does not take up a request for another block of the height.\<close>

lemma locked_reject:
  assumes "locked h x s" "height req = h" "block_hash req \<noteq> x"
  shows "\<exists>r t. handlePrepareMsg env req s = (Inr r, t) \<and> m_events t = m_events s \<and>
    m_reqCache t = (m_reqCache s)\<lparr>m_futurePrepareCache := m_futurePrepareCache (m_reqCache t)\<rparr>"
proof -
  have "\<not> (height req = m_consensusBlockNumber s \<and> isHashSavedAfterCommit s req)"
    using assms by (auto simp: locked_def cache_locked_def honours_def isHashSavedAfterCommit_def)
  then show ?thesis
    by (auto simp: handlePrepareMsg_def isValidPrepare_def eff_run updateViewMap_def addFuturePrepareCache_def
        hasConsensused_def isFuturePrepare_def)
qed

section \<open>Properties\<close>

text \<open>C1: the commit lock. A node that has committed to a request (the request in its raw cache is the one it
  backed up) stays with it: whatever happens afterwards, as long as the view stays below the
  largest number, the node holds no request for another block of that height, and a prepare
  request for another block of that height is answered with nothing: no message is sent, nothing
  is executed or signed, and no cache but that of future requests changes.\<close>

theorem commit_lock:
  assumes "m_committedPrepareCache (m_reqCache s) = m_rawPrepareCache (m_reqCache s)"
    and "height (m_rawPrepareCache (m_reqCache s)) = h" "block_hash (m_rawPrepareCache (m_reqCache s)) = x"
    and "0 \<le> h" "h \<le> m_consensusBlockNumber s"
    and "(\<lambda>s t. pbft_step s t \<and> m_view s \<noteq> MAXVIEW)\<^sup>*\<^sup>* s t"
  shows "(height (m_rawPrepareCache (m_reqCache t)) = h \<longrightarrow> block_hash (m_rawPrepareCache (m_reqCache t)) = x) \<and>
    (\<forall>env req. height req = h \<and> block_hash req \<noteq> x \<longrightarrow>
      (\<exists>r u. handlePrepareMsg env req t = (Inr r, u) \<and> m_events u = m_events t \<and>
        m_reqCache u = (m_reqCache t)\<lparr>m_futurePrepareCache := m_futurePrepareCache (m_reqCache u)\<rparr>))"
proof -
  have "locked h x s" using assms(1-5) by (simp add: locked_def cache_locked_def honours_def)
  with assms(6) have t: "locked h x t" by (rule locked_run)
  then have "height (m_rawPrepareCache (m_reqCache t)) = h \<Longrightarrow> block_hash (m_rawPrepareCache (m_reqCache t)) = x"
    by (auto simp: locked_def cache_locked_def honours_def)
  with locked_reject [OF t] show ?thesis by blast
qed

text \<open>Witness: the engine with a committed request for the hash 8 at height 0, after it was asked
  whether it should seal.\<close>

definition demo_locked :: PBFTEngine where
  "demo_locked = demo_engine\<lparr>m_reqCache := PBFTReqCache_new\<lparr>
     m_committedPrepareCache := PrepareReq_new\<lparr>height := 0, block_hash := 8\<rparr>,
     m_rawPrepareCache := PrepareReq_new\<lparr>height := 0, block_hash := 8\<rparr>\<rparr>\<rparr>"

theorem commit_lock_witness:
  "\<exists>r u. handlePrepareMsg demo_env (PrepareReq_new\<lparr>height := 0, block_hash := 9\<rparr>)
     (snd (shouldSeal demo_env demo_locked)) = (Inr r, u) \<and>
   m_events u = m_events (snd (shouldSeal demo_env demo_locked))"
proof -
  let ?t = "snd (shouldSeal demo_env demo_locked)"
  have "pbft_step demo_locked ?t \<and> m_view demo_locked \<noteq> MAXVIEW"
    by (simp add: pbft_step.Seal demo_locked_def MAXVIEW_def)
  then have run: "(\<lambda>s t. pbft_step s t \<and> m_view s \<noteq> MAXVIEW)\<^sup>*\<^sup>* demo_locked ?t"
    by (rule r_into_rtranclp [where r = "\<lambda>s t. pbft_step s t \<and> m_view s \<noteq> MAXVIEW"])
  have "m_committedPrepareCache (m_reqCache demo_locked) = m_rawPrepareCache (m_reqCache demo_locked)"
    "height (m_rawPrepareCache (m_reqCache demo_locked)) = 0"
    "block_hash (m_rawPrepareCache (m_reqCache demo_locked)) = 8" "(0::int) \<le> 0" "0 \<le> m_consensusBlockNumber demo_locked"
    by (simp_all add: demo_locked_def)
  from conjunct2 [OF commit_lock [OF this run], rule_format, of "PrepareReq_new\<lparr>height := 0, block_hash := 9\<rparr>" demo_env]
  show ?thesis by auto
qed

end
