(* ===== verification/PBFT_Liveness.thy ===== *)
theory PBFT_Liveness
  imports PBFT_Lock
begin

text \<open>
  Progress of the consensus engine: the turn of every sealer as leader, the change of the view, the
  way of a message through the network, and a chain of one sealer that commits what it seals.
\<close>

section \<open>The turn of the leader\<close>

lemma c_rem_nonneg: "0 \<le> a \<Longrightarrow> 0 < b \<Longrightarrow> c_rem a b = a mod b"
  by (cases "a = 0") (simp_all add: c_rem_def)

lemma getLeader_mod:
  assumes "fst (getLeader s)" "0 \<le> v" "0 \<le> m_number (m_highestBlock s)"
    and "v + m_number (m_highestBlock s) < 2 ^ 63" "m_nodeNum s < 2 ^ 16"
  shows "getLeader (s\<lparr>m_view := v\<rparr>) = (True, nat ((v + m_number (m_highestBlock s)) mod int (m_nodeNum s)))"
proof -
  have up: "\<not> m_cfgErr s" "\<not> m_leaderFailed s" "m_sealer (m_highestBlock s) \<noteq> Invalid256" "m_nodeNum s \<noteq> 0"
    using assms(1) by (auto simp: getLeader_def split: if_splits)
  let ?x = "v + m_number (m_highestBlock s)"
  have "i64 ?x = ?x" using assms(2-4) by (simp add: i64_id int64_range_def)
  moreover have "c_rem ?x (int (m_nodeNum s)) = ?x mod int (m_nodeNum s)"
    using assms(2,3) up(4) by (simp add: c_rem_nonneg)
  moreover have "u16 (?x mod int (m_nodeNum s)) = nat (?x mod int (m_nodeNum s))"
  proof -
    have "0 \<le> ?x mod int (m_nodeNum s)" "?x mod int (m_nodeNum s) < int (m_nodeNum s)"
      using up(4) by simp_all
    with assms(5) have "nat (?x mod int (m_nodeNum s)) < 2 ^ 16" by linarith
    from u16_id [OF this] \<open>0 \<le> ?x mod int (m_nodeNum s)\<close> show ?thesis by simp
  qed
  ultimately show ?thesis using up by (simp add: getLeader_def)
qed

lemma turn_unique:
  fixes v k n :: int
  assumes "0 \<le> i" "i < n"
  shows "\<exists>!w. v \<le> w \<and> w < v + n \<and> (w + k) mod n = i"
proof (rule ex1I)
  let ?w = "v + (i - (v + k)) mod n"
  have "0 < n" using assms by simp
  then have "0 \<le> (i - (v + k)) mod n" "(i - (v + k)) mod n < n" by simp_all
  moreover have "(?w + k) mod n = (v + k + (i - (v + k))) mod n"
    using mod_add_right_eq [of "v + k" "i - (v + k)" n] by (simp add: algebra_simps)
  ultimately show "v \<le> ?w \<and> ?w < v + n \<and> (?w + k) mod n = i" using assms by simp
  fix w assume w: "v \<le> w \<and> w < v + n \<and> (w + k) mod n = i"
  then have "(w - v) mod n = (i - (v + k)) mod n"
    by (metis add_diff_cancel_left' add_diff_eq diff_diff_eq2 add.commute mod_diff_left_eq)
  moreover have "(w - v) mod n = w - v" using w by simp
  ultimately show "w = ?w" by simp
qed

section \<open>Sending\<close>

lemma wrap_fields_len:
  assumes "list_all2 (writes (\<lambda>w. w)) ws es" "length (concat es) + 18 < n" "n \<le> 2 ^ 60"
  shows "\<exists>d. wrap_fields ws = Inr d \<and> length d < n"
proof -
  let ?e = "concat es"
  have size: "rlp_size_ok (length ?e)" using assms(2,3) by (simp add: rlp_size_ok_def del: length_concat)
  have len: "length (rlp_str ?e) \<le> length ?e + 9" by (rule length_rlp_str_le [OF size])
  have "rlp_size_ok (length (rlp_str ?e))" using len assms(2,3) by (simp add: rlp_size_ok_def del: length_concat)
  from length_rlp_lst_le [OF this] len assms(2) have "length (rlp_lst (rlp_str ?e)) < n" by linarith
  moreover have "wrap_fields ws = Inr (rlp_lst (rlp_str ?e))"
    using assms by (intro wrap_fields_enc) (simp_all del: length_concat)
  ultimately show ?thesis by blast
qed

lemma msg_encode_ok:
  assumes "idx m < 2 ^ 16"
  shows "\<exists>d. PBFTMsg_encode m = Inr d \<and> length d < 2 ^ 59"
proof -
  note ok = PBFTMsg_items_ok(2,3) [OF assms]
  have "x + 18 < 2 ^ 59" if "x < 2 ^ 12" for x :: nat using that by simp
  from ok(2) this [OF ok(1)] show ?thesis unfolding PBFTMsg_encode_def by (rule wrap_fields_len) simp
qed

lemma prepare_encode_ok:
  assumes "idx m < 2 ^ 16" "length (block m) < 2 ^ 58"
  shows "\<exists>d. PrepareReq_encode m = Inr d \<and> length d < 2 ^ 59"
proof -
  have ok: "rlp_size_ok (length (block m))" using assms(2) by (simp add: rlp_size_ok_def)
  have "list_all2 (writes (\<lambda>w. w)) (PBFTMsg_fields m @ [append_data (block m)])
      (PBFTMsg_items m @ [rlp_str (block m)])"
    using PBFTMsg_items_ok(3) [OF assms(1)] writes_data [OF ok] by (intro list_all2_appendI) simp_all
  moreover have "length (concat (PBFTMsg_items m @ [rlp_str (block m)])) + 18 < 2 ^ 59"
    using PBFTMsg_items_ok(2) [OF assms(1)] length_rlp_str_le [OF ok] assms(2) by (simp del: length_concat)
  ultimately show ?thesis unfolding PrepareReq_encode_def by (rule wrap_fields_len) simp
qed

lemma transData_ok:
  assumes "length d < 2 ^ 59" "t < 256" "ttl0 = 0 \<longrightarrow> maxTTL s < 256"
  shows "\<exists>msg. transDataToMessage env s d t ttl0 = Inr msg"
proof -
  let ?p = "(PBFTMsgPacket_new (env_now env))\<lparr>pkt_data := d, packet_id := u8 (int t),
    ttl := (if ttl0 = 0 then maxTTL s else u8 (int ttl0))\<rparr>"
  let ?es = "[enc_int (packet_id ?p), enc_int (ttl ?p), rlp_str d]"
  have n: "packet_id ?p < 2 ^ 32" "ttl ?p < 2 ^ 32"
    using assms(3) u8_bound [of "int t"] u8_bound [of "int ttl0"] by (auto simp del: u8_bound)
  note n = n [THEN bytesRequired_u32]
  have ok: "rlp_size_ok (length d)" using assms(1) by (simp add: rlp_size_ok_def)
  have "list_all2 (writes (\<lambda>w. w)) [append_unsigned (packet_id ?p), append_unsigned (ttl ?p), append_data d] ?es"
    using n writes_data [OF ok] by (simp add: writes_unsigned)
  moreover have "length (concat ?es) + 18 < 2 ^ 60"
    using length_rlp_str_le [OF ok] length_enc_int [OF n(1)] length_enc_int [OF n(2)] assms(1) by simp
  ultimately have "\<exists>e. PBFTMsgPacket_encode ?p = Inr e \<and> length e < 2 ^ 60"
    unfolding PBFTMsgPacket_encode_def using wrap_fields_len [of _ ?es "2 ^ 60"] by simp
  then show ?thesis by (auto simp: transDataToMessage_def pbft_rlp_def)
qed

definition receivers :: "PBFTEngine \<Rightarrow> h512 list \<Rightarrow> h512 list \<Rightarrow> h512 set" where
  "receivers s f ns = (set ns \<inter> set (m_sealers s)) - set f"

lemma broadcast_loop_run:
  "\<exists>l bc. broadcast_loop t k f ns acc s = (Inr l, s\<lparr>m_broadCastCache := bc\<rparr>) \<and> set l \<subseteq> set acc \<union> receivers s f ns"
proof (induction ns arbitrary: acc s)
  case Nil
  have "s = s\<lparr>m_broadCastCache := m_broadCastCache s\<rparr>" by simp
  then show ?case unfolding broadcast_loop.simps e_ret_def by blast
next
  case (Cons n ns)
  have mark: "\<exists>bc. broadcastMark n t k s = (Inr (), s\<lparr>m_broadCastCache := bc\<rparr>)"
    by (rule exI [of _ "if broadcastFilter s n t k then m_broadCastCache s else snd (insertKey n t k (m_broadCastCache s))"])
       (simp add: broadcastMark_def eff_run)
  then obtain bc where bc: "broadcastMark n t k s = (Inr (), s\<lparr>m_broadCastCache := bc\<rparr>)" ..
  have rest: "\<exists>l bc'. broadcast_loop t k f ns acc' (s\<lparr>m_broadCastCache := b'\<rparr>) = (Inr l, s\<lparr>m_broadCastCache := bc'\<rparr>) \<and>
      set l \<subseteq> set acc' \<union> receivers s f ns" for acc' b'
    using Cons.IH [of acc' "s\<lparr>m_broadCastCache := b'\<rparr>"] by (simp add: receivers_def)
  have mono: "receivers s f ns \<subseteq> receivers s f (n # ns)" by (auto simp: receivers_def)
  consider (skip) "getIndexBySealer s n < 0 \<or> (n \<notin> set f \<and> broadcastFilter s n t k)"
    | (filtered) "\<not> getIndexBySealer s n < 0" "n \<in> set f"
    | (send) "\<not> getIndexBySealer s n < 0" "n \<notin> set f" "\<not> broadcastFilter s n t k" by blast
  then show ?case
  proof cases
    case skip
    then have "broadcast_loop t k f (n # ns) acc s = broadcast_loop t k f ns acc (s\<lparr>m_broadCastCache := m_broadCastCache s\<rparr>)"
      by (auto simp: e_on_def)
    then show ?thesis using rest [of acc "m_broadCastCache s"] mono by (metis (no_types, lifting) Un_mono order_refl subset_trans)
  next
    case filtered
    then have "broadcast_loop t k f (n # ns) acc s = broadcast_loop t k f ns acc (s\<lparr>m_broadCastCache := bc\<rparr>)"
      by (simp add: e_on_def e_seq_def e_bind_def bc)
    then show ?thesis using rest [of acc bc] mono by (metis (no_types, lifting) Un_mono order_refl subset_trans)
  next
    case send
    then have "broadcast_loop t k f (n # ns) acc s = broadcast_loop t k f ns (acc @ [n]) (s\<lparr>m_broadCastCache := bc\<rparr>)"
      by (simp add: e_on_def e_seq_def e_bind_def bc)
    moreover have "set (acc @ [n]) \<union> receivers s f ns \<subseteq> set acc \<union> receivers s f (n # ns)"
      using send by (auto simp: receivers_def getIndexBySealer_def sealer_index_neg)
    ultimately show ?thesis using rest [of "acc @ [n]" bc] by (metis (no_types, lifting) subset_trans)
  qed
qed

lemma broadcastMsg_sent:
  assumes "length d < 2 ^ 59" "t < 256" "ttl0 = 0 \<longrightarrow> maxTTL s < 256"
  shows "\<exists>bc n l msg. broadcastMsg env t k d f ttl0 s = (Inr True,
    s\<lparr>m_broadCastCache := bc, m_connectedNode := n, m_events := m_events s @ [AsyncMulticast l msg]\<rparr>) \<and>
    transDataToMessage env s d t ttl0 = Inr msg \<and> set l \<subseteq> receivers s f (env_sessions env)"
proof -
  let ?s = "s\<lparr>m_connectedNode := u16 (int (length (env_sessions env)))\<rparr>"
  obtain l bc where loop: "broadcast_loop t k f (env_sessions env) [] ?s = (Inr l, ?s\<lparr>m_broadCastCache := bc\<rparr>)"
    "set l \<subseteq> receivers s f (env_sessions env)"
    using broadcast_loop_run [of t k f "env_sessions env" "[]" ?s] by (auto simp: receivers_def)
  obtain msg where msg: "transDataToMessage env (?s\<lparr>m_broadCastCache := bc\<rparr>) d t ttl0 = Inr msg"
    using transData_ok [OF assms(1,2), of ttl0 "?s\<lparr>m_broadCastCache := bc\<rparr>"] assms(3) by auto
  then have "broadcastMsg env t k d f ttl0 s = (Inr True, s\<lparr>m_broadCastCache := bc,
      m_connectedNode := u16 (int (length (env_sessions env))), m_events := m_events s @ [AsyncMulticast l msg]\<rparr>)"
    by (simp add: broadcastMsg_def eff_run loop)
  moreover have "transDataToMessage env s d t ttl0 = Inr msg" using msg by (simp add: transDataToMessage_def split: if_splits)
  ultimately show ?thesis using loop(2) by blast
qed

lemma broadcastMsg_run:
  assumes "length d < 2 ^ 59" "t < 256" "ttl0 = 0 \<longrightarrow> maxTTL s < 256"
  shows "\<exists>bc n l msg. broadcastMsg env t k d f ttl0 s = (Inr True,
    s\<lparr>m_broadCastCache := bc, m_connectedNode := n, m_events := m_events s @ [AsyncMulticast l msg]\<rparr>)"
  using broadcastMsg_sent [OF assms, of env k f] by blast

lemma broadcastSignReq_run:
  assumes "m_idx s < 2 ^ 16" "maxTTL s < 256"
  shows "\<exists>bc n l msg. broadcastSignReq env p s = (Inr True,
    s\<lparr>m_broadCastCache := bc, m_connectedNode := n, m_events := m_events s @ [AsyncMulticast l msg],
      m_reqCache := addSignReq (SignReq_make (env_crypto env) (env_now env) p (m_keyPair s) (m_idx s)) (m_reqCache s)\<rparr>)"
proof -
  let ?m = "SignReq_make (env_crypto env) (env_now env) p (m_keyPair s) (m_idx s)"
  have "idx ?m < 2 ^ 16" using assms(1) by (simp add: SignReq_make_def PBFTMsg_make_def signed_def)
  then obtain d where d: "PBFTMsg_encode ?m = Inr d" "length d < 2 ^ 59" using msg_encode_ok by blast
  obtain bc n l msg where "broadcastMsg env SignReqPacket (uniqueKey ?m) d [] 0 s = (Inr True,
      s\<lparr>m_broadCastCache := bc, m_connectedNode := n, m_events := m_events s @ [AsyncMulticast l msg]\<rparr>)"
    using broadcastMsg_run [OF d(2), of SignReqPacket 0 s env "uniqueKey ?m" "[]"] assms(2) by (auto simp: SignReqPacket_def)
  then show ?thesis by (auto simp: broadcastSignReq_def Let_def eff_run d(1) pbft_rlp_def)
qed

lemma broadcastCommitReq_run:
  assumes "m_idx s < 2 ^ 16" "maxTTL s < 256"
  shows "\<exists>bc n l msg. broadcastCommitReq env p s = (Inr True,
    s\<lparr>m_broadCastCache := bc, m_connectedNode := n, m_events := m_events s @ [AsyncMulticast l msg],
      m_reqCache := addCommitReq (CommitReq_make (env_crypto env) (env_now env) p (m_keyPair s) (m_idx s)) (m_reqCache s)\<rparr>)"
proof -
  let ?m = "CommitReq_make (env_crypto env) (env_now env) p (m_keyPair s) (m_idx s)"
  have "idx ?m < 2 ^ 16" using assms(1) by (simp add: CommitReq_make_def PBFTMsg_make_def signed_def)
  then obtain d where d: "PBFTMsg_encode ?m = Inr d" "length d < 2 ^ 59" using msg_encode_ok by blast
  obtain bc n l msg where "broadcastMsg env CommitReqPacket (uniqueKey ?m) d [] 0 s = (Inr True,
      s\<lparr>m_broadCastCache := bc, m_connectedNode := n, m_events := m_events s @ [AsyncMulticast l msg]\<rparr>)"
    using broadcastMsg_run [OF d(2), of CommitReqPacket 0 s env "uniqueKey ?m" "[]"] assms(2) by (auto simp: CommitReqPacket_def)
  then show ?thesis by (auto simp: broadcastCommitReq_def Let_def eff_run d(1) pbft_rlp_def)
qed

lemma backupMsg_run:
  assumes "idx m < 2 ^ 16" "length (block m) < 2 ^ 58" "m_backupDB s = None \<or> db_insert_ok env"
  shows "\<exists>db. backupMsg env k m s = (Inr (), s\<lparr>m_backupDB := db\<rparr>)"
proof (cases "m_backupDB s")
  case None
  then have "s = s\<lparr>m_backupDB := None\<rparr>" by simp
  with None show ?thesis unfolding backupMsg_def e_on_def by (metis e_ret_def option.simps(4))
next
  case (Some db)
  obtain d where "PrepareReq_encode m = Inr d" using prepare_encode_ok [OF assms(1,2)] by blast
  with Some assms(3) show ?thesis by (auto simp: backupMsg_def eff_run pbft_rlp_def)
qed

section \<open>From the sign requests to the commit\<close>

lemma new_events_mono: "length (m_events s) \<le> length (m_events u) \<Longrightarrow> set (new_events u t) \<subseteq> set (new_events s t)"
  unfolding new_events_def by (rule set_drop_subset_set_drop)

lemma checkAndCommit_commits:
  fixes s env
  defines "c \<equiv> m_reqCache s"
  defines "p \<equiv> m_prepareCache c"
  defines "m \<equiv> CommitReq_make (env_crypto env) (env_now env) p (m_keyPair s) (m_idx s)"
  assumes "m_idx s < 2 ^ 16" "maxTTL s < 256" "m_backupDB s = None \<or> db_insert_ok env"
    and "idx (m_rawPrepareCache c) < 2 ^ 16" "length (block (m_rawPrepareCache c)) < 2 ^ 58"
    and size: "getSigCacheSize c (block_hash p) = minValidNodes s" "view p = m_view s"
    and "minValidNodes s \<le> getCommitCacheSize (addCommitReq m c) (block_hash p)"
    and "m_number (m_highestBlock s) < height p" "pBlock p = Some b"
  shows "CommitBlock (snd (generateAndSetSigList (addCommitReq m c) b (minValidNodes s))) (p_execContext p)
    \<in> set (new_events s (snd (checkAndCommit env s)))"
proof -
  let ?s1 = "s\<lparr>m_reqCache := updateCommittedPrepare c\<rparr>"
  obtain db where backup: "backupMsg env c_backupKeyCommitted (m_committedPrepareCache (m_reqCache ?s1)) ?s1 =
      (Inr (), ?s1\<lparr>m_backupDB := db\<rparr>)"
    using backupMsg_run [of "m_committedPrepareCache (m_reqCache ?s1)" ?s1 env] assms(6-8)
    by (auto simp: updateCommittedPrepare_def)
  let ?s2 = "?s1\<lparr>m_backupDB := db\<rparr>"
  have p: "m_prepareCache (m_reqCache ?s2) = p" by (simp add: updateCommittedPrepare_def p_def)
  obtain bc n l msg where commit: "broadcastCommitReq env p ?s2 = (Inr True,
      ?s2\<lparr>m_broadCastCache := bc, m_connectedNode := n, m_events := m_events ?s2 @ [AsyncMulticast l msg],
        m_reqCache := addCommitReq m (m_reqCache ?s2)\<rparr>)"
    using broadcastCommitReq_run [of ?s2 env p] assms(4,5) by (auto simp: m_def)
  let ?u = "?s2\<lparr>m_broadCastCache := bc, m_connectedNode := n, m_events := m_events ?s2 @ [AsyncMulticast l msg],
        m_reqCache := addCommitReq m (m_reqCache ?s2), m_timeManager := (m_timeManager s)\<lparr>m_lastSignTime := env_now env\<rparr>\<rparr>"
  have run: "snd (checkAndCommit env s) = snd (checkAndSave env ?u)"
    using size backup commit p
    by (simp add: checkAndCommit_def Let_def eff_run c_def p_def split: prod.splits sum.splits)
  have same: "m_reqCache ?u = (addCommitReq m c)\<lparr>m_committedPrepareCache := m_rawPrepareCache c\<rparr>"
    by (simp add: addCommitReq_def updateCommittedPrepare_def)
  have "CommitBlock (snd (generateAndSetSigList (addCommitReq m c) b (minValidNodes s))) (p_execContext p)
      \<in> set (new_events ?u (snd (checkAndSave env ?u)))"
    unfolding checkAndSave_commit Let_def same
    using assms by (simp add: addCommitReq_def getSigCacheSize_def getCommitCacheSize_def minValidNodes_def
        generateAndSetSigList_def)
  then show ?thesis
    unfolding run using new_events_mono [of s ?u] by auto
qed

text \<open>A vote of this node on a hash that has no votes yet gives a table with that vote alone.\<close>

lemma removeInvalidView_none: "um_find cache h = None \<Longrightarrow> um_find (removeInvalidView h v cache) h = None"
  by (simp add: removeInvalidView_def)

lemma addReq_first:
  "um_find cache (block_hash m) = None \<Longrightarrow> um_find (addReq m cache) (block_hash m) = Some [(hash_hex (sig m), m)]"
proof -
  assume "um_find cache (block_hash m) = None"
  then show ?thesis by (simp add: addReq_def um_find_set_eq) (simp add: um_set_def)
qed

lemma signPrepared_commits:
  fixes s env w req
  defines "h \<equiv> BlockHeader_hash (env_crypto env) (m_blockHeader (s_block w))"
  assumes "m_idx s < 2 ^ 16" "maxTTL s < 256" "m_backupDB s = None \<or> db_insert_ok env"
    and "idx (m_rawPrepareCache (m_reqCache s)) < 2 ^ 16" "length (block (m_rawPrepareCache (m_reqCache s))) < 2 ^ 58"
    and "minValidNodes s = 1" "\<not> needOmit s w"
    and "um_find (m_signCache (m_reqCache s)) h = None" "um_find (m_commitCache (m_reqCache s)) h = None"
    and "view req = m_view s" "m_number (m_highestBlock s) < height req"
  shows "CommitBlock ((s_block w)\<lparr>m_sigList := [(word_of_nat (m_idx s), signHash (env_crypto env) h (m_keyPair s))]\<rparr>)
      (s_execContext w) \<in> set (new_events s (snd (signPrepared env req (Some w) s)))"
proof -
  let ?p = "PrepareReq_of_sealing (env_crypto env) (env_now env) req w (m_keyPair s)"
  let ?s1 = "s\<lparr>m_reqCache := addPrepareReq ?p (m_reqCache s)\<rparr>"
  let ?g = "SignReq_make (env_crypto env) (env_now env) ?p (m_keyPair s) (m_idx s)"
  obtain bc n l msg where run: "broadcastSignReq env ?p ?s1 = (Inr True,
      ?s1\<lparr>m_broadCastCache := bc, m_connectedNode := n, m_events := m_events ?s1 @ [AsyncMulticast l msg],
        m_reqCache := addSignReq ?g (m_reqCache ?s1)\<rparr>)" (is "_ = (_, ?u)")
    using broadcastSignReq_run [of ?s1 env ?p] assms by auto
  have p: "view ?p = m_view s" "height ?p = height req" "block_hash ?p = h" "pBlock ?p = Some (s_block w)"
    "p_execContext ?p = s_execContext w" "block_hash ?g = h"
    using assms by (simp_all add: PrepareReq_of_sealing_def signed_def SignReq_make_def PBFTMsg_make_def)
  let ?c = "m_reqCache ?u"
  let ?m = "CommitReq_make (env_crypto env) (env_now env) ?p (m_keyPair s) (m_idx s)"
  have m: "block_hash ?m = h" "idx ?m = m_idx s" "sig ?m = signHash (env_crypto env) h (m_keyPair s)"
    using p by (simp_all add: CommitReq_make_def PBFTMsg_make_def signed_def)
  have prep: "m_prepareCache ?c = ?p" "m_rawPrepareCache ?c = m_rawPrepareCache (m_reqCache s)"
    by (simp_all add: addSignReq_def addPrepareReq_def removeInvalidSignCache_def removeInvalidCommitCache_def)
  have sign: "um_find (m_signCache ?c) h = Some [(hash_hex (sig ?g), ?g)]"
    using addReq_first [of _ ?g] assms(9) removeInvalidView_none p(3,6)
    by (simp add: addSignReq_def addPrepareReq_def removeInvalidSignCache_def removeInvalidCommitCache_def)
  have commit: "um_find (m_commitCache (addCommitReq ?m ?c)) h = Some [(hash_hex (sig ?m), ?m)]"
    using addReq_first [of _ ?m] assms(10) removeInvalidView_none p(3) m(1)
    by (simp add: addCommitReq_def addSignReq_def addPrepareReq_def removeInvalidSignCache_def removeInvalidCommitCache_def)
  have sigs: "snd (generateAndSetSigList (addCommitReq ?m ?c) (s_block w) 1) =
      (s_block w)\<lparr>m_sigList := [(word_of_nat (m_idx s), signHash (env_crypto env) h (m_keyPair s))]\<rparr>"
    using commit p(3) m prep by (simp add: generateAndSetSigList_def addCommitReq_def)
  have "minValidNodes ?u = 1" using assms by (simp add: minValidNodes_def)
  then have "CommitBlock (snd (generateAndSetSigList (addCommitReq ?m ?c) (s_block w) 1)) (s_execContext w)
      \<in> set (new_events ?u (snd (checkAndCommit env ?u)))" (is "?e \<in> _")
    using checkAndCommit_commits [of ?u env "s_block w"] assms sign commit prep p
    by (simp add: getSigCacheSize_def getCommitCacheSize_def getSizeFromCache_def)
  moreover have "snd (signPrepared env req (Some w) s) = snd (checkAndCommit env ?u)"
    using assms(8) run by (simp add: signPrepared_def Let_def eff_run split: prod.splits sum.splits)
  ultimately have "?e \<in> set (new_events s (snd (signPrepared env req (Some w) s)))"
    using new_events_mono [of s ?u "snd (checkAndCommit env ?u)"] by auto
  then show ?thesis unfolding sigs .
qed

section \<open>A proposal of the only sealer\<close>

text \<open>The node is the only sealer, its leader is not suspected, and the height it works on is free: no
proposal for this block is being handled, no other block of this height is locked.\<close>

definition lone_sealer :: "PBFTEngine \<Rightarrow> bool" where
  "lone_sealer s \<longleftrightarrow> config_ok s \<and> m_sealers s = [kp_pub (m_keyPair s)] \<and> kp_pub (m_keyPair s) \<noteq> 0 \<and>
     \<not> m_leaderFailed s \<and> m_sealer (m_highestBlock s) \<noteq> Invalid256 \<and>
     m_number (m_highestBlock s) < m_consensusBlockNumber s \<and>
     height (m_committedPrepareCache (m_reqCache s)) \<noteq> m_consensusBlockNumber s"

definition proposable :: "node_env \<Rightarrow> PBFTEngine \<Rightarrow> Block \<Rightarrow> bool" where
  "proposable env s b \<longleftrightarrow> m_number (m_blockHeader b) = m_consensusBlockNumber s \<and>
     (getTransactionSize b \<noteq> 0 \<or> \<not> m_omitEmptyBlock s) \<and> checkBlockValid env s b = Inr () \<and>
     block_hash (m_rawPrepareCache (m_reqCache s)) \<noteq> BlockHeader_hash (env_crypto env) (m_blockHeader b)"

lemma lone_sealer_config:
  assumes "lone_sealer s"
  shows "m_nodeNum s = 1" "m_idx s = 0" "m_cfgErr s = False" "minValidNodes s = 1" "getLeader s = (True, 0)"
    "getNodeIDByIndex s 0 = Some (kp_pub (m_keyPair s))"
proof -
  have ok: "config_ok s" "m_sealers s = [kp_pub (m_keyPair s)]"
    using assms by (auto simp: lone_sealer_def)
  then show n: "m_nodeNum s = 1" by (simp add: config_ok_def u16_def)
  show i: "m_idx s = 0"
    using ok n by (simp add: config_ok_def own_idx_def getIndexBySealer_def u16_def Let_def)
  then show c: "m_cfgErr s = False" using ok n by (simp add: config_ok_def MAXIDX_def)
  show "minValidNodes s = 1" using ok n by (simp add: minValidNodes_def config_ok_def u16_def)
  show "getLeader s = (True, 0)"
    using assms n c by (simp add: getLeader_def lone_sealer_def u16_def c_rem_def)
  show "getNodeIDByIndex s 0 = Some (kp_pub (m_keyPair s))"
    using assms by (simp add: lone_sealer_def getNodeIDByIndex_def getSealerByIndex_def Let_def)
qed

lemma cal_roots_frame:
  "calTransactionRoot cr rc2 False b = Inr b' \<Longrightarrow> m_blockHeader b' = m_blockHeader b \<and> m_transactions b' = m_transactions b"
  "calReceiptRoot cr rc2 False b = Inr b' \<Longrightarrow> m_blockHeader b' = m_blockHeader b \<and> m_transactions b' = m_transactions b"
  by (auto simp: calTransactionRoot_def calTransactionRootRC2_def calReceiptRoot_def calReceiptRootRC2_def
      set_roots_if_def res_bind_def split: if_splits sum.splits)

lemma Block_encode_frame:
  "Block_encode cr rc2 b = Inr (enc, b') \<Longrightarrow> m_blockHeader b' = m_blockHeader b \<and> m_transactions b' = m_transactions b"
  by (auto simp: Block_encode_def res_bind_def split: sum.splits dest!: cal_roots_frame)

lemma snd_seq_ret: "snd (e_seq m (e_ret x) s) = snd (m s)"
  by (simp add: e_seq_def e_bind_def e_ret_def split: prod.splits sum.splits)

lemma lone_isValidPrepare:
  assumes lone: "lone_sealer s" and law: "\<forall>h. verify (env_crypto env) (kp_pub (m_keyPair s)) (signHash (env_crypto env) h (m_keyPair s)) h"
    and "\<not> sync_isSyncing env" and new: "proposable env s b"
    and made: "PrepareReq_of_block (env_crypto env) (env_rc2 env) now b (m_keyPair s) (m_view s) (m_idx s) = Inr req"
  shows "isValidPrepare env req s = (Inr VALID, s)"
proof -
  have req: "height req = m_consensusBlockNumber s" "view req = m_view s" "idx req = 0"
    "block_hash req = BlockHeader_hash (env_crypto env) (m_blockHeader b)"
    "sig req = signHash (env_crypto env) (block_hash req) (m_keyPair s)"
    "sig2 req = signHash (env_crypto env) (fieldsWithoutBlock (env_crypto env) req) (m_keyPair s)"
    using made new lone_sealer_config(2) [OF lone]
    by (auto simp: PrepareReq_of_block_def res_bind_def signed_def proposable_def fieldsWithoutBlock_def split: sum.splits)
  then have "checkSign env s req"
    using law lone_sealer_config(6) [OF lone] by (simp add: checkSign_def)
  then show ?thesis
    using req assms(3) new lone lone_sealer_config(5) [OF lone]
    by (simp add: isValidPrepare_def eff_run isExistPrepare_def proposable_def isSyncingHigherBlock_def
        hasConsensused_def isFuturePrepare_def isValidLeader_def isHashSavedAfterCommit_def lone_sealer_def)
qed

lemma checkBlockValid_cong:
  assumes "m_maxBlockTransactions t = m_maxBlockTransactions s" "m_allowFutureBlocks t = m_allowFutureBlocks s"
    and "m_sealers t = m_sealers s" "m_blockHeader b' = m_blockHeader b" "m_transactions b' = m_transactions b"
  shows "checkBlockValid env t b' = checkBlockValid env s b"
  unfolding checkBlockValid_def checkBlockValid_base_def checkSealerList_def getTransactionSize_def assms ..

lemma execBlock_run:
  assumes "pBlock req = Some b" "idx req = m_idx s" "getTransactionSize b \<noteq> 0 \<or> \<not> m_omitEmptyBlock s"
    and "checkBlockValid env s b = Inr ()" "pool_verifyAndSetSenderForBlock env b = Inr b1"
    and "executeBlock env b1 = Inr (b2, ctx)"
  shows "e_catch (execBlock env req) s = (Inr (Some (Sealing_new\<lparr>s_block := b2, s_execContext := ctx\<rparr>)),
    s\<lparr>m_sealingNumber := getTransactionSize b,
      m_events := m_events s @ [NoteSealingBlockNumber (m_number (m_blockHeader b))]\<rparr>)"
proof -
  have "checkBlockValid env (s\<lparr>m_sealingNumber := getTransactionSize b\<rparr>) b = Inr ()"
    using assms(4) checkBlockValid_cong [of "s\<lparr>m_sealingNumber := getTransactionSize b\<rparr>" s b b env] by simp
  then show ?thesis
    using assms by (auto simp: e_catch_def execBlock_def eff_run e_try_def)
qed

section \<open>Properties\<close>

text \<open>C7: A chain with one sealer makes progress. When the sealer's engine is idle at the height it works on
and the block it is handed passes the checks of the engine, the transaction pool and the executor, then a call
of \<open>generatePrepare\<close> runs the whole protocol, the proposal, the check of the node's own proposal,
the execution, the sign vote, the lock and the commit vote, and hands the executed block to the block chain,
with the node's signature of the executed header as its only certificate. The relied-on behaviour of the
signature library is that a signature of the node verifies under its public key.\<close>

theorem lone_sealer_commits:
  fixes env s
  defines "cr \<equiv> env_crypto env" and "kp \<equiv> m_keyPair s"
  assumes lone: "lone_sealer s" and new: "proposable env s b"
    and enc: "Block_encode cr (env_rc2 env) b = Inr (enc, b')" "length enc < 2 ^ 58"
    and law: "\<forall>h. verify cr (kp_pub kp) (signHash cr h kp) h"
    and env: "\<not> sync_isSyncing env" "maxTTL s < 256" "m_backupDB s = None \<or> db_insert_ok env"
    and run: "pool_verifyAndSetSenderForBlock env b' = Inr b1" "executeBlock env b1 = Inr (b2, ctx)"
      "getTransactionSize b2 \<noteq> 0 \<or> \<not> m_omitEmptyBlock s"
    and fresh: "um_find (m_signCache (m_reqCache s)) (BlockHeader_hash cr (m_blockHeader b2)) = None"
      "um_find (m_commitCache (m_reqCache s)) (BlockHeader_hash cr (m_blockHeader b2)) = None"
  shows "CommitBlock (b2\<lparr>m_sigList := [(0, signHash cr (BlockHeader_hash cr (m_blockHeader b2)) kp)]\<rparr>) ctx
    \<in> set (new_events s (snd (generatePrepare env b s)))"
proof -
  note cfg = lone_sealer_config [OF lone]
  obtain req where req: "PrepareReq_of_block cr (env_rc2 env) (env_now env) b kp (m_view s) (m_idx s) = Inr req"
    "block req = enc" "pBlock req = Some b'" "idx req = 0" "view req = m_view s" "height req = m_consensusBlockNumber s"
    using enc(1) new cfg(2) by (simp add: PrepareReq_of_block_def signed_def proposable_def)
  obtain d where d: "PrepareReq_encode req = Inr d" "length d < 2 ^ 59"
    using prepare_encode_ok [of req] req enc(2) by auto
  let ?s0 = "s\<lparr>m_notifyNextLeaderSeal := False\<rparr>"
  obtain bc n l msg where sent: "broadcastMsg env PrepareReqPacket (uniqueKey req) d [] 0 ?s0 = (Inr True,
      ?s0\<lparr>m_broadCastCache := bc, m_connectedNode := n, m_events := m_events ?s0 @ [AsyncMulticast l msg]\<rparr>)"
    (is "_ = (_, ?s1)")
    using broadcastMsg_run [OF d(2), of PrepareReqPacket 0 ?s0 env "uniqueKey req" "[]"] env(2)
    by (auto simp: PrepareReqPacket_def)
  have "checkBlockValid env ?s1 b = checkBlockValid env s b" by (rule checkBlockValid_cong) simp_all
  then have lone1: "lone_sealer ?s1" "proposable env ?s1 b"
    using lone new by (simp_all add: lone_sealer_def config_ok_def own_idx_def getIndexBySealer_def proposable_def)
  have valid: "isValidPrepare env req ?s1 = (Inr VALID, ?s1)"
    using lone_isValidPrepare [OF lone1(1) _ env(1) lone1(2), of "env_now env" req] law req(1)
    by (simp add: cr_def kp_def)
  let ?s2 = "?s1\<lparr>m_viewMap := um_set (idx req) (view req) (m_viewMap s), m_reqCache := addRawPrepare req (m_reqCache s)\<rparr>"
  have same: "m_blockHeader b' = m_blockHeader b" "m_transactions b' = m_transactions b"
    using Block_encode_frame [OF enc(1)] by auto
  have "checkBlockValid env ?s2 b' = checkBlockValid env s b" by (rule checkBlockValid_cong) (simp_all add: same)
  then have exec: "e_catch (execBlock env req) ?s2 = (Inr (Some (Sealing_new\<lparr>s_block := b2, s_execContext := ctx\<rparr>)),
      ?s2\<lparr>m_sealingNumber := getTransactionSize b',
        m_events := m_events ?s2 @ [NoteSealingBlockNumber (m_number (m_blockHeader b'))]\<rparr>)" (is "_ = (Inr (Some ?w), ?s3)")
    using execBlock_run [OF req(3) _ _ _ run(1,2), of ?s2] req(4) cfg(2) new same(2)
    by (simp add: proposable_def getTransactionSize_def)
  have min: "minValidNodes ?s3 = 1" using cfg(4) by (simp add: minValidNodes_def)
  have "CommitBlock (b2\<lparr>m_sigList := [(0, signHash cr (BlockHeader_hash cr (m_blockHeader b2)) kp)]\<rparr>) ctx
      \<in> set (new_events ?s3 (snd (signPrepared env req (Some ?w) ?s3)))"
    using signPrepared_commits [of ?s3 env ?w req] min env run(3) fresh req enc(2) cfg(2) lone
    by (simp add: addRawPrepare_def needOmit_def cr_def kp_def lone_sealer_def)
  moreover have "snd (generatePrepare env b s) = snd (signPrepared env req (Some ?w) ?s3)"
  proof -
    have "snd (handlePrepareMsg env req ?s1) = snd (signPrepared env req (Some ?w) ?s3)"
      using valid exec by (simp add: handlePrepareMsg_def updateViewMap_def eff_run)
    moreover have "snd (generatePrepare env b s) = snd (e_seq (handlePrepareMsg env req) (e_ret True) ?s1)"
    proof -
      have "\<not> (getTransactionSize b = 0 \<and> m_omitEmptyBlock s)" using new by (auto simp: proposable_def)
      then show ?thesis
        using req(1) d(1) sent unfolding generatePrepare_def e_seq_def [of "e_mod _"]
        by (auto simp: e_mod_def e_on_def e_bind_def e_lift_def cr_def kp_def pbft_eth_def pbft_rlp_def)
    qed
    ultimately show ?thesis by (simp add: snd_seq_ret)
  qed
  ultimately show ?thesis using new_events_mono [of s ?s3] by auto
qed

text \<open>A proposal without transactions, on a chain that does not omit empty blocks.\<close>

definition lone_env :: node_env where
  "lone_env = demo_env\<lparr>chain_number := 0\<rparr>"

definition lone_engine :: PBFTEngine where
  "lone_engine = demo_engine\<lparr>m_highestBlock := BlockHeader_new\<lparr>m_sealer := 0, m_number := 0\<rparr>,
     m_consensusBlockNumber := 1, m_omitEmptyBlock := False\<rparr>"

definition lone_block :: Block where
  "lone_block = Block_new\<lparr>m_blockHeader := demo_header\<rparr>"

lemma demo_header_length: "length (rlp_lst (concat (BlockHeader_items demo_header))) \<le> 1009"
proof -
  have vec: "length (enc_vec f []) \<le> 9" for f :: "'z \<Rightarrow> bytes"
    using length_rlp_lst_le [of "[]"] by (simp add: enc_vec_def rlp_size_ok_def)
  have "length (concat (map enc_hash [7 :: h512])) \<le> 73" using length_concat_hash [of "[7]"] by simp
  then have seal: "length (enc_vec enc_hash [7 :: h512]) \<le> 82"
    using length_rlp_lst_le [of "concat (map enc_hash [7 :: h512])"] by (simp add: enc_vec_def rlp_size_ok_def)
  have int: "length (enc_int (unat x)) \<le> 41" for x :: u256 by (simp add: length_enc_int bytesRequired_u256)
  have "length (concat (BlockHeader_items demo_header)) \<le> 1000"
    using length_enc_hash [of "0 :: h256"] length_enc_hash [of "0 :: 2048 word"] int [of 0] int [of 1] int [of 18446744073709551615] vec [of rlp_str] seal
    by (simp add: BlockHeader_items_def demo_header_def BlockHeader_new_def)
  then show ?thesis
    using length_rlp_lst_le [of "concat (BlockHeader_items demo_header)"] by (simp add: rlp_size_ok_def del: length_concat)
qed

lemma demo_header_hash: "BlockHeader_hash demo_crypto demo_header \<noteq> 0"
proof -
  let ?e = "rlp_lst (concat (BlockHeader_items demo_header))"
  have "BlockHeader_encode demo_header = Inr ?e"
    by (rule BlockHeader_encode_items) (simp add: BlockHeader_wire_def demo_header_def BlockHeader_new_def)
  moreover have "(word_of_nat (length ?e) :: h256) \<noteq> 0"
  proof -
    have "0 < length ?e" by (simp add: rlp_lst_def length_rlp_hdr)
    moreover have "length ?e < 2 ^ 256" using demo_header_length by simp
    ultimately show ?thesis by (simp add: word_of_nat_eq_0_iff nat_dvd_not_less del: length_concat)
  qed
  ultimately show ?thesis by (simp add: BlockHeader_hash_def demo_crypto_def)
qed

lemma lone_block_encode:
  "\<exists>enc. Block_encode demo_crypto True lone_block = Inr (enc, cached demo_crypto lone_block) \<and> length enc < 2 ^ 58"
proof -
  have wire: "Block_wire lone_block"
    by (simp add: Block_wire_def lone_block_def Block_new_def BlockHeader_wire_def demo_header_def BlockHeader_new_def)
  have vec: "length (enc_vec f []) \<le> 9" for f :: "'z \<Rightarrow> bytes"
    using length_rlp_lst_le [of "[]"] by (simp add: enc_vec_def rlp_size_ok_def)
  have "length (concat (Block_items demo_crypto lone_block (txs_bytes (m_transactions lone_block)))) \<le> 1100"
    using length_enc_hash [of "BlockHeader_hash demo_crypto demo_header"] vec [of sig_enc] vec [of receipt_enc]
      length_rlp_str_le [of "[]"] demo_header_length
    by (simp add: Block_items_def lone_block_def Block_new_def txs_bytes_def rlp_size_ok_def)
  from this length_rlp_lst_le [of "concat (Block_items demo_crypto lone_block (txs_bytes (m_transactions lone_block)))"]
  have "length (rlp_lst (concat (Block_items demo_crypto lone_block (txs_bytes (m_transactions lone_block))))) < 2 ^ 58"
    by (simp add: rlp_size_ok_def del: length_concat)
  then show ?thesis using Block_encode_items [OF wire] by auto
qed

lemma lone_ready: "lone_sealer lone_engine" "proposable lone_env lone_engine lone_block"
proof -
  have "config_ok (s\<lparr>m_highestBlock := h, m_consensusBlockNumber := n, m_omitEmptyBlock := x\<rparr>) = config_ok s" for s h n x
    by (simp add: config_ok_def own_idx_def getIndexBySealer_def)
  then have "config_ok lone_engine" using demo_configured by (simp add: configured_def engine_ok_def lone_engine_def)
  then show "lone_sealer lone_engine"
    unfolding lone_sealer_def by (simp add: lone_engine_def PBFTReqCache_new_def PrepareReq_new_def Invalid256_def)
  show "proposable lone_env lone_engine lone_block"
    using demo_header_hash
    by (simp add: proposable_def lone_engine_def lone_block_def lone_env_def checkBlockValid_def checkBlockValid_base_def
        checkSealerList_def blockExists_def getTransactionSize_def Block_new_def PBFTReqCache_new_def PrepareReq_new_def
        demo_env_def Let_def)
      (simp add: demo_header_def BlockHeader_new_def)
qed

theorem lone_sealer_commits_witness:
  "\<exists>sg. CommitBlock ((cached demo_crypto lone_block)\<lparr>m_sigList := [(0, sg)]\<rparr>) (Some 1)
    \<in> set (new_events lone_engine (snd (generatePrepare lone_env lone_block lone_engine)))"
proof -
  obtain enc where enc: "Block_encode demo_crypto True lone_block = Inr (enc, cached demo_crypto lone_block)"
    "length enc < 2 ^ 58" using lone_block_encode by blast
  have env: "env_crypto lone_env = demo_crypto" "env_rc2 lone_env = True" by (simp_all add: lone_env_def demo_env_def)
  from lone_sealer_commits [OF lone_ready, unfolded env, OF enc]
  show ?thesis
    by (auto simp: lone_env_def lone_engine_def demo_env_def demo_crypto_def signHash_def executeBlock_def
        MAXTTL_def PBFTReqCache_new_def um_find_def Let_def)
qed

text \<open>C29: Every sealer gets its turn. While the leader is not suspected, the views from the current one on
give each index of the sealer list the lead exactly once in as many views as there are sealers, as long as the
sum of the view and the block number stays below the 64-bit bound.\<close>

theorem leader_rotation:
  assumes "configured s" "fst (getLeader s)" "0 \<le> m_view s" "0 \<le> m_number (m_highestBlock s)"
    and "m_view s + int (m_nodeNum s) + m_number (m_highestBlock s) < 2 ^ 63" "i < m_nodeNum s"
  shows "\<exists>!v. m_view s \<le> v \<and> v < m_view s + int (m_nodeNum s) \<and> getLeader (s\<lparr>m_view := v\<rparr>) = (True, i)"
proof -
  let ?n = "int (m_nodeNum s)" and ?k = "m_number (m_highestBlock s)"
  have turn: "getLeader (s\<lparr>m_view := v\<rparr>) = (True, i) \<longleftrightarrow> (v + ?k) mod ?n = int i"
    if "m_view s \<le> v" "v < m_view s + ?n" for v
  proof -
    have "getLeader (s\<lparr>m_view := v\<rparr>) = (True, nat ((v + ?k) mod ?n))"
      using getLeader_mod [OF assms(2) _ assms(4)] that assms(3,5) minValidNodes_configured(3) [OF assms(1)] by simp
    moreover have "0 \<le> (v + ?k) mod ?n" using assms(6) by simp
    ultimately show ?thesis by auto
  qed
  have "\<exists>!w. m_view s \<le> w \<and> w < m_view s + ?n \<and> (w + ?k) mod ?n = int i"
    using turn_unique [of "int i" ?n "m_view s" ?k] assms(6) by simp
  then show ?thesis using turn by metis
qed

theorem leader_rotation_witness:
  "\<exists>!v. 0 \<le> v \<and> v < 1 \<and> getLeader (demo_engine\<lparr>m_highestBlock := BlockHeader_new\<lparr>m_sealer := 0, m_number := 4\<rparr>, m_view := v\<rparr>) = (True, 0)"
proof -
  let ?s = "demo_engine\<lparr>m_highestBlock := BlockHeader_new\<lparr>m_sealer := 0, m_number := 4\<rparr>\<rparr>"
  have "configured (s\<lparr>m_highestBlock := h\<rparr>) = configured s" for s h
    by (simp add: configured_def engine_ok_def config_ok_def own_idx_def getIndexBySealer_def)
  then have "configured ?s" using demo_configured by simp
  from leader_rotation [OF this, of 0] show ?thesis by (simp add: getLeader_def Invalid256_def)
qed

text \<open>C30: The hop count of a forwarded message. A valid request is sent on at most once per node it reaches:
the forwarded packet carries the request unchanged and a time to live that is one less than that of the packet it
came in, except that a packet with time to live 0, which no honest node sends, is sent on with 255. Neither the
node it came from nor the sealer that made the request is among the receivers, and every receiver is a
connected sealer.\<close>

theorem forward_hop_count:
  assumes "length (pkt_data p) < 2 ^ 59" "packet_id p < 256" "ttl p < 256" "ttl p \<noteq> 1"
    and "m_number (m_highestBlock s) < height m" "uniqueKey m \<noteq> []"
  shows "\<exists>l msg. m_events (snd (forwardMsg env p m s)) = m_events s @ [AsyncMulticast l msg] \<and>
    PBFTMsgPacket_decode msg q = Inr (q\<lparr>packet_id := packet_id p, ttl := (if ttl p = 0 then 255 else ttl p - 1),
      pkt_data := pkt_data p\<rparr>) \<and>
    set l \<subseteq> set (env_sessions env) \<inter> set (m_sealers s) \<and> node_id p \<notin> set l \<and>
    (getSealerByIndex s (idx m) \<noteq> 0 \<longrightarrow> getSealerByIndex s (idx m) \<notin> set l)"
proof -
  let ?g = "getSealerByIndex s (idx m)"
  let ?f = "node_id p # (if ?g \<noteq> 0 then [?g] else [])" and ?t = "u32 (int (ttl p) - 1)"
  have t: "?t \<noteq> 0" "u8 (int ?t) = (if ttl p = 0 then 255 else ttl p - 1)"
    using assms(3,4) by (cases "ttl p"; simp add: u32_def u8_def)+
  obtain bc n l msg where run: "broadcastMsg env (packet_id p) (uniqueKey m) (pkt_data p) ?f ?t s = (Inr True,
      s\<lparr>m_broadCastCache := bc, m_connectedNode := n, m_events := m_events s @ [AsyncMulticast l msg]\<rparr>)"
    "transDataToMessage env s (pkt_data p) (packet_id p) ?t = Inr msg" "set l \<subseteq> receivers s ?f (env_sessions env)"
    using broadcastMsg_sent [OF assms(1,2), of ?t s env "uniqueKey m" ?f] t(1) by auto
  let ?p = "(PBFTMsgPacket_new (env_now env))\<lparr>pkt_data := pkt_data p, packet_id := packet_id p,
    ttl := (if ttl p = 0 then 255 else ttl p - 1)\<rparr>"
  have "PBFTMsgPacket_encode ?p = Inr msg"
    using run(2) t assms(2) by (auto simp: transDataToMessage_def pbft_rlp_def u8_id map_sum_def split: sum.splits)
  then have "PBFTMsgPacket_decode msg q = Inr (q\<lparr>packet_id := packet_id p, ttl := (if ttl p = 0 then 255 else ttl p - 1),
      pkt_data := pkt_data p\<rparr>)"
    using PBFTMsgPacket_decode_encode [of ?p q] assms by (simp add: res_bind_def)
  moreover have "m_events (snd (forwardMsg env p m s)) = m_events s @ [AsyncMulticast l msg]"
    using assms(5,6) run(1) by (simp add: forwardMsg_def e_on_def e_when_def e_bind_def e_ret_def Let_def)
  ultimately show ?thesis using run(3) by (intro exI [of _ l] exI [of _ msg]) (auto simp: receivers_def)
qed

theorem forward_hop_count_witness:
  "\<exists>l msg. m_events (snd (forwardMsg demo_env ((PBFTMsgPacket_new 0)\<lparr>ttl := 0\<rparr>) (PBFTMsg_new\<lparr>height := 5\<rparr>) lone_engine)) =
      m_events lone_engine @ [AsyncMulticast l msg] \<and>
    PBFTMsgPacket_decode msg (PBFTMsgPacket_new 0) = Inr ((PBFTMsgPacket_new 0)\<lparr>ttl := 255\<rparr>)"
proof -
  let ?p = "(PBFTMsgPacket_new 0)\<lparr>ttl := 0\<rparr>" and ?m = "PBFTMsg_new\<lparr>height := 5\<rparr>"
  have p: "length (pkt_data ?p) < 2 ^ 59" "packet_id ?p < 256" "ttl ?p < 256" "ttl ?p \<noteq> 1"
    by (simp_all add: PBFTMsgPacket_new_def)
  have n: "m_number (m_highestBlock lone_engine) < height ?m" by (simp add: lone_engine_def)
  have k: "uniqueKey ?m \<noteq> []"
  proof
    assume "uniqueKey ?m = []"
    then have "length (uniqueKey ?m) = 0" by simp
    then show False by (simp add: uniqueKey_def)
  qed
  have q: "(PBFTMsgPacket_new 0)\<lparr>packet_id := packet_id ?p, ttl := (if ttl ?p = 0 then 255 else ttl ?p - 1),
      pkt_data := pkt_data ?p\<rparr> = (PBFTMsgPacket_new 0)\<lparr>ttl := 255\<rparr>"
    by (simp add: PBFTMsgPacket_new_def)
  show ?thesis
    using forward_hop_count [OF p n k, of demo_env "PBFTMsgPacket_new 0"] unfolding q by blast
qed

end
