(* ===== verification/Tx_Nonce.thy ===== *)
theory Tx_Nonce
  imports Block_Codec Effects
begin

text \<open>
  The nonce checks of the transaction pool: \<open>CommonTransactionNonceCheck\<close>, a set of nonces, and
  \<open>TransactionNonceCheck\<close>, which holds the nonces of the blocks of a sliding window and the limit
  on the block numbers of a transaction. A transaction that was committed cannot enter a later block:
  as long as its block limit lets it in, its nonce is in the window.
\<close>

section \<open>CommonTransactionNonceCheck\<close>

definition generateKey :: "Transaction \<Rightarrow> u256" where
  "generateKey t = m_nonce t"

definition isNonceOk :: "Transaction \<Rightarrow> bool \<Rightarrow> u256 set \<Rightarrow> bool \<times> u256 set" where
  "isNonceOk t needInsert cache =
     (let key = generateKey t in
      if key \<in> cache then (False, cache) else (True, if needInsert then insert key cache else cache))"

definition delCache_key :: "u256 \<Rightarrow> u256 set \<Rightarrow> u256 set" where
  "delCache_key key cache = (if key \<in> cache then cache - {key} else cache)"

definition delCache_txs :: "Transaction list \<Rightarrow> u256 set \<Rightarrow> u256 set" where
  "delCache_txs ts cache =
     (let delList = filter (\<lambda>key. key \<in> cache) (map generateKey ts) in
      if 0 < length delList then fold (\<lambda>key c. c - {key}) delList cache else cache)"

definition insertCache :: "Transaction \<Rightarrow> u256 set \<Rightarrow> u256 set" where
  "insertCache t cache = insert (generateKey t) cache"

section \<open>TransactionNonceCheck\<close>

text \<open>What the nonce check reads of the block chain. \<open>getNonces\<close> reads the storage and may throw.\<close>

record nonce_chain =
  nc_number :: int
  nc_getBlockByNumber :: "int \<Rightarrow> Block option"
  nc_getNonces :: "int \<Rightarrow> u256 list option"

record TransactionNonceCheck =
  nonce_cache :: "u256 set"
  m_blockNonceCache :: "(int, u256 list) umap"
  m_startblk :: int
  m_endblk :: int
  m_maxBlockLimit :: nat
  m_blockNumber :: int

type_synonym 'a nonce_op = "(TransactionNonceCheck, unit, 'a) eff"

definition isBlockLimitOk :: "TransactionNonceCheck \<Rightarrow> Transaction \<Rightarrow> bool" where
  "isBlockLimitOk nc t \<longleftrightarrow>
     \<not> (m_blockLimit t = Invalid256 \<or> uint (m_blockLimit t) \<le> m_blockNumber nc \<or>
        i64 (m_blockNumber nc + int (m_maxBlockLimit nc)) < uint (m_blockLimit t))"

definition nonce_ok :: "Transaction \<Rightarrow> bool \<Rightarrow> TransactionNonceCheck \<Rightarrow> bool \<times> TransactionNonceCheck" where
  "nonce_ok t needinsert nc =
     (if \<not> isBlockLimitOk nc t then (False, nc)
      else case isNonceOk t needinsert (nonce_cache nc) of (r, c) \<Rightarrow> (r, nc\<lparr>nonce_cache := c\<rparr>))"

definition getNonceAndUpdateCache :: "nonce_chain \<Rightarrow> int \<Rightarrow> bool \<Rightarrow> u256 list nonce_op" where
  "getNonceAndUpdateCache ch blockNumber update = e_on (\<lambda>nc.
     e_bind (case um_find (m_blockNonceCache nc) blockNumber of
         Some v \<Rightarrow> e_ret v
       | None \<Rightarrow>
           if nc_number ch = blockNumber
           then e_ret (case nc_getBlockByNumber ch blockNumber of Some b \<Rightarrow> getAllNonces b | None \<Rightarrow> [])
           else (case nc_getNonces ch blockNumber of Some v \<Rightarrow> e_ret v | None \<Rightarrow> e_throw ()))
     (\<lambda>nonceVec. e_seq (e_when (update \<and> length (m_blockNonceCache nc) < m_maxBlockLimit nc)
        (e_mod (\<lambda>nc. nc\<lparr>m_blockNonceCache := um_set blockNumber nonceVec (m_blockNonceCache nc)\<rparr>)))
      (e_ret nonceVec)))"

text \<open>The bodies of the two loops of \<open>updateCache\<close>: a block that leaves the window, and a new one.\<close>

definition expire_block :: "nonce_chain \<Rightarrow> int \<Rightarrow> unit nonce_op" where
  "expire_block ch i =
     e_bind (getNonceAndUpdateCache ch i False) (\<lambda>nonce_vec.
     e_seq (e_mod (\<lambda>nc. nc\<lparr>nonce_cache := fold (\<lambda>n c. c - {n}) nonce_vec (nonce_cache nc)\<rparr>))
       (e_mod (\<lambda>nc. nc\<lparr>m_blockNonceCache := um_erase i (m_blockNonceCache nc)\<rparr>)))"

definition enter_block :: "nonce_chain \<Rightarrow> int \<Rightarrow> unit nonce_op" where
  "enter_block ch i =
     e_bind (getNonceAndUpdateCache ch i True) (\<lambda>nonce_vec.
     e_mod (\<lambda>nc. nc\<lparr>nonce_cache := fold insert nonce_vec (nonce_cache nc)\<rparr>))"

definition updateCache :: "nonce_chain \<Rightarrow> bool \<Rightarrow> unit nonce_op" where
  "updateCache ch rebuild = e_try (e_on (\<lambda>nc0.
     let lastnumber = nc_number ch;
         startblk = (if int (m_maxBlockLimit nc0) < lastnumber then lastnumber - int (m_maxBlockLimit nc0) else 0);
         preendblk = (if rebuild then 0 else m_endblk nc0) in
     e_seq (e_mod (\<lambda>nc. nc\<lparr>m_blockNumber := lastnumber, m_endblk := lastnumber, m_startblk := startblk\<rparr>))
     (e_seq (if rebuild then e_mod (\<lambda>nc. nc\<lparr>nonce_cache := {}\<rparr>)
             else e_iter (expire_block ch) [m_startblk nc0..startblk - 1])
       (e_iter (enter_block ch) [max (i64 (preendblk + 1)) startblk..lastnumber])))) (\<lambda>_. e_ret ())"

definition TransactionNonceCheck_new :: "nonce_chain \<Rightarrow> TransactionNonceCheck" where
  "TransactionNonceCheck_new ch =
     snd (updateCache ch True \<lparr>nonce_cache = {}, m_blockNonceCache = [], m_startblk = 0, m_endblk = 0,
       m_maxBlockLimit = 1000, m_blockNumber = 0\<rparr>)"

section \<open>The window of nonces\<close>

text \<open>\<open>N i\<close> are the nonces of block \<open>i\<close>. A chain serves them when it can read those of the blocks it has;
the blocks of a chain have different nonces.\<close>

definition serves :: "(int \<Rightarrow> u256 list) \<Rightarrow> nonce_chain \<Rightarrow> bool" where
  "serves N ch \<longleftrightarrow> 0 \<le> nc_number ch \<and> nc_number ch < 2 ^ 62 \<and>
     (\<forall>i. 0 \<le> i \<and> i < nc_number ch \<longrightarrow> nc_getNonces ch i = Some (N i)) \<and>
     map_option getAllNonces (nc_getBlockByNumber ch (nc_number ch)) = Some (N (nc_number ch))"

definition unique_nonces :: "(int \<Rightarrow> u256 list) \<Rightarrow> bool" where
  "unique_nonces N \<longleftrightarrow> (\<forall>i j. 0 \<le> i \<and> 0 \<le> j \<and> i \<noteq> j \<longrightarrow> set (N i) \<inter> set (N j) = {})"

definition blocks_ok :: "(int \<Rightarrow> u256 list) \<Rightarrow> (int, u256 list) umap \<Rightarrow> bool" where
  "blocks_ok N m \<longleftrightarrow> um_ok m \<and> (\<forall>i v. um_find m i = Some v \<longrightarrow> v = N i)"

definition window :: "(int \<Rightarrow> u256 list) \<Rightarrow> TransactionNonceCheck \<Rightarrow> bool" where
  "window N nc \<longleftrightarrow> blocks_ok N (m_blockNonceCache nc) \<and>
     nonce_cache nc = (\<Union>i\<in>{max 1 (m_startblk nc)..m_endblk nc}. set (N i)) \<and>
     m_startblk nc = max 0 (m_endblk nc - int (m_maxBlockLimit nc)) \<and> m_blockNumber nc = m_endblk nc \<and>
     0 \<le> m_endblk nc \<and> m_endblk nc < 2 ^ 62"

lemma fold_insert_set: "fold insert xs A = A \<union> set xs"
  by (induction xs arbitrary: A) auto

lemma fold_remove_set: "fold (\<lambda>x c. c - {x}) xs A = A - set xs"
  by (induction xs arbitrary: A) auto

lemma diff_diff_Un: "A - B - C = A - (B \<union> C)"
  by blast

lemma getNonceAndUpdateCache_wp:
  assumes "serves N ch" "blocks_ok N (m_blockNonceCache nc)" "0 \<le> i" "i \<le> nc_number ch"
    and "\<And>m. blocks_ok N m \<Longrightarrow> Q (Inr (N i)) (nc\<lparr>m_blockNonceCache := m\<rparr>)"
  shows "wp (getNonceAndUpdateCache ch i u) Q nc"
proof -
  have set: "blocks_ok N (um_set i (N i) (m_blockNonceCache nc))"
    using assms(2) by (auto simp: blocks_ok_def split: if_splits)
  note new = assms(5) [OF set]
  have same: "Q (Inr (N i)) nc" using assms(5) [OF assms(2)] by simp
  show ?thesis
  proof (cases "um_find (m_blockNonceCache nc) i")
    case (Some v)
    with assms(2) have "v = N i" by (simp add: blocks_ok_def)
    with Some new same show ?thesis by (simp add: getNonceAndUpdateCache_def wp_rules)
  next
    case None
    with assms(1,3,4) new same show ?thesis
      by (cases "i = nc_number ch") (auto simp: getNonceAndUpdateCache_def serves_def wp_rules)
  qed
qed

text \<open>The loops over the blocks that leave and over those that enter.\<close>

lemma expire_loop:
  assumes "serves N ch" "blocks_ok N (m_blockNonceCache nc)" "\<And>i. i \<in> set is \<Longrightarrow> 0 \<le> i \<and> i \<le> nc_number ch"
    and "\<And>m. blocks_ok N m \<Longrightarrow> Q (Inr ()) (nc\<lparr>nonce_cache := nonce_cache nc - (\<Union>i\<in>set is. set (N i)),
      m_blockNonceCache := m\<rparr>)"
  shows "wp (e_iter (expire_block ch) is) Q nc"
proof -
  let ?P = "\<lambda>ys t. \<exists>m. blocks_ok N m \<and>
    t = nc\<lparr>nonce_cache := nonce_cache nc - (\<Union>i\<in>set ys. set (N i)), m_blockNonceCache := m\<rparr>"
  have "wp (e_iter (expire_block ch) is) (\<lambda>r t. r = Inr () \<and> ?P is t) nc"
  proof (rule wp_iter)
    show "?P [] nc" by (rule exI [of _ "m_blockNonceCache nc"]) (simp add: assms(2))
    fix ys i zs t assume split: "is = ys @ i # zs" and "?P ys t"
    then obtain m where m: "blocks_ok N m"
      "t = nc\<lparr>nonce_cache := nonce_cache nc - (\<Union>i\<in>set ys. set (N i)), m_blockNonceCache := m\<rparr>" by blast
    have i: "0 \<le> i" "i \<le> nc_number ch" using assms(3) split by auto
    have "blocks_ok N (um_erase i m')" if "blocks_ok N m'" for m'
      using that by (auto simp: blocks_ok_def split: if_splits)
    then show "wp (expire_block ch i) (\<lambda>r t'. r = Inr () \<and> ?P (ys @ [i]) t') t"
      unfolding expire_block_def wp_bind
      by (intro getNonceAndUpdateCache_wp [OF assms(1) _ i])
         (simp_all add: m wp_rules fold_remove_set diff_diff_Un Un_ac, blast)
  qed
  then show ?thesis by (rule wp_mono) (use assms(4) in auto)
qed

lemma enter_loop:
  assumes "serves N ch" "blocks_ok N (m_blockNonceCache nc)" "\<And>i. i \<in> set is \<Longrightarrow> 0 \<le> i \<and> i \<le> nc_number ch"
    and "\<And>m. blocks_ok N m \<Longrightarrow> Q (Inr ()) (nc\<lparr>m_blockNonceCache := m,
      nonce_cache := nonce_cache nc \<union> (\<Union>i\<in>set is. set (N i))\<rparr>)"
  shows "wp (e_iter (enter_block ch) is) Q nc"
proof -
  let ?P = "\<lambda>ys t. \<exists>m. blocks_ok N m \<and>
    t = nc\<lparr>m_blockNonceCache := m, nonce_cache := nonce_cache nc \<union> (\<Union>i\<in>set ys. set (N i))\<rparr>"
  have "wp (e_iter (enter_block ch) is) (\<lambda>r t. r = Inr () \<and> ?P is t) nc"
  proof (rule wp_iter)
    show "?P [] nc" by (rule exI [of _ "m_blockNonceCache nc"]) (simp add: assms(2))
    fix ys i zs t assume split: "is = ys @ i # zs" and "?P ys t"
    then obtain m where m: "blocks_ok N m"
      "t = nc\<lparr>m_blockNonceCache := m, nonce_cache := nonce_cache nc \<union> (\<Union>i\<in>set ys. set (N i))\<rparr>" by blast
    have i: "0 \<le> i" "i \<le> nc_number ch" using assms(3) split by auto
    show "wp (enter_block ch i) (\<lambda>r t'. r = Inr () \<and> ?P (ys @ [i]) t') t"
      unfolding enter_block_def wp_bind
      by (intro getNonceAndUpdateCache_wp [OF assms(1) _ i])
         (simp_all add: m wp_rules fold_insert_set Un_ac, blast)
  qed
  then show ?thesis by (rule wp_mono) (use assms(4) in auto)
qed

text \<open>The set that is left after the two loops.\<close>

lemma window_shift:
  fixes s0 e0 s e :: int
  assumes "unique_nonces N" "0 \<le> s0" "s0 \<le> s" "0 \<le> e0" "e0 \<le> e"
  shows "(\<Union>i\<in>{max 1 s0..e0}. set (N i)) - (\<Union>i\<in>{s0..s - 1}. set (N i)) \<union> (\<Union>i\<in>{max (e0 + 1) s..e}. set (N i)) =
    (\<Union>i\<in>{max 1 s..e}. set (N i))" (is "?A - ?B \<union> ?C = ?D")
proof
  show "?D \<subseteq> ?A - ?B \<union> ?C"
  proof
    fix x assume "x \<in> ?D"
    then obtain i where i: "max 1 s \<le> i" "i \<le> e" "x \<in> set (N i)" by auto
    show "x \<in> ?A - ?B \<union> ?C"
    proof (cases "e0 < i")
      case True
      with i have "x \<in> ?C" by (intro UN_I [of i]) auto
      then show ?thesis by blast
    next
      case False
      then have "x \<in> ?A" using i assms(3) by (intro UN_I [of i]) auto
      moreover have "x \<notin> ?B"
      proof
        assume "x \<in> ?B"
        then obtain j where "s0 \<le> j" "j < s" "x \<in> set (N j)" by auto
        moreover have "i \<noteq> j" "0 \<le> i" "0 \<le> j" using calculation i assms(2) by auto
        ultimately show False using assms(1) i(3) unfolding unique_nonces_def by blast
      qed
      ultimately show ?thesis by blast
    qed
  qed
  show "?A - ?B \<union> ?C \<subseteq> ?D"
  proof
    fix x assume "x \<in> ?A - ?B \<union> ?C"
    then consider (old) i where "max 1 s0 \<le> i" "i \<le> e0" "x \<in> set (N i)" "x \<notin> ?B"
      | (new) i where "max (e0 + 1) s \<le> i" "i \<le> e" "x \<in> set (N i)" by auto
    then show "x \<in> ?D"
    proof cases
      case old
      then have "\<not> i < s" by auto
      with old assms(5) show ?thesis by (intro UN_I [of i]) auto
    next
      case new
      with assms(4) show ?thesis by (intro UN_I [of i]) auto
    qed
  qed
qed

lemma updateCache_window:
  assumes "serves N ch" "unique_nonces N" "window N nc" "m_endblk nc \<le> nc_number ch"
  shows "wp (updateCache ch False) (\<lambda>r t. r = Inr () \<and> window N t \<and> m_endblk t = nc_number ch \<and>
    m_maxBlockLimit t = m_maxBlockLimit nc) nc"
proof -
  let ?n = "nc_number ch" and ?l = "int (m_maxBlockLimit nc)"
  define s where "s = (if ?l < ?n then ?n - ?l else 0)"
  have w: "m_startblk nc = max 0 (m_endblk nc - ?l)" "0 \<le> m_endblk nc" "blocks_ok N (m_blockNonceCache nc)"
    "nonce_cache nc = (\<Union>i\<in>{max 1 (m_startblk nc)..m_endblk nc}. set (N i))"
    using assms(3) by (auto simp: window_def)
  have n: "0 \<le> ?n" "?n < 2 ^ 62" using assms(1) by (auto simp: serves_def)
  have s: "s = max 0 (?n - ?l)" "m_startblk nc \<le> s" using w(1) assms(4) by (auto simp: s_def)
  have i: "i64 (m_endblk nc + 1) = m_endblk nc + 1"
    using w(2) assms(4) n(2) by (intro i64_id) (simp add: int64_range_def)
  have "0 \<le> m_startblk nc" using w(1) by simp
  note shift = window_shift [OF assms(2) this s(2) w(2) assms(4)]
  let ?Q = "\<lambda>r t. r = Inr () \<and> window N t \<and> m_endblk t = ?n \<and> m_maxBlockLimit t = m_maxBlockLimit nc"
  let ?t = "nc\<lparr>m_blockNumber := ?n, m_endblk := ?n, m_startblk := s\<rparr>"
  have enter: "wp (e_iter (enter_block ch) [max (m_endblk nc + 1) s..?n]) ?Q
      (?t\<lparr>nonce_cache := nonce_cache nc - (\<Union>i\<in>set [m_startblk nc..s - 1]. set (N i)), m_blockNonceCache := m\<rparr>)"
    if "blocks_ok N m" for m
  proof (rule enter_loop [OF assms(1)])
    show "0 \<le> i \<and> i \<le> ?n" if "i \<in> set [max (m_endblk nc + 1) s..?n]" for i using that w(2) by auto
  next
    fix m' assume "blocks_ok N m'"
    then show "?Q (Inr ()) (?t\<lparr>nonce_cache := nonce_cache nc - (\<Union>i\<in>set [m_startblk nc..s - 1]. set (N i)), m_blockNonceCache := m,
        m_blockNonceCache := m', nonce_cache := nonce_cache (?t\<lparr>nonce_cache := nonce_cache nc - (\<Union>i\<in>set [m_startblk nc..s - 1]. set (N i)), m_blockNonceCache := m\<rparr>)
          \<union> (\<Union>i\<in>set [max (m_endblk nc + 1) s..?n]. set (N i))\<rparr>)"
      using n by (simp add: window_def w(4) shift s(1) [symmetric])
  qed (use that in simp)
  have "wp (e_iter (expire_block ch) [m_startblk nc..s - 1])
      (\<lambda>r t. r = Inr () \<and> wp (e_iter (enter_block ch) [max (m_endblk nc + 1) s..?n]) ?Q t) ?t"
  proof (rule expire_loop [OF assms(1)])
    show "0 \<le> i \<and> i \<le> ?n" if "i \<in> set [m_startblk nc..s - 1]" for i using that w(1) n s(1) by auto
  qed (use w(3) enter in simp_all)
  then show ?thesis
    unfolding updateCache_def Let_def wp_try wp_on wp_seq wp_mod if_False i s_def [symmetric]
    by (simp only: sum.case) (erule wp_mono, elim conjE, simp only: sum.case, erule wp_mono, auto)
qed

lemma TransactionNonceCheck_new_window:
  assumes "serves N ch"
  shows "window N (TransactionNonceCheck_new ch) \<and> m_endblk (TransactionNonceCheck_new ch) = nc_number ch \<and>
    m_maxBlockLimit (TransactionNonceCheck_new ch) = 1000"
proof -
  let ?n = "nc_number ch"
  let ?s = "if int 1000 < ?n then ?n - int 1000 else 0"
  let ?Q = "\<lambda>r t. r = Inr () \<and> window N t \<and> m_endblk t = ?n \<and> m_maxBlockLimit t = 1000"
  let ?c = "\<lparr>nonce_cache = {}, m_blockNonceCache = [], m_startblk = 0, m_endblk = 0, m_maxBlockLimit = 1000, m_blockNumber = 0\<rparr>"
  have n: "0 \<le> ?n" "?n < 2 ^ 62" using assms by (auto simp: serves_def)
  have i: "i64 (0 + 1) = 1" by (simp add: i64_def)
  have s: "?s = max 0 (?n - 1000)" by simp
  have "wp (e_iter (enter_block ch) [max 1 ?s..?n]) ?Q (?c\<lparr>m_blockNumber := ?n, m_endblk := ?n, m_startblk := ?s, nonce_cache := {}\<rparr>)"
  proof (rule enter_loop [OF assms])
    show "0 \<le> i \<and> i \<le> ?n" if "i \<in> set [max 1 ?s..?n]" for i using that by auto
  qed (use n s in \<open>simp_all add: window_def blocks_ok_def\<close>)
  then have "wp (updateCache ch True) ?Q ?c"
    unfolding updateCache_def Let_def wp_try wp_on wp_seq wp_mod if_True i
    by (simp only: sum.case TransactionNonceCheck.simps) (erule wp_mono, auto)
  then show ?thesis by (simp add: TransactionNonceCheck_new_def wp_def case_prod_beta)
qed

section \<open>Properties\<close>

text \<open>C31: The nonce check keeps a window of the block chain. From its construction on, through any updates
with a chain that grows, the set of nonces that are refused is the nonces of the blocks of the
window, the last 1001 blocks except the genesis block, provided that no nonce occurs in two blocks and the
nonces of the blocks can be read.\<close>

theorem nonce_window:
  assumes "unique_nonces N" "\<forall>ch \<in> set (ch0 # chs). serves N ch" "sorted (map nc_number (ch0 # chs))"
  defines "nc \<equiv> foldl (\<lambda>nc ch. snd (updateCache ch False nc)) (TransactionNonceCheck_new ch0) chs"
  shows "m_blockNumber nc = nc_number (last (ch0 # chs)) \<and>
    nonce_cache nc = (\<Union>i\<in>{max 1 (m_blockNumber nc - 1000)..m_blockNumber nc}. set (N i))"
proof -
  have "window N nc \<and> m_endblk nc = nc_number (last (ch0 # chs)) \<and> m_maxBlockLimit nc = 1000"
    using assms(2,3) unfolding nc_def
  proof (induction chs rule: rev_induct)
    case Nil
    then show ?case using TransactionNonceCheck_new_window by simp
  next
    case (snoc ch chs)
    let ?nc = "foldl (\<lambda>nc ch. snd (updateCache ch False nc)) (TransactionNonceCheck_new ch0) chs"
    have prev: "window N ?nc \<and> m_endblk ?nc = nc_number (last (ch0 # chs)) \<and> m_maxBlockLimit ?nc = 1000"
      using snoc by (auto simp: sorted_append)
    have "nc_number (last (ch0 # chs)) \<le> nc_number ch"
      using snoc.prems(2) by (cases chs rule: rev_cases) (auto simp: sorted_append)
    then show ?case
      using updateCache_window [of N ch ?nc] snoc.prems(1) prev assms(1) by (auto simp: wp_def case_prod_beta)
  qed
  moreover have "max 1 (max 0 (x - int 1000)) = max 1 (x - 1000)" for x :: int by simp
  ultimately show ?thesis by (simp only: window_def)
qed

definition demo_nonces :: "int \<Rightarrow> u256 list" where
  "demo_nonces i = (if i = 1 then [7] else [])"

definition demo_chain :: "int \<Rightarrow> nonce_chain" where
  "demo_chain n = \<lparr>nc_number = n, nc_getBlockByNumber = (\<lambda>i. Some (Block_new\<lparr>m_transactions :=
     (if i = 1 then [null_transaction\<lparr>m_nonce := 7\<rparr>] else [])\<rparr>)), nc_getNonces = (\<lambda>i. Some (demo_nonces i))\<rparr>"

lemma demo_serves: "0 \<le> n \<Longrightarrow> n < 2 ^ 62 \<Longrightarrow> serves demo_nonces (demo_chain n)"
  by (simp add: serves_def demo_chain_def demo_nonces_def getAllNonces_def Block_new_def)

lemma demo_unique: "unique_nonces demo_nonces"
  by (auto simp: unique_nonces_def demo_nonces_def)

theorem nonce_window_witness:
  "nonce_cache (snd (updateCache (demo_chain 3) False (TransactionNonceCheck_new (demo_chain 0)))) =
    (\<Union>i\<in>{1..3}. set (demo_nonces i))"
proof -
  let ?nc = "foldl (\<lambda>nc ch. snd (updateCache ch False nc)) (TransactionNonceCheck_new (demo_chain 0)) [demo_chain 3]"
  have "\<forall>ch \<in> set [demo_chain 0, demo_chain 3]. serves demo_nonces ch" by (simp add: demo_serves)
  moreover have "sorted (map nc_number [demo_chain 0, demo_chain 3])" by (simp add: demo_chain_def)
  ultimately have r: "m_blockNumber ?nc = nc_number (last [demo_chain 0, demo_chain 3])"
    "nonce_cache ?nc = (\<Union>i\<in>{max 1 (m_blockNumber ?nc - 1000)..m_blockNumber ?nc}. set (demo_nonces i))"
    using nonce_window [OF demo_unique] by blast+
  have "m_blockNumber ?nc = 3" using r(1) by (simp add: demo_chain_def)
  with r(2) show ?thesis by simp
qed



end
