(* ===== verification/Tx_Pool.thy ===== *)
theory Tx_Pool
  imports Tx_Nonce
begin

text \<open>
  The transaction pool, libtxpool/TxPool. The queue is a \<open>std::set\<close> ordered by the import time, with an
  index from transaction hashes to iterators. A node of the queue has an identity here that stands for the
  iterators that point to it; erasing a node by an iterator does not compare transactions.

  The comparison of the queue is \<open><=\<close>, so that no two transactions are equivalent: the insertion of the
  standard library walks to the first node whose time is not smaller and always inserts in front of it.
\<close>

section \<open>Definitions\<close>

datatype ImportResult = Success | UnknownParent | FutureTimeKnown | FutureTimeUnknown | AlreadyInChain
  | AlreadyKnown | Malformed | BadChain | ZeroSignature | TransactionNonceCheckFail | TxPoolNonceCheckFail
  | TransactionPoolIsFull | InvalidChainIdOrGroupId

datatype IfDropped = Ignore | Retry

datatype pool_exn = PoolEth eth_exn | TransactionRefused ImportResult h256

record LocalisedLogEntry =
  ll_entry :: LogEntry
  ll_blockHash :: h256
  ll_blockNumber :: int
  ll_transactionHash :: h256
  ll_transactionIndex :: nat
  ll_logIndex :: nat

record LocalisedTransactionReceipt =
  lr_receipt :: TransactionReceipt
  lr_hash :: h256
  lr_blockHash :: h256
  lr_blockNumber :: int
  lr_from :: Address
  lr_to :: Address
  lr_transactionIndex :: nat
  lr_gasUsed :: u256
  lr_contractAddress :: Address
  lr_localisedLogs :: "LocalisedLogEntry list"

datatype pool_event = PoolReady | PoolCallback nat LocalisedTransactionReceipt

record PoolNode =
  pn_id :: nat
  pn_tx :: Transaction
  pn_callback :: "nat option"

record pool_env =
  pe_now :: nat
  pe_crypto :: crypto
  pe_rc2 :: bool
  pe_chainId :: u256
  pe_chain :: nonce_chain

record TxPool =
  m_txNonceCheck :: TransactionNonceCheck
  m_commonNonceCheck :: "u256 set"
  m_limit :: nat
  pool_groupId :: u256
  m_txsQueue :: "PoolNode list"
  m_txsHash :: "(h256, nat) umap"
  m_dropped :: "h256 set"
  m_transactionKnownBy :: "(h256, h512 set) umap"
  pool_next :: nat
  pool_events :: "pool_event list"

type_synonym 'a pool = "(TxPool, pool_exn, 'a) eff"

definition TxPool_new :: "nonce_chain \<Rightarrow> u256 \<Rightarrow> nat \<Rightarrow> TxPool" where
  "TxPool_new ch groupId limit = \<lparr>m_txNonceCheck = TransactionNonceCheck_new ch, m_commonNonceCheck = {},
     m_limit = limit, pool_groupId = groupId, m_txsQueue = [], m_txsHash = [], m_dropped = {},
     m_transactionKnownBy = [], pool_next = 0, pool_events = []\<rparr>"

definition pool_event :: "pool_event \<Rightarrow> unit pool" where
  "pool_event e = e_mod (\<lambda>p. p\<lparr>pool_events := pool_events p @ [e]\<rparr>)"

definition pool_eth :: "eth_exn + 'a \<Rightarrow> 'a pool" where
  "pool_eth r = e_lift (map_sum PoolEth id r)"

definition tx_hash :: "pool_env \<Rightarrow> Transaction \<Rightarrow> eth_exn + h256" where
  "tx_hash env t = Transaction_sha3 (pe_crypto env) (pe_rc2 env) t True"

definition tx_sender :: "pool_env \<Rightarrow> Transaction \<Rightarrow> eth_exn + Address" where
  "tx_sender env t = Transaction_sender (pe_crypto env) (pe_rc2 env) t"

definition safeSender :: "pool_env \<Rightarrow> Transaction \<Rightarrow> Address" where
  "safeSender env t = (case tx_sender env t of Inr a \<Rightarrow> a | Inl _ \<Rightarrow> 0)"

subsection \<open>The queue and its index\<close>

definition transactionCompare :: "Transaction \<Rightarrow> Transaction \<Rightarrow> bool" where
  "transactionCompare a b \<longleftrightarrow> m_importTime a \<le> m_importTime b"

fun queue_emplace :: "PoolNode \<Rightarrow> PoolNode list \<Rightarrow> PoolNode list" where
  "queue_emplace n [] = [n]"
| "queue_emplace n (x # xs) =
     (if transactionCompare (pn_tx n) (pn_tx x) then n # x # xs else x # queue_emplace n xs)"

definition queue_erase :: "nat \<Rightarrow> PoolNode list \<Rightarrow> PoolNode list" where
  "queue_erase i q = filter (\<lambda>n. pn_id n \<noteq> i) q"

definition queue_node :: "TxPool \<Rightarrow> nat \<Rightarrow> PoolNode option" where
  "queue_node p i = find (\<lambda>n. pn_id n = i) (m_txsQueue p)"

definition pool_insert :: "pool_env \<Rightarrow> Transaction \<Rightarrow> nat option \<Rightarrow> bool pool" where
  "pool_insert env t cb =
     e_bind (pool_eth (tx_hash env t)) (\<lambda>h. e_on (\<lambda>p.
     if um_find (m_txsHash p) h \<noteq> None then e_ret False
     else e_seq (e_mod (\<lambda>p. p\<lparr>
         m_txsQueue := queue_emplace \<lparr>pn_id = pool_next p, pn_tx = t, pn_callback = cb\<rparr> (m_txsQueue p),
         m_txsHash := um_set h (pool_next p) (m_txsHash p), pool_next := Suc (pool_next p)\<rparr>))
       (e_ret True)))"

definition notify_receipt :: "bool \<Rightarrow> LocalisedTransactionReceipt option \<Rightarrow> PoolNode option \<Rightarrow> unit pool" where
  "notify_receipt needTriggerCallback pReceipt node =
     (case (pReceipt, node) of
        (Some r, Some n) \<Rightarrow> (case pn_callback n of
            Some cb \<Rightarrow> e_when needTriggerCallback (pool_event (PoolCallback cb r))
          | None \<Rightarrow> e_ret ())
      | _ \<Rightarrow> e_ret ())"

definition removeTrans :: "h256 \<Rightarrow> bool \<Rightarrow> LocalisedTransactionReceipt option \<Rightarrow> bool pool" where
  "removeTrans h needTriggerCallback pReceipt = e_on (\<lambda>p.
     case um_find (m_txsHash p) h of
       None \<Rightarrow> e_ret False
     | Some i \<Rightarrow> e_seq (notify_receipt needTriggerCallback pReceipt (queue_node p i))
         (e_seq (e_mod (\<lambda>p. p\<lparr>m_txsQueue := queue_erase i (m_txsQueue p), m_txsHash := um_erase h (m_txsHash p)\<rparr>))
           (e_ret True)))"

definition removeTransactionKnowBy :: "h256 \<Rightarrow> unit pool" where
  "removeTransactionKnowBy h = e_mod (\<lambda>p. p\<lparr>m_transactionKnownBy := um_erase h (m_transactionKnownBy p)\<rparr>)"

subsection \<open>Checks and import\<close>

definition isBlockLimitOrNonceOk :: "Transaction \<Rightarrow> bool \<Rightarrow> bool pool" where
  "isBlockLimitOrNonceOk t needInsert = e_on (\<lambda>p.
     if m_nonce t = Invalid256 then e_ret False
     else case nonce_ok t needInsert (m_txNonceCheck p) of (r, nc) \<Rightarrow>
       e_seq (e_mod (\<lambda>p. p\<lparr>m_txNonceCheck := nc\<rparr>)) (e_ret r))"

definition txPoolNonceCheck :: "Transaction \<Rightarrow> bool pool" where
  "txPoolNonceCheck t = e_on (\<lambda>p.
     case isNonceOk t True (m_commonNonceCheck p) of (r, c) \<Rightarrow>
       e_seq (e_mod (\<lambda>p. p\<lparr>m_commonNonceCheck := c\<rparr>)) (e_ret r))"

text \<open>The transaction is passed by reference and keeps the sender that was recovered.\<close>

definition pool_verify :: "pool_env \<Rightarrow> Transaction \<Rightarrow> IfDropped \<Rightarrow> bool \<Rightarrow> (ImportResult \<times> Transaction) pool" where
  "pool_verify env t drop_policy needinsert =
     e_bind (pool_eth (tx_hash env t)) (\<lambda>h. e_on (\<lambda>p.
     if um_find (m_txsHash p) h \<noteq> None then e_ret (AlreadyKnown, t)
     else if h \<in> m_dropped p \<and> drop_policy = Ignore then e_ret (AlreadyInChain, t)
     else e_bind (isBlockLimitOrNonceOk t needinsert) (\<lambda>ok.
       if \<not> ok then e_ret (TransactionNonceCheckFail, t)
       else case tx_sender env t of
           Inl _ \<Rightarrow> e_ret (Malformed, t)
         | Inr a \<Rightarrow> let t = t\<lparr>m_sender := a\<rparr> in
             e_bind (txPoolNonceCheck t) (\<lambda>ok.
             if \<not> ok then e_ret (TxPoolNonceCheckFail, t)
             else if \<not> checkChainIdAndGroupId (pe_rc2 env) t (pe_chainId env) (pool_groupId p)
             then e_ret (InvalidChainIdOrGroupId, t)
             else e_ret (Success, t)))))"

definition full_receipt :: LocalisedTransactionReceipt where
  "full_receipt = \<lparr>lr_receipt = TransactionReceipt_new\<lparr>r_status := 28\<rparr>, lr_hash = 0, lr_blockHash = 0,
     lr_blockNumber = 0, lr_from = 0, lr_to = 0, lr_transactionIndex = 0, lr_gasUsed = 0,
     lr_contractAddress = 0, lr_localisedLogs = []\<rparr>"

definition pool_import :: "pool_env \<Rightarrow> Transaction \<Rightarrow> nat option \<Rightarrow> (ImportResult \<times> Transaction) pool" where
  "pool_import env t cb =
     (let t = t\<lparr>m_importTime := word_of_nat (pe_now env)\<rparr> in
      e_on (\<lambda>p.
      if m_limit p \<le> length (m_txsQueue p)
      then e_seq (case cb of Some c \<Rightarrow> pool_event (PoolCallback c full_receipt) | None \<Rightarrow> e_ret ())
        (e_ret (TransactionPoolIsFull, t))
      else e_bind (pool_verify env t Ignore False) (\<lambda>(ret, t).
        if ret = Success
        then e_bind (pool_insert env t cb) (\<lambda>inserted.
          e_seq (e_when inserted (e_seq
              (e_mod (\<lambda>p. p\<lparr>m_commonNonceCheck := insertCache t (m_commonNonceCheck p)\<rparr>))
              (pool_event PoolReady)))
            (e_ret (ret, t)))
        else e_ret (ret, t))))"

definition import_bytes :: "pool_env \<Rightarrow> bytes \<Rightarrow> ImportResult pool" where
  "import_bytes env d =
     (case res_bind (Transaction_decode_bytes (pe_crypto env) (pe_rc2 env) d CheckNone) (\<lambda>t.
           res_bind (tx_hash env t) (\<lambda>h. Inr (t, h))) of
        Inl _ \<Rightarrow> e_ret Malformed
      | Inr (t, h) \<Rightarrow> if sha3 (pe_crypto env) d \<noteq> h then e_ret Malformed
          else e_bind (pool_import env t None) (\<lambda>(ret, t). e_ret ret))"

text \<open>\<open>toAddress(from, nonce)\<close> of libdevcrypto: the address of a contract that a transaction creates.\<close>

definition toAddress :: "crypto \<Rightarrow> Address \<Rightarrow> u256 \<Rightarrow> eth_exn + Address" where
  "toAddress cr from nonce =
     res_bind (eth_rlp (res_bind (res_bind (appendList 2 RLPStream_new)
       (stream [append_hash from, append_u256 nonce])) RLPStream_out)) (\<lambda>b.
     Inr (right160 (sha3 cr b)))"

definition submit :: "pool_env \<Rightarrow> Transaction \<Rightarrow> nat option \<Rightarrow> (h256 \<times> Address) pool" where
  "submit env t cb =
     e_bind (pool_import env t cb) (\<lambda>(ret, t).
     e_bind (pool_eth (tx_hash env t)) (\<lambda>h.
     if ret = Success
     then e_bind (pool_eth (toAddress (pe_crypto env) (safeSender env t) (m_nonce t))) (\<lambda>a. e_ret (h, a))
     else e_throw (TransactionRefused ret h)))"

subsection \<open>Blocks\<close>

definition setSenderForTransaction :: "pool_env \<Rightarrow> Transaction \<Rightarrow> Address \<Rightarrow> eth_exn + Transaction" where
  "setSenderForTransaction env t sender =
     (if sender = 0 then res_bind (tx_sender env t) (\<lambda>a. Inr (t\<lparr>m_sender := a\<rparr>))
      else Inr (t\<lparr>m_sender := sender\<rparr>))"

text \<open>The body of the parallel loop for one transaction. An index entry without a node would be an
iterator that points to no element.\<close>

definition setSender_from_pool :: "pool_env \<Rightarrow> TxPool \<Rightarrow> Transaction \<Rightarrow> eth_exn + Transaction" where
  "setSender_from_pool env p t =
     res_bind (tx_hash env t) (\<lambda>h.
     case um_find (m_txsHash p) h of
       Some i \<Rightarrow> (case queue_node p i of
           Some n \<Rightarrow> res_bind (tx_sender env (pn_tx n)) (setSenderForTransaction env t)
         | None \<Rightarrow> Inl OutOfBounds)
     | None \<Rightarrow> setSenderForTransaction env t 0)"

definition verifyAndSetSenderForBlock :: "pool_env \<Rightarrow> TxPool \<Rightarrow> Block \<Rightarrow> eth_exn + Block" where
  "verifyAndSetSenderForBlock env p b =
     res_bind (res_mapM (setSender_from_pool env p) (m_transactions b)) (\<lambda>ts. Inr (b\<lparr>m_transactions := ts\<rparr>))"

definition localised_logs :: "h256 \<Rightarrow> int \<Rightarrow> h256 \<Rightarrow> nat \<Rightarrow> LogEntry list \<Rightarrow> LocalisedLogEntry list" where
  "localised_logs bh n h index es = map (\<lambda>(e, i). \<lparr>ll_entry = e, ll_blockHash = bh, ll_blockNumber = n,
     ll_transactionHash = h, ll_transactionIndex = index, ll_logIndex = i\<rparr>) (zip es [0..<length es])"

definition constructTransactionReceipt ::
    "pool_env \<Rightarrow> Transaction \<Rightarrow> TransactionReceipt \<Rightarrow> Block \<Rightarrow> nat \<Rightarrow> eth_exn + LocalisedTransactionReceipt" where
  "constructTransactionReceipt env t r b index =
     res_bind (tx_hash env t) (\<lambda>h.
     let bh = BlockHeader_hash (pe_crypto env) (m_blockHeader b); n = m_number (m_blockHeader b) in
     Inr \<lparr>lr_receipt = r, lr_hash = h, lr_blockHash = bh, lr_blockNumber = n, lr_from = safeSender env t,
       lr_to = m_receiveAddress t, lr_transactionIndex = index, lr_gasUsed = r_gasUsed r,
       lr_contractAddress = r_contractAddress r, lr_localisedLogs = localised_logs bh n h index (r_log r)\<rparr>)"

definition removeBlockKnowTrans :: "pool_env \<Rightarrow> Block \<Rightarrow> bool pool" where
  "removeBlockKnowTrans env b =
     (if getTransactionSize b = 0 then e_ret True
      else e_seq (e_iter (\<lambda>t. e_bind (pool_eth (tx_hash env t)) removeTransactionKnowBy) (m_transactions b))
        (e_ret True))"

fun dropTransactions_loop :: "pool_env \<Rightarrow> Block \<Rightarrow> (nat \<times> Transaction) list \<Rightarrow> bool \<Rightarrow> bool pool" where
  "dropTransactions_loop env b [] succ = e_ret succ"
| "dropTransactions_loop env b ((i, t) # ts) succ =
     e_bind (if i < length (m_transactionReceipts b)
         then e_bind (pool_eth (constructTransactionReceipt env t (m_transactionReceipts b ! i) b i)) (\<lambda>r. e_ret (Some r))
         else e_ret None) (\<lambda>pReceipt.
     e_bind (pool_eth (tx_hash env t)) (\<lambda>h.
     e_bind (removeTrans h True pReceipt) (\<lambda>removed.
     dropTransactions_loop env b ts (if removed then succ else False))))"

definition dropTransactions :: "pool_env \<Rightarrow> Block \<Rightarrow> bool pool" where
  "dropTransactions env b =
     (if getTransactionSize b = 0 then e_ret True
      else dropTransactions_loop env b (zip [0..<length (m_transactions b)] (m_transactions b)) True)"

definition handleBadBlock :: "Block \<Rightarrow> bool pool" where
  "handleBadBlock b = e_ret True"

definition dropBlockTrans :: "pool_env \<Rightarrow> Block \<Rightarrow> bool pool" where
  "dropBlockTrans env b =
     e_seq (e_mod (\<lambda>p. p\<lparr>m_txNonceCheck := snd (updateCache (pe_chain env) False (m_txNonceCheck p))\<rparr>))
     (e_bind (dropTransactions env b) (\<lambda>ret.
      e_seq (removeBlockKnowTrans env b)
      (e_seq (e_mod (\<lambda>p. p\<lparr>m_commonNonceCheck := delCache_txs (m_transactions b) (m_commonNonceCheck p)\<rparr>))
        (e_ret ret))))"

definition pool_drop :: "h256 \<Rightarrow> bool pool" where
  "pool_drop h = e_on (\<lambda>p.
     if um_find (m_txsHash p) h = None then e_ret False
     else e_seq (e_mod (\<lambda>p. p\<lparr>m_dropped := (if card (m_dropped p) < m_limit p then insert h (m_dropped p) else {})\<rparr>))
       (e_bind (removeTrans h False None) (\<lambda>succ.
        e_seq (removeTransactionKnowBy h) (e_ret succ))))"

subsection \<open>Queries\<close>

record top_state =
  ts_ret :: "Transaction list"
  ts_avoid :: "h256 set"
  ts_expired :: "h256 list"
  ts_keys :: "u256 list"

fun top_loop :: "pool_env \<Rightarrow> TransactionNonceCheck \<Rightarrow> nat \<Rightarrow> bool \<Rightarrow> PoolNode list \<Rightarrow> top_state \<Rightarrow> eth_exn + top_state" where
  "top_loop env nc limit updateAvoid [] a = Inr a"
| "top_loop env nc limit updateAvoid (n # ns) a =
     (if \<not> length (ts_ret a) < limit then Inr a
      else res_bind (tx_hash env (pn_tx n)) (\<lambda>h.
        if \<not> isBlockLimitOk nc (pn_tx n)
        then top_loop env nc limit updateAvoid ns
          (a\<lparr>ts_expired := ts_expired a @ [h], ts_keys := ts_keys a @ [generateKey (pn_tx n)]\<rparr>)
        else if h \<notin> ts_avoid a
        then top_loop env nc limit updateAvoid ns
          (a\<lparr>ts_ret := ts_ret a @ [pn_tx n], ts_avoid := (if updateAvoid then insert h (ts_avoid a) else ts_avoid a)\<rparr>)
        else top_loop env nc limit updateAvoid ns a))"

definition topTransactions :: "pool_env \<Rightarrow> nat \<Rightarrow> h256 set \<Rightarrow> bool \<Rightarrow> (Transaction list \<times> h256 set) pool" where
  "topTransactions env lim avoid updateAvoid = e_on (\<lambda>p.
     e_bind (pool_eth (top_loop env (m_txNonceCheck p) (min (m_limit p) lim) updateAvoid (m_txsQueue p)
       \<lparr>ts_ret = [], ts_avoid = avoid, ts_expired = [], ts_keys = []\<rparr>)) (\<lambda>a.
     e_seq (e_iter (\<lambda>h. e_bind (removeTrans h False None) (\<lambda>_.
         e_mod (\<lambda>p. p\<lparr>m_dropped := insert h (m_dropped p)\<rparr>))) (ts_expired a))
     (e_seq (e_iter (\<lambda>k. e_mod (\<lambda>p. p\<lparr>m_commonNonceCheck := delCache_key k (m_commonNonceCheck p)\<rparr>)) (ts_keys a))
     (e_seq (e_iter removeTransactionKnowBy (ts_expired a))
       (e_ret (ts_ret a, ts_avoid a))))))"

definition isTransactionKnownBy :: "TxPool \<Rightarrow> h256 \<Rightarrow> h512 \<Rightarrow> bool" where
  "isTransactionKnownBy p h nodeId =
     (case um_find (m_transactionKnownBy p) h of None \<Rightarrow> False | Some s \<Rightarrow> nodeId \<in> s)"

fun condition_loop :: "pool_env \<Rightarrow> TxPool \<Rightarrow> h512 \<Rightarrow> nat \<Rightarrow> PoolNode list \<Rightarrow> Transaction list \<Rightarrow> eth_exn + Transaction list" where
  "condition_loop env p nodeId limit [] ret = Inr ret"
| "condition_loop env p nodeId limit (n # ns) ret =
     (if \<not> length ret < limit then Inr ret
      else res_bind (tx_hash env (pn_tx n)) (\<lambda>h.
        condition_loop env p nodeId limit ns (if isTransactionKnownBy p h nodeId then ret else ret @ [pn_tx n])))"

definition topTransactionsCondition :: "pool_env \<Rightarrow> TxPool \<Rightarrow> nat \<Rightarrow> h512 \<Rightarrow> eth_exn + Transaction list" where
  "topTransactionsCondition env p lim nodeId = condition_loop env p nodeId (min (m_limit p) lim) (m_txsQueue p) []"

definition txExists :: "TxPool \<Rightarrow> h256 \<Rightarrow> bool" where
  "txExists p h = (if m_limit p \<le> length (m_txsQueue p) then True else um_find (m_txsHash p) h \<noteq> None)"

definition pool_isFull :: "TxPool \<Rightarrow> bool" where
  "pool_isFull p \<longleftrightarrow> m_limit p \<le> length (m_txsQueue p)"

definition pendingList :: "TxPool \<Rightarrow> Transaction list" where
  "pendingList p = map pn_tx (m_txsQueue p)"

definition pendingSize :: "TxPool \<Rightarrow> nat" where
  "pendingSize p = length (m_txsQueue p)"

definition pool_status :: "TxPool \<Rightarrow> nat \<times> nat" where
  "pool_status p = (length (m_txsQueue p), card (m_dropped p))"

definition pool_clear :: "unit pool" where
  "pool_clear = e_mod (\<lambda>p. p\<lparr>m_txsQueue := [], m_txsHash := [], m_dropped := {}, m_transactionKnownBy := []\<rparr>)"

definition setTransactionIsKnownBy :: "h256 \<Rightarrow> h512 \<Rightarrow> unit pool" where
  "setTransactionIsKnownBy h nodeId = e_mod (\<lambda>p. p\<lparr>m_transactionKnownBy :=
     um_set h (insert nodeId (case um_find (m_transactionKnownBy p) h of Some s \<Rightarrow> s | None \<Rightarrow> {})) (m_transactionKnownBy p)\<rparr>)"

definition setTransactionsAreKnownBy :: "h256 list \<Rightarrow> h512 \<Rightarrow> unit pool" where
  "setTransactionsAreKnownBy hs nodeId = e_iter (\<lambda>h. setTransactionIsKnownBy h nodeId) hs"

definition isTransactionKnownBySomeone :: "TxPool \<Rightarrow> h256 \<Rightarrow> bool" where
  "isTransactionKnownBySomeone p h = (case um_find (m_transactionKnownBy p) h of None \<Rightarrow> False | Some s \<Rightarrow> s \<noteq> {})"

section \<open>The invariant\<close>

text \<open>The index and the queue hold the same transactions, and the queue is in the order of the import times.\<close>

definition pool_ok :: "pool_env \<Rightarrow> TxPool \<Rightarrow> bool" where
  "pool_ok env p \<longleftrightarrow> um_ok (m_txsHash p) \<and> distinct (map pn_id (m_txsQueue p)) \<and>
     (\<forall>n \<in> set (m_txsQueue p). pn_id n < pool_next p) \<and>
     sorted (map (\<lambda>n. m_importTime (pn_tx n)) (m_txsQueue p)) \<and>
     (\<forall>n \<in> set (m_txsQueue p). \<exists>h. tx_hash env (pn_tx n) = Inr h \<and> um_find (m_txsHash p) h = Some (pn_id n)) \<and>
     (\<forall>h i. um_find (m_txsHash p) h = Some i \<longrightarrow> (\<exists>n \<in> set (m_txsQueue p). pn_id n = i \<and> tx_hash env (pn_tx n) = Inr h)) \<and>
     length (m_txsQueue p) \<le> m_limit p"

lemma sha3_update [simp]:
  "Transaction_sha3 cr v (t\<lparr>m_sender := a\<rparr>) w = Transaction_sha3 cr v t w"
  "Transaction_sha3 cr v (t\<lparr>m_importTime := x\<rparr>) w = Transaction_sha3 cr v t w"
  by (simp_all add: Transaction_sha3_def Transaction_encode_def Transaction_fields_def receiver_field_def)

lemma tx_hash_update [simp]:
  "tx_hash env (t\<lparr>m_sender := a\<rparr>) = tx_hash env t" "tx_hash env (t\<lparr>m_importTime := x\<rparr>) = tx_hash env t"
  by (simp_all add: tx_hash_def)

lemma set_emplace [simp]: "set (queue_emplace n q) = insert n (set q)"
  by (induction q) auto

lemma length_emplace [simp]: "length (queue_emplace n q) = Suc (length q)"
  by (induction q) auto

lemma distinct_emplace: "distinct (map pn_id (queue_emplace n q)) \<longleftrightarrow> pn_id n \<notin> pn_id ` set q \<and> distinct (map pn_id q)"
  by (induction q) auto

lemma sorted_emplace:
  "sorted (map (\<lambda>n. m_importTime (pn_tx n)) q) \<Longrightarrow> sorted (map (\<lambda>n. m_importTime (pn_tx n)) (queue_emplace n q))"
  by (induction q) (auto simp: transactionCompare_def)

lemma pool_ok_new: "pool_ok env (TxPool_new ch g l)"
  by (simp add: pool_ok_def TxPool_new_def)

text \<open>Most operations change neither the queue nor the index.\<close>

definition same_pool :: "TxPool \<Rightarrow> TxPool \<Rightarrow> bool" where
  "same_pool p q \<longleftrightarrow> m_txsHash q = m_txsHash p \<and> m_txsQueue q = m_txsQueue p \<and> pool_next q = pool_next p \<and>
     m_limit q = m_limit p \<and> pool_groupId q = pool_groupId p"

lemma same_pool_ok: "same_pool p q \<Longrightarrow> pool_ok env q = pool_ok env p"
  by (simp add: same_pool_def pool_ok_def)

lemma same_pool_refl [simp]: "same_pool p p"
  by (simp add: same_pool_def)

lemma same_mod: "(\<And>q. same_pool q (f q)) \<Longrightarrow> keeps (same_pool p) (e_mod f)"
  by (rule keeps_mod) (simp add: same_pool_def)

lemma keeps_same: "(\<And>p. keeps (same_pool p) m) \<Longrightarrow> keeps (pool_ok env) m"
  using same_pool_ok [of _ _ env] same_pool_refl unfolding keeps_def by blast

lemma same_ops:
  "keeps (same_pool p) (pool_event e)" "keeps (same_pool p) (pool_eth v)"
  "keeps (same_pool p) (notify_receipt b r n)" "keeps (same_pool p) (removeTransactionKnowBy h)"
  "keeps (same_pool p) (isBlockLimitOrNonceOk t b)" "keeps (same_pool p) (txPoolNonceCheck t)"
  "keeps (same_pool p) (setTransactionIsKnownBy h x)" "keeps (same_pool p) (setTransactionsAreKnownBy hs x)"
  "keeps (same_pool p) (removeBlockKnowTrans env b')"
  unfolding pool_event_def pool_eth_def notify_receipt_def removeTransactionKnowBy_def isBlockLimitOrNonceOk_def
    txPoolNonceCheck_def setTransactionIsKnownBy_def setTransactionsAreKnownBy_def removeBlockKnowTrans_def
  by (intro keeps_rules same_mod; simp add: same_pool_def)+

lemma same_verify: "keeps (same_pool p) (pool_verify env t d b)"
  unfolding pool_verify_def by (intro keeps_rules same_ops)

text \<open>One transaction enters, and one leaves.\<close>

lemma pool_ok_insert:
  assumes "pool_ok env p" "tx_hash env t = Inr h" "um_find (m_txsHash p) h = None" "length (m_txsQueue p) < m_limit p"
  shows "pool_ok env (p\<lparr>m_txsQueue := queue_emplace \<lparr>pn_id = pool_next p, pn_tx = t, pn_callback = cb\<rparr> (m_txsQueue p),
         m_txsHash := um_set h (pool_next p) (m_txsHash p), pool_next := Suc (pool_next p)\<rparr>)"
proof -
  have fresh: "pn_id n \<noteq> pool_next p" if "n \<in> set (m_txsQueue p)" for n
    using assms(1) that unfolding pool_ok_def by (metis less_irrefl)
  have other: "\<exists>h'. tx_hash env (pn_tx n) = Inr h' \<and> h' \<noteq> h \<and> um_find (m_txsHash p) h' = Some (pn_id n)"
    if "n \<in> set (m_txsQueue p)" for n
    using assms(1,3) that unfolding pool_ok_def by (metis option.distinct(1))
  let ?m = "um_set h (pool_next p) (m_txsHash p)"
    and ?q = "queue_emplace \<lparr>pn_id = pool_next p, pn_tx = t, pn_callback = cb\<rparr> (m_txsQueue p)"
  have index: "\<forall>n \<in> set ?q. \<exists>h'. tx_hash env (pn_tx n) = Inr h' \<and> um_find ?m h' = Some (pn_id n)"
    using other assms(2) by fastforce
  have nodes: "\<forall>h' i. um_find ?m h' = Some i \<longrightarrow> (\<exists>n \<in> set ?q. pn_id n = i \<and> tx_hash env (pn_tx n) = Inr h')"
    using assms(1,2) by (auto simp: pool_ok_def split: if_splits)
  show ?thesis
    unfolding pool_ok_def TxPool.simps
    using assms(1,4) fresh index nodes
    by (intro conjI) (auto simp: pool_ok_def distinct_emplace sorted_emplace less_SucI)
qed

lemma pool_ok_remove:
  assumes "pool_ok env p" "um_find (m_txsHash p) h = Some i"
  shows "pool_ok env (p\<lparr>m_txsQueue := queue_erase i (m_txsQueue p), m_txsHash := um_erase h (m_txsHash p)\<rparr>)"
    and "map pn_tx (queue_erase i (m_txsQueue p)) = filter (\<lambda>t. tx_hash env t \<noteq> Inr h) (map pn_tx (m_txsQueue p))"
proof -
  have node: "pn_id n = i \<longleftrightarrow> tx_hash env (pn_tx n) = Inr h" if "n \<in> set (m_txsQueue p)" for n
  proof
    assume "tx_hash env (pn_tx n) = Inr h"
    then show "pn_id n = i" using assms that unfolding pool_ok_def by force
  next
    assume i: "pn_id n = i"
    obtain n' where n': "n' \<in> set (m_txsQueue p)" "pn_id n' = i" "tx_hash env (pn_tx n') = Inr h"
      using assms unfolding pool_ok_def by blast
    have "inj_on pn_id (set (m_txsQueue p))" using assms(1) by (simp add: pool_ok_def distinct_map)
    then have "n' = n" using n' i that by (auto dest: inj_onD)
    then show "tx_hash env (pn_tx n) = Inr h" using n' by simp
  qed
  have sub: "set (queue_erase i (m_txsQueue p)) \<subseteq> set (m_txsQueue p)" by (auto simp: queue_erase_def)
  show "map pn_tx (queue_erase i (m_txsQueue p)) = filter (\<lambda>t. tx_hash env t \<noteq> Inr h) (map pn_tx (m_txsQueue p))"
    using node by (simp add: queue_erase_def filter_map o_def cong: filter_cong)
  have index: "\<exists>h'. tx_hash env (pn_tx n) = Inr h' \<and> um_find (um_erase h (m_txsHash p)) h' = Some (pn_id n)"
    if "n \<in> set (queue_erase i (m_txsQueue p))" for n
  proof -
    have n: "n \<in> set (m_txsQueue p)" "pn_id n \<noteq> i" using that by (auto simp: queue_erase_def)
    then obtain h' where "tx_hash env (pn_tx n) = Inr h'" "um_find (m_txsHash p) h' = Some (pn_id n)"
      using assms(1) unfolding pool_ok_def by blast
    moreover have "h' \<noteq> h" using calculation n(2) assms(2) by auto
    ultimately show ?thesis by simp
  qed
  have nodes: "\<exists>n \<in> set (queue_erase i (m_txsQueue p)). pn_id n = j \<and> tx_hash env (pn_tx n) = Inr h'"
    if "um_find (um_erase h (m_txsHash p)) h' = Some j" for h' j
  proof -
    have h': "um_find (m_txsHash p) h' = Some j" "h' \<noteq> h" using that by (auto split: if_splits)
    then obtain n where n: "n \<in> set (m_txsQueue p)" "pn_id n = j" "tx_hash env (pn_tx n) = Inr h'"
      using assms(1) unfolding pool_ok_def by blast
    moreover have "pn_id n \<noteq> i" using node [OF n(1)] n(3) h'(2) by simp
    ultimately show ?thesis by (auto simp: queue_erase_def)
  qed
  have "length (queue_erase i (m_txsQueue p)) \<le> m_limit p"
    using assms(1) unfolding pool_ok_def queue_erase_def by (meson length_filter_le order_trans)
  then show "pool_ok env (p\<lparr>m_txsQueue := queue_erase i (m_txsQueue p), m_txsHash := um_erase h (m_txsHash p)\<rparr>)"
    using assms(1) sub index nodes unfolding pool_ok_def TxPool.simps
    by (intro conjI, simp_all) (auto simp: queue_erase_def distinct_map_filter sorted_filter)
qed

section \<open>The operations keep the invariant\<close>

lemma keeps_removeTrans: "keeps (pool_ok env) (removeTrans h b r)"
proof (rule keepsI)
  fix p assume ok: "pool_ok env p"
  show "wp (removeTrans h b r) (\<lambda>_. pool_ok env) p"
  proof (cases "um_find (m_txsHash p) h")
    case (Some i)
    have "wp (notify_receipt b r (queue_node p i)) (\<lambda>_. same_pool p) p"
      by (rule keeps_wp [OF same_ops(3)]) simp
    moreover have "pool_ok env (q\<lparr>m_txsQueue := queue_erase i (m_txsQueue q), m_txsHash := um_erase h (m_txsHash q)\<rparr>)"
      if "same_pool p q" for q
      using pool_ok_remove(1) [of env q h i] that ok Some by (simp add: same_pool_ok) (simp add: same_pool_def)
    ultimately show ?thesis using Some ok unfolding removeTrans_def wp_on
      by (simp add: wp_seq) (erule wp_mono, auto simp: wp_rules same_pool_ok split: sum.splits)
  qed (simp add: removeTrans_def wp_rules ok)
qed

lemma keeps_import: "keeps (pool_ok env) (pool_import env t cb)"
proof (rule keepsI)
  fix p assume ok: "pool_ok env p"
  let ?t = "t\<lparr>m_importTime := word_of_nat (pe_now env)\<rparr>"
  show "wp (pool_import env t cb) (\<lambda>_. pool_ok env) p"
  proof (cases "m_limit p \<le> length (m_txsQueue p)")
    case True
    have "keeps (pool_ok env) (e_seq (case cb of Some c \<Rightarrow> pool_event (PoolCallback c full_receipt) | None \<Rightarrow> e_ret ())
        (e_ret (TransactionPoolIsFull, ?t)))"
      by (intro keeps_same keeps_rules same_ops)
    with True ok show ?thesis unfolding pool_import_def Let_def wp_on by (simp add: keeps_wp)
  next
    case False
    have insert: "wp (pool_insert env t' cb) (\<lambda>_. pool_ok env) q" if "same_pool p q" for t' q
    proof -
      have "pool_ok env q" "length (m_txsQueue q) < m_limit q"
        using that ok False by (simp_all add: same_pool_ok) (simp add: same_pool_def)
      then show ?thesis
        by (auto simp: pool_insert_def pool_eth_def wp_rules map_sum_def split: sum.splits intro: pool_ok_insert)
    qed
    have verify: "wp (pool_verify env ?t Ignore False) (\<lambda>_. same_pool p) p" by (rule keeps_wp [OF same_verify]) simp
    have rest: "wp (if ret = Success then e_bind (pool_insert env t' cb) (\<lambda>inserted.
          e_seq (e_when inserted (e_seq (e_mod (\<lambda>p. p\<lparr>m_commonNonceCheck := insertCache t' (m_commonNonceCheck p)\<rparr>))
              (pool_event PoolReady))) (e_ret (ret, t')))
        else e_ret (ret, t')) (\<lambda>_. pool_ok env) q" if "same_pool p q" for ret t' q
    proof -
      have "keeps (pool_ok env) (e_seq (e_when b (e_seq
          (e_mod (\<lambda>p. p\<lparr>m_commonNonceCheck := insertCache t' (m_commonNonceCheck p)\<rparr>)) (pool_event PoolReady)))
          (e_ret (ret, t')))" for b
        by (intro keeps_same keeps_rules same_ops same_mod) (simp add: same_pool_def)
      note after = keeps_wp [OF this]
      show ?thesis
      proof (cases "ret = Success")
        case True
        then show ?thesis
          unfolding if_P [OF True] wp_bind
          by (intro wp_mono [OF insert [OF that]]) (simp split: sum.splits add: after [unfolded True])
      qed (use ok that in \<open>simp add: wp_ret same_pool_ok\<close>)
    qed
    show ?thesis
      unfolding pool_import_def Let_def wp_on if_not_P [OF False] wp_bind [of "pool_verify _ _ _ _"]
      apply (rule wp_mono [OF verify])
      subgoal for r q using rest [of q] ok same_pool_ok [of p q] by (cases r) (simp_all only: sum.case split_beta)
      done
  qed
qed

lemma keeps_dropTransactions: "keeps (pool_ok env) (dropTransactions env b)"
proof -
  have "keeps (pool_ok env) (dropTransactions_loop env b ts succ)" for ts succ
    by (induction env b ts succ rule: dropTransactions_loop.induct)
      (simp_all only: dropTransactions_loop.simps, (intro keeps_rules keeps_removeTrans keeps_same [OF same_ops(2)] | assumption)+)
  then show ?thesis unfolding dropTransactions_def by (intro keeps_rules)
qed

lemma keeps_blocks:
  "keeps (pool_ok env) (dropBlockTrans env b)" "keeps (pool_ok env) (handleBadBlock b)" "keeps (pool_ok env) (pool_drop h)"
  unfolding dropBlockTrans_def handleBadBlock_def pool_drop_def
  by (intro keeps_rules keeps_dropTransactions keeps_removeTrans keeps_same [OF same_ops(9)] keeps_same [OF same_ops(4)]
      keeps_same [OF same_mod]; simp add: same_pool_def)+

lemma keeps_top: "keeps (pool_ok env) (topTransactions env lim avoid u)"
  unfolding topTransactions_def
  by (intro keeps_rules keeps_removeTrans keeps_same [OF same_ops(2)] keeps_same [OF same_ops(4)] keeps_same [OF same_mod];
      simp add: same_pool_def)

lemma keeps_submit: "keeps (pool_ok env) (submit env t cb)" "keeps (pool_ok env) (import_bytes env d)"
  unfolding submit_def import_bytes_def by (intro keeps_rules keeps_import keeps_same [OF same_ops(2)])+

lemma keeps_clear: "keeps (pool_ok env) pool_clear"
  unfolding pool_clear_def by (rule keeps_mod) (simp add: pool_ok_def)

section \<open>The pool at work\<close>

text \<open>The calls of the other components: of the RPC server and the synchronisation (import and submission of
transactions, what the peers know), of the consensus engine (committed and bad blocks) and of the sealer (the
top transactions). The environment is the one of the moment of the call; the hash function and the
format of the transactions are fixed.\<close>

inductive pool_step :: "pool_env \<Rightarrow> TxPool \<Rightarrow> TxPool \<Rightarrow> bool" for env0 where
  Import: "pe_crypto env = pe_crypto env0 \<Longrightarrow> pe_rc2 env = pe_rc2 env0 \<Longrightarrow> pool_step env0 p (snd (pool_import env t cb p))"
| ImportBytes: "pe_crypto env = pe_crypto env0 \<Longrightarrow> pe_rc2 env = pe_rc2 env0 \<Longrightarrow> pool_step env0 p (snd (import_bytes env d p))"
| Submit: "pe_crypto env = pe_crypto env0 \<Longrightarrow> pe_rc2 env = pe_rc2 env0 \<Longrightarrow> pool_step env0 p (snd (submit env t cb p))"
| Committed: "pe_crypto env = pe_crypto env0 \<Longrightarrow> pe_rc2 env = pe_rc2 env0 \<Longrightarrow> pool_step env0 p (snd (dropBlockTrans env b p))"
| Bad: "pool_step env0 p (snd (handleBadBlock b p))"
| Drop: "pool_step env0 p (snd (pool_drop h p))"
| Top: "pe_crypto env = pe_crypto env0 \<Longrightarrow> pe_rc2 env = pe_rc2 env0 \<Longrightarrow> pool_step env0 p (snd (topTransactions env lim avoid u p))"
| Known: "pool_step env0 p (snd (setTransactionsAreKnownBy hs nodeId p))"
| Clear: "pool_step env0 p (snd (pool_clear p))"

definition pool_started :: "TxPool \<Rightarrow> bool" where
  "pool_started p \<longleftrightarrow> (\<exists>ch g l. p = TxPool_new ch g l)"

lemma pool_ok_env: "pe_crypto env = pe_crypto env0 \<Longrightarrow> pe_rc2 env = pe_rc2 env0 \<Longrightarrow> pool_ok env = pool_ok env0"
  by (rule ext) (simp add: pool_ok_def tx_hash_def)

lemma pool_step_ok:
  assumes "pool_ok env p" "pool_step env p q"
  shows "pool_ok env q"
  using assms(2)
proof cases
  case (Import env' t cb)
  with assms(1) keepsD [OF keeps_import, of env' p] pool_ok_env [of env' env] show ?thesis by simp
next
  case (ImportBytes env' d)
  with assms(1) keepsD [OF keeps_submit(2), of env' p] pool_ok_env [of env' env] show ?thesis by simp
next
  case (Submit env' t cb)
  with assms(1) keepsD [OF keeps_submit(1), of env' p] pool_ok_env [of env' env] show ?thesis by simp
next
  case (Committed env' b)
  with assms(1) keepsD [OF keeps_blocks(1), of env' p] pool_ok_env [of env' env] show ?thesis by simp
next
  case (Top env' lim avoid u)
  with assms(1) keepsD [OF keeps_top, of env' p] pool_ok_env [of env' env] show ?thesis by simp
next
  case Bad
  then show ?thesis using assms(1) keepsD [OF keeps_blocks(2)] by blast
next
  case Drop
  then show ?thesis using assms(1) keepsD [OF keeps_blocks(3)] by blast
next
  case Known
  then show ?thesis using assms(1) keepsD [OF keeps_same [OF same_ops(8)]] by blast
next
  case Clear
  then show ?thesis using assms(1) keepsD [OF keeps_clear] by blast
qed

interpretation pool: invariant_system pool_started "pool_step env" "pool_ok env" for env
  by unfold_locales (auto simp: pool_started_def pool_ok_new intro: pool_step_ok)

section \<open>The pool as a list of transactions\<close>

lemma pending_emplace: "map pn_tx (queue_emplace n q) = insort_key m_importTime (pn_tx n) (map pn_tx q)"
  by (induction q) (simp_all add: transactionCompare_def)

lemma find_pending:
  assumes "pool_ok env p"
  shows "um_find (m_txsHash p) h = None \<longleftrightarrow> Inr h \<notin> tx_hash env ` set (pendingList p)"
proof -
  have "um_find (m_txsHash p) h \<noteq> None" if "n \<in> set (m_txsQueue p)" "tx_hash env (pn_tx n) = Inr h" for n
    using assms that unfolding pool_ok_def by (metis option.distinct(1) sum.inject(2))
  moreover have "Inr h \<in> tx_hash env ` set (pendingList p)" if "um_find (m_txsHash p) h = Some i" for i
  proof -
    obtain n where "n \<in> set (m_txsQueue p)" "tx_hash env (pn_tx n) = Inr h" using assms \<open>um_find (m_txsHash p) h = Some i\<close> unfolding pool_ok_def by blast
    then show ?thesis by (auto simp: pendingList_def intro!: image_eqI [of _ _ "pn_tx n"])
  qed
  ultimately show ?thesis
    by (cases "um_find (m_txsHash p) h") (auto simp: pendingList_def, metis)
qed

lemma notify_run: "\<exists>ev. notify_receipt b r n p = (Inr (), p\<lparr>pool_events := ev\<rparr>)"
proof -
  have "\<exists>ev. e_ret () p = (Inr (), p\<lparr>pool_events := ev\<rparr>)"
    by (rule exI [of _ "pool_events p"]) (simp add: e_ret_def)
  moreover have "\<exists>ev. pool_event e p = (Inr (), p\<lparr>pool_events := ev\<rparr>)" for e
    by (rule exI [of _ "pool_events p @ [e]"]) (simp add: pool_event_def e_mod_def)
  ultimately show ?thesis
    unfolding notify_receipt_def e_when_def by (cases r; cases n; cases b) (auto split: option.splits)
qed

lemma removeTrans_run:
  assumes "pool_ok env p"
  shows "\<exists>q. removeTrans h b r p = (Inr (Inr h \<in> tx_hash env ` set (pendingList p)), q) \<and>
    pendingList q = filter (\<lambda>t. tx_hash env t \<noteq> Inr h) (pendingList p) \<and> m_txNonceCheck q = m_txNonceCheck p \<and>
    m_commonNonceCheck q = m_commonNonceCheck p \<and> m_dropped q = m_dropped p \<and> m_limit q = m_limit p"
proof (cases "um_find (m_txsHash p) h")
  case None
  then have "Inr h \<notin> tx_hash env ` set (pendingList p)" using find_pending [OF assms] by blast
  moreover have "filter (\<lambda>t. tx_hash env t \<noteq> Inr h) (pendingList p) = pendingList p"
    using calculation by (metis (mono_tags, lifting) filter_True image_eqI)
  ultimately show ?thesis using None by (simp add: removeTrans_def e_on_def e_ret_def)
next
  case (Some i)
  obtain ev where "notify_receipt b r (queue_node p i) p = (Inr (), p\<lparr>pool_events := ev\<rparr>)" using notify_run by blast
  then have "removeTrans h b r p = (Inr True, p\<lparr>pool_events := ev, m_txsQueue := queue_erase i (m_txsQueue p),
      m_txsHash := um_erase h (m_txsHash p)\<rparr>)"
    using Some by (simp add: removeTrans_def e_on_def e_seq_def e_bind_def e_mod_def e_ret_def)
  moreover have "Inr h \<in> tx_hash env ` set (pendingList p)" using Some find_pending [OF assms, of h] by auto
  ultimately show ?thesis using pool_ok_remove(2) [OF assms Some] by (simp add: pendingList_def)
qed

lemma insert_run:
  assumes "pool_ok env p" "tx_hash env t = Inr h"
  shows "if Inr h \<in> tx_hash env ` set (pendingList p) then pool_insert env t cb p = (Inr False, p)
    else \<exists>q. pool_insert env t cb p = (Inr True, q) \<and> pendingList q = insort_key m_importTime t (pendingList p) \<and>
      m_txNonceCheck q = m_txNonceCheck p \<and> m_commonNonceCheck q = m_commonNonceCheck p \<and> m_dropped q = m_dropped p"
  using find_pending [OF assms(1), of h] assms(2)
  by (auto simp: pool_insert_def pool_eth_def e_bind_def e_lift_def e_on_def e_ret_def e_seq_def e_mod_def
      pendingList_def pending_emplace)

text \<open>The conditions for a transaction to enter the pool.\<close>

definition acceptable :: "pool_env \<Rightarrow> TxPool \<Rightarrow> Transaction \<Rightarrow> bool" where
  "acceptable env p t \<longleftrightarrow> length (pendingList p) < m_limit p \<and>
     (\<exists>h. tx_hash env t = Inr h \<and> Inr h \<notin> tx_hash env ` set (pendingList p) \<and> h \<notin> m_dropped p) \<and>
     m_nonce t \<noteq> Invalid256 \<and> isBlockLimitOk (m_txNonceCheck p) t \<and> m_nonce t \<notin> nonce_cache (m_txNonceCheck p) \<and>
     (\<exists>a. tx_sender env t = Inr a) \<and> m_nonce t \<notin> m_commonNonceCheck p \<and>
     checkChainIdAndGroupId (pe_rc2 env) t (pe_chainId env) (pool_groupId p)"

lemma tx_sender_update [simp]: "tx_sender env (t\<lparr>m_importTime := x\<rparr>) = tx_sender env t"
  by (simp add: tx_sender_def Transaction_sender_def split: option.split)

lemma check_updates [simp]:
  "isBlockLimitOk nc (t\<lparr>m_importTime := x\<rparr>) = isBlockLimitOk nc t"
  "checkChainIdAndGroupId v (t\<lparr>m_importTime := x\<rparr>) c g = checkChainIdAndGroupId v t c g"
  "checkChainIdAndGroupId v (t\<lparr>m_sender := a\<rparr>) c g = checkChainIdAndGroupId v t c g"
  by (simp_all add: isBlockLimitOk_def checkChainIdAndGroupId_def)

lemmas pool_run = e_bind_def e_seq_def e_on_def e_ret_def e_mod_def e_lift_def e_when_def pool_eth_def pool_event_def

lemma verify_run:
  fixes t :: Transaction and x :: u256
  assumes "pool_ok env p" "length (m_txsQueue p) < m_limit p"
  defines "t' \<equiv> t\<lparr>m_importTime := x\<rparr>"
  shows "if acceptable env p t
    then \<exists>a. tx_sender env t = Inr a \<and>
      pool_verify env t' Ignore False p = (Inr (Success, t'\<lparr>m_sender := a\<rparr>), p\<lparr>m_commonNonceCheck := insert (m_nonce t) (m_commonNonceCheck p)\<rparr>)
    else (\<exists>r q. pool_verify env t' Ignore False p = (r, q) \<and> same_pool p q \<and> (\<forall>x. r \<noteq> Inr (Success, x)))"
proof -
  note parts = pool_verify_def isBlockLimitOrNonceOk_def txPoolNonceCheck_def nonce_ok_def isNonceOk_def generateKey_def
  consider (nohash) e where "tx_hash env t = Inl e"
    | (known) h where "tx_hash env t = Inr h" "Inr h \<in> tx_hash env ` set (pendingList p)"
    | (fresh) h where "tx_hash env t = Inr h" "Inr h \<notin> tx_hash env ` set (pendingList p)"
    by (cases "tx_hash env t") auto
  then show ?thesis
  proof cases
    case nohash
    then show ?thesis by (simp add: acceptable_def pool_verify_def pool_run t'_def)
  next
    case known
    then have "um_find (m_txsHash p) h \<noteq> None" using find_pending [OF assms(1), of h] by blast
    with known show ?thesis by (auto simp: acceptable_def pool_verify_def pool_run t'_def)
  next
    case fresh
    then have f: "um_find (m_txsHash p) h = None" using find_pending [OF assms(1), of h] by blast
    let ?nc = "m_txNonceCheck p"
    consider "h \<in> m_dropped p" | "m_nonce t = Invalid256 \<or> \<not> isBlockLimitOk ?nc t \<or> m_nonce t \<in> nonce_cache ?nc" "h \<notin> m_dropped p"
      | (go) "h \<notin> m_dropped p" "m_nonce t \<noteq> Invalid256" "isBlockLimitOk ?nc t" "m_nonce t \<notin> nonce_cache ?nc" by blast
    then show ?thesis
    proof cases
      case go
      show ?thesis
      proof (cases "tx_sender env t")
        case (Inr a)
        then show ?thesis using fresh f go assms(2)
          by (auto simp: acceptable_def parts pool_run t'_def pendingList_def same_pool_def Let_def)
      qed (use fresh f go in \<open>simp add: acceptable_def parts pool_run t'_def same_pool_def\<close>)
    qed (use fresh f in \<open>auto simp: acceptable_def parts pool_run t'_def same_pool_def\<close>)
  qed
qed

text \<open>The transactions handed to the sealer: the oldest ones that are within their block limit and not to be
avoided. The transactions in a pool have different hashes.\<close>

definition sealable :: "pool_env \<Rightarrow> TransactionNonceCheck \<Rightarrow> h256 set \<Rightarrow> Transaction \<Rightarrow> bool" where
  "sealable env nc avoid t \<longleftrightarrow> isBlockLimitOk nc t \<and> tx_hash env t \<notin> Inr ` avoid"

definition expired_hashes :: "pool_env \<Rightarrow> TransactionNonceCheck \<Rightarrow> PoolNode list \<Rightarrow> h256 set" where
  "expired_hashes env nc ns = {h. \<exists>n \<in> set ns. tx_hash env (pn_tx n) = Inr h \<and> \<not> isBlockLimitOk nc (pn_tx n)}"

lemma expired_Cons: "tx_hash env (pn_tx n) = Inr h \<Longrightarrow> expired_hashes env nc (n # ns) =
    (if isBlockLimitOk nc (pn_tx n) then expired_hashes env nc ns else insert h (expired_hashes env nc ns))"
  by (auto simp: expired_hashes_def)

lemma bind_eth: "e_bind (pool_eth (Inr a)) f p = f a p"
  by (simp add: e_bind_def pool_eth_def e_lift_def)

lemma pool_hashes:
  assumes "pool_ok env p"
  shows "\<forall>n \<in> set (m_txsQueue p). \<exists>h. tx_hash env (pn_tx n) = Inr h" "distinct (map (\<lambda>n. tx_hash env (pn_tx n)) (m_txsQueue p))"
proof -
  show "\<forall>n \<in> set (m_txsQueue p). \<exists>h. tx_hash env (pn_tx n) = Inr h" using assms unfolding pool_ok_def by blast
  have "inj_on (\<lambda>n. tx_hash env (pn_tx n)) (set (m_txsQueue p))"
  proof (rule inj_onI)
    fix m n assume mn: "m \<in> set (m_txsQueue p)" "n \<in> set (m_txsQueue p)" "tx_hash env (pn_tx m) = tx_hash env (pn_tx n)"
    then have "pn_id m = pn_id n" using assms unfolding pool_ok_def by (metis option.inject sum.inject(2))
    moreover have "inj_on pn_id (set (m_txsQueue p))" using assms by (simp add: pool_ok_def distinct_map)
    ultimately show "m = n" using mn by (auto dest: inj_onD)
  qed
  moreover have "distinct (m_txsQueue p)" using assms unfolding pool_ok_def by (simp add: distinct_map)
  ultimately show "distinct (map (\<lambda>n. tx_hash env (pn_tx n)) (m_txsQueue p))" by (simp add: distinct_map)
qed

lemma top_loop_run:
  assumes "\<forall>n \<in> set ns. \<exists>h. tx_hash env (pn_tx n) = Inr h" "distinct (map (\<lambda>n. tx_hash env (pn_tx n)) ns)"
    and "\<forall>n \<in> set ns. tx_hash env (pn_tx n) \<in> Inr ` ts_avoid a \<longleftrightarrow> tx_hash env (pn_tx n) \<in> Inr ` avoid"
  shows "\<exists>a'. top_loop env nc lim u ns a = Inr a' \<and>
    ts_ret a' = ts_ret a @ take (lim - length (ts_ret a)) (filter (sealable env nc avoid) (map pn_tx ns)) \<and>
    set (ts_expired a') \<subseteq> set (ts_expired a) \<union> expired_hashes env nc ns"
  using assms
proof (induction ns arbitrary: a)
  case (Cons n ns)
  obtain h where h: "tx_hash env (pn_tx n) = Inr h" using Cons.prems(1) by auto
  have sealable: "sealable env nc avoid (pn_tx n) \<longleftrightarrow> isBlockLimitOk nc (pn_tx n) \<and> h \<notin> avoid"
    using h by (auto simp: sealable_def)
  have rest: "\<forall>m \<in> set ns. tx_hash env (pn_tx m) \<noteq> Inr h" using Cons.prems(2) h by force
  show ?case
  proof (cases "length (ts_ret a) < lim")
    case False
    then show ?thesis by simp
  next
    case lim: True
    let ?e = "a\<lparr>ts_expired := ts_expired a @ [h], ts_keys := ts_keys a @ [generateKey (pn_tx n)]\<rparr>"
    let ?r = "a\<lparr>ts_ret := ts_ret a @ [pn_tx n], ts_avoid := (if u then insert h (ts_avoid a) else ts_avoid a)\<rparr>"
    consider (expired) "\<not> isBlockLimitOk nc (pn_tx n)" | (avoided) "isBlockLimitOk nc (pn_tx n)" "h \<in> avoid"
      | (taken) "isBlockLimitOk nc (pn_tx n)" "h \<notin> avoid" by blast
    then show ?thesis
    proof cases
      case expired
      moreover have "\<exists>a'. top_loop env nc lim u ns ?e = Inr a' \<and>
          ts_ret a' = ts_ret ?e @ take (lim - length (ts_ret ?e)) (filter (sealable env nc avoid) (map pn_tx ns)) \<and>
          set (ts_expired a') \<subseteq> set (ts_expired ?e) \<union> expired_hashes env nc ns"
        by (rule Cons.IH) (use Cons.prems in auto)
      ultimately show ?thesis using lim h by (auto simp: sealable expired_Cons [OF h])
    next
      case avoided
      moreover have "h \<in> ts_avoid a" using Cons.prems(3) avoided h by auto
      moreover have "\<exists>a'. top_loop env nc lim u ns a = Inr a' \<and>
          ts_ret a' = ts_ret a @ take (lim - length (ts_ret a)) (filter (sealable env nc avoid) (map pn_tx ns)) \<and>
          set (ts_expired a') \<subseteq> set (ts_expired a) \<union> expired_hashes env nc ns"
        by (rule Cons.IH) (use Cons.prems in auto)
      ultimately show ?thesis using lim h by (auto simp: sealable expired_Cons [OF h])
    next
      case taken
      moreover have "h \<notin> ts_avoid a" using Cons.prems(3) taken h by auto
      moreover have "\<exists>a'. top_loop env nc lim u ns ?r = Inr a' \<and>
          ts_ret a' = ts_ret ?r @ take (lim - length (ts_ret ?r)) (filter (sealable env nc avoid) (map pn_tx ns)) \<and>
          set (ts_expired a') \<subseteq> set (ts_expired ?r) \<union> expired_hashes env nc ns"
        by (rule Cons.IH) (use Cons.prems rest in auto)
      moreover have "lim - length (ts_ret a) = Suc (lim - Suc (length (ts_ret a)))" using lim by simp
      ultimately show ?thesis using lim h by (auto simp: sealable expired_Cons [OF h])
    qed
  qed
qed simp

text \<open>When the hashes to avoid are updated, the transactions are new and different.\<close>

lemma top_loop_fresh:
  assumes "top_loop env nc lim True ns a = Inr a'"
  shows "\<exists>new. ts_ret a' = ts_ret a @ new \<and> distinct (map (tx_hash env) new) \<and>
    tx_hash env ` set new \<inter> Inr ` ts_avoid a = {} \<and> Inr ` ts_avoid a' = Inr ` ts_avoid a \<union> tx_hash env ` set new \<and>
    length new \<le> lim - length (ts_ret a)"
  using assms
proof (induction ns arbitrary: a)
  case (Cons n ns)
  show ?case
  proof (cases "length (ts_ret a) < lim")
    case lim: True
    obtain h where h: "tx_hash env (pn_tx n) = Inr h" using Cons.prems lim by (cases "tx_hash env (pn_tx n)") auto
    consider (expired) "\<not> isBlockLimitOk nc (pn_tx n)" | "isBlockLimitOk nc (pn_tx n)" "h \<in> ts_avoid a"
      | (taken) "isBlockLimitOk nc (pn_tx n)" "h \<notin> ts_avoid a" by blast
    then show ?thesis
    proof cases
      case expired
      then show ?thesis using Cons.prems lim h
        Cons.IH [of "a\<lparr>ts_expired := ts_expired a @ [h], ts_keys := ts_keys a @ [generateKey (pn_tx n)]\<rparr>"] by simp
    next
      case taken
      let ?r = "a\<lparr>ts_ret := ts_ret a @ [pn_tx n], ts_avoid := insert h (ts_avoid a)\<rparr>"
      obtain new where "ts_ret a' = ts_ret ?r @ new" "distinct (map (tx_hash env) new)"
        "tx_hash env ` set new \<inter> Inr ` ts_avoid ?r = {}" "Inr ` ts_avoid a' = Inr ` ts_avoid ?r \<union> tx_hash env ` set new"
        "length new \<le> lim - length (ts_ret ?r)"
        using Cons.IH [of ?r] Cons.prems lim taken h by auto
      then show ?thesis using lim h taken by (intro exI [of _ "pn_tx n # new"]) auto
    qed (use Cons.prems Cons.IH lim h in auto)
  qed (use Cons.prems in auto)
qed simp

text \<open>The removal of the expired transactions after the scan.\<close>

lemma top_cleanup:
  assumes "pool_ok env p"
  shows "wp (e_seq (e_iter (\<lambda>h. e_bind (removeTrans h False None) (\<lambda>_.
         e_mod (\<lambda>p. p\<lparr>m_dropped := insert h (m_dropped p)\<rparr>))) hs)
     (e_seq (e_iter (\<lambda>k. e_mod (\<lambda>p. p\<lparr>m_commonNonceCheck := delCache_key k (m_commonNonceCheck p)\<rparr>)) ks)
     (e_seq (e_iter removeTransactionKnowBy hs) (e_ret x))))
    (\<lambda>r q. r = Inr x \<and> pendingList q = filter (\<lambda>t. tx_hash env t \<notin> Inr ` set hs) (pendingList p)) p"
proof -
  let ?P = "\<lambda>ys q. pool_ok env q \<and> pendingList q = filter (\<lambda>t. tx_hash env t \<notin> Inr ` set ys) (pendingList p)"
  have "wp (e_iter (\<lambda>h. e_bind (removeTrans h False None) (\<lambda>_.
         e_mod (\<lambda>p. p\<lparr>m_dropped := insert h (m_dropped p)\<rparr>))) hs) (\<lambda>r q. r = Inr () \<and> ?P hs q) p"
  proof (rule wp_iter)
    fix ys h zs q assume q: "?P ys q"
    obtain q' b where q': "removeTrans h False None q = (Inr b, q')"
      "pendingList q' = filter (\<lambda>t. tx_hash env t \<noteq> Inr h) (pendingList q)"
      using removeTrans_run [of env q h False None] q by blast
    have "pool_ok env q'" using keepsD [OF keeps_removeTrans, of env q h False None] q q'(1) by simp
    with q q' show "wp (e_bind (removeTrans h False None) (\<lambda>_. e_mod (\<lambda>p. p\<lparr>m_dropped := insert h (m_dropped p)\<rparr>)))
        (\<lambda>r q. r = Inr () \<and> ?P (ys @ [h]) q) q"
      by (auto simp: wp_def e_bind_def e_mod_def pendingList_def pool_ok_def conj_commute intro: filter_cong)
  qed (use assms in simp)
  moreover have "wp (e_iter (\<lambda>k. e_mod (\<lambda>p. p\<lparr>m_commonNonceCheck := delCache_key k (m_commonNonceCheck p)\<rparr>)) ks)
      (\<lambda>r t. r = Inr () \<and> pendingList t = pendingList q) q" for q
    by (rule wp_iter [where P = "\<lambda>ys t. pendingList t = pendingList q"]) (simp_all add: wp_rules pendingList_def)
  moreover have "wp (e_iter removeTransactionKnowBy hs) (\<lambda>r t. r = Inr () \<and> pendingList t = pendingList q) q" for q
    by (rule wp_iter [where P = "\<lambda>ys t. pendingList t = pendingList q"])
       (simp_all add: removeTransactionKnowBy_def wp_rules pendingList_def)
  ultimately show ?thesis
    unfolding wp_seq by (fastforce simp: wp_ret elim!: wp_mono)
qed

lemma top_run:
  assumes "pool_ok env p"
  obtains a q where "top_loop env (m_txNonceCheck p) (min (m_limit p) lim) u (m_txsQueue p)
      \<lparr>ts_ret = [], ts_avoid = avoid, ts_expired = [], ts_keys = []\<rparr> = Inr a"
    "ts_ret a = take (min (m_limit p) lim) (filter (sealable env (m_txNonceCheck p) avoid) (pendingList p))"
    "set (ts_expired a) \<subseteq> expired_hashes env (m_txNonceCheck p) (m_txsQueue p)"
    "topTransactions env lim avoid u p = (Inr (ts_ret a, ts_avoid a), q)"
    "pendingList q = filter (\<lambda>t. tx_hash env t \<notin> Inr ` set (ts_expired a)) (pendingList p)"
proof -
  let ?nc = "m_txNonceCheck p"
  obtain a where a: "top_loop env ?nc (min (m_limit p) lim) u (m_txsQueue p)
      \<lparr>ts_ret = [], ts_avoid = avoid, ts_expired = [], ts_keys = []\<rparr> = Inr a"
    "ts_ret a = take (min (m_limit p) lim) (filter (sealable env ?nc avoid) (pendingList p))"
    "set (ts_expired a) \<subseteq> expired_hashes env ?nc (m_txsQueue p)"
    using top_loop_run [OF pool_hashes [OF assms], of "\<lparr>ts_ret = [], ts_avoid = avoid, ts_expired = [], ts_keys = []\<rparr>"
      avoid ?nc "min (m_limit p) lim" u] by (auto simp: pendingList_def)
  note clean = top_cleanup [OF assms, of "ts_expired a" "ts_keys a" "(ts_ret a, ts_avoid a)"]
  obtain q where "topTransactions env lim avoid u p = (Inr (ts_ret a, ts_avoid a), q)"
    "pendingList q = filter (\<lambda>t. tx_hash env t \<notin> Inr ` set (ts_expired a)) (pendingList p)"
    using clean a(1) by (auto simp: topTransactions_def wp_def e_on_def bind_eth)
  then show thesis using that a by blast
qed

section \<open>Properties\<close>

text \<open>C16: In every state that the transaction pool reaches, the hash index and the queue hold the same
transactions: each transaction of the queue is found under its hash, each entry of the index is an iterator to a
transaction with that hash, the queue is ordered by import time and holds no more transactions than the
limit.\<close>

theorem pool_invariant:
  assumes "pool_started p" "(pool_step env)\<^sup>*\<^sup>* p q"
  shows "pool_ok env q"
  using assms by (rule pool.reachable_inv)

definition pool_demo_env :: pool_env where
  "pool_demo_env = \<lparr>pe_now = 100, pe_crypto = \<lparr>sha3 = (\<lambda>b. of_nat (length b)), recover = (\<lambda>g h. 1),
     sign = (\<lambda>k h. ucast h), verify = (\<lambda>p g h. True)\<rparr>, pe_rc2 = True, pe_chainId = 1, pe_chain = demo_chain 3\<rparr>"

definition pool_demo_tx :: Transaction where
  "pool_demo_tx = null_transaction\<lparr>m_type := MessageCall, m_nonce := 4, m_receiveAddress := 9, m_blockLimit := 500,
     m_chainId := 1, m_groupId := 1, m_vrs := Some \<lparr>sig_r = 1, sig_s = 2, sig_v = 0\<rparr>, m_sender := 5\<rparr>"

definition pool_demo :: TxPool where
  "pool_demo = TxPool_new (demo_chain 3) 1 10"

lemma pool_demo_hash_nonce: "\<exists>h. tx_hash pool_demo_env (pool_demo_tx\<lparr>m_nonce := x\<rparr>) = Inr h"
proof -
  have "Transaction_wire True (pool_demo_tx\<lparr>m_nonce := x, m_sender := 0\<rparr>)"
    by (simp add: Transaction_wire_def pool_demo_tx_def null_transaction_def)
  from Transaction_encode_items [OF this, of "\<lparr>sig_r = 1, sig_s = 2, sig_v = 0\<rparr>"]
  have "\<exists>h. tx_hash pool_demo_env (pool_demo_tx\<lparr>m_nonce := x, m_sender := 0\<rparr>) = Inr h"
    by (simp add: tx_hash_def Transaction_sha3_def pool_demo_env_def pool_demo_tx_def)
  then show ?thesis by (simp only: tx_hash_update)
qed

lemma pool_demo_hash: "\<exists>h. tx_hash pool_demo_env pool_demo_tx = Inr h"
proof -
  have "pool_demo_tx\<lparr>m_nonce := 4\<rparr> = pool_demo_tx" by (simp add: pool_demo_tx_def null_transaction_def)
  then show ?thesis using pool_demo_hash_nonce [of 4] by simp
qed

lemma pool_demo_ok: "pool_ok pool_demo_env pool_demo"
  by (simp add: pool_demo_def pool_ok_new)

lemma pool_demo_nonce:
  "m_blockNumber (TransactionNonceCheck_new (demo_chain 3)) = 3" "m_maxBlockLimit (TransactionNonceCheck_new (demo_chain 3)) = 1000"
  "nonce_cache (TransactionNonceCheck_new (demo_chain 3)) = {7}"
proof -
  note w = TransactionNonceCheck_new_window [OF demo_serves [of 3]]
  show n: "m_blockNumber (TransactionNonceCheck_new (demo_chain 3)) = 3" "m_maxBlockLimit (TransactionNonceCheck_new (demo_chain 3)) = 1000"
    using w by (simp_all add: window_def demo_chain_def)
  have "{1..3 :: int} = {1, 2, 3}" by auto
  then show "nonce_cache (TransactionNonceCheck_new (demo_chain 3)) = {7}"
    using w n by (auto simp: window_def demo_nonces_def demo_chain_def)
qed

lemma pool_demo_acceptable: "acceptable pool_demo_env pool_demo pool_demo_tx"
proof -
  have "tx_sender pool_demo_env pool_demo_tx = Inr 5"
    by (simp add: tx_sender_def Transaction_sender_def pool_demo_tx_def)
  then show ?thesis
    using pool_demo_hash
    by (simp add: acceptable_def pool_demo_def TxPool_new_def pendingList_def isBlockLimitOk_def pool_demo_nonce Invalid256_def
        i64_def checkChainIdAndGroupId_def) (simp add: pool_demo_tx_def pool_demo_env_def)
qed

theorem pool_invariant_witness:
  "pool_ok pool_demo_env (snd (pool_import pool_demo_env pool_demo_tx None pool_demo))"
proof -
  have "pool_started pool_demo" unfolding pool_started_def pool_demo_def by blast
  moreover have "(pool_step pool_demo_env)\<^sup>*\<^sup>* pool_demo (snd (pool_import pool_demo_env pool_demo_tx None pool_demo))"
    by (intro r_into_rtranclp pool_step.Import refl)
  ultimately show ?thesis by (rule pool_invariant)
qed

text \<open>C17: The queue with its index implements a list of transactions in the order of their import times. A
lookup in the index tells whether a transaction with that hash is in the list, an insertion is the
ordered insertion into the list when the hash is new and changes nothing otherwise, and a removal by hash
removes the transaction with that hash and reports whether there was one.\<close>

theorem pool_refines_list:
  assumes "pool_ok env p" "tx_hash env t = Inr k"
  shows "(um_find (m_txsHash p) h \<noteq> None \<longleftrightarrow> Inr h \<in> tx_hash env ` set (pendingList p)) \<and>
    (\<exists>q. removeTrans h b r p = (Inr (Inr h \<in> tx_hash env ` set (pendingList p)), q) \<and>
      pendingList q = filter (\<lambda>t. tx_hash env t \<noteq> Inr h) (pendingList p)) \<and>
    (\<exists>q. pool_insert env t cb p = (Inr (Inr k \<notin> tx_hash env ` set (pendingList p)), q) \<and>
      pendingList q = (if Inr k \<in> tx_hash env ` set (pendingList p) then pendingList p
        else insort_key m_importTime t (pendingList p)))"
  using find_pending [OF assms(1), of h] removeTrans_run [OF assms(1), of h b r] insert_run [OF assms, of cb]
  by (auto split: if_splits)

theorem pool_refines_list_witness:
  "\<exists>q. pool_insert pool_demo_env pool_demo_tx None pool_demo = (Inr True, q) \<and> pendingList q = [pool_demo_tx]"
proof -
  obtain k where k: "tx_hash pool_demo_env pool_demo_tx = Inr k" using pool_demo_hash by blast
  have "pendingList pool_demo = []" by (simp add: pool_demo_def TxPool_new_def pendingList_def)
  with pool_refines_list [OF pool_demo_ok k, of k False None None] show ?thesis by auto
qed



text \<open>C34: A transaction for another chain or group that passes all other checks is refused, but its nonce stays
reserved: after the refused import no transaction with this nonce is acceptable, whoever sends it.\<close>

theorem wrong_chain_burns_nonce:
  assumes "pool_ok env p" "length (pendingList p) < m_limit p" "tx_hash env t = Inr h"
    and "Inr h \<notin> tx_hash env ` set (pendingList p)" "h \<notin> m_dropped p" "m_nonce t \<noteq> Invalid256"
    and "isBlockLimitOk (m_txNonceCheck p) t" "m_nonce t \<notin> nonce_cache (m_txNonceCheck p)"
    and "tx_sender env t = Inr a" "m_nonce t \<notin> m_commonNonceCheck p"
    and "\<not> checkChainIdAndGroupId (pe_rc2 env) t (pe_chainId env) (pool_groupId p)"
  shows "\<exists>t' q. pool_import env t cb p = (Inr (InvalidChainIdOrGroupId, t'), q) \<and> pendingList q = pendingList p \<and>
    (\<forall>env' u. m_nonce u = m_nonce t \<longrightarrow> \<not> acceptable env' q u)"
proof -
  have "um_find (m_txsHash p) h = None" using find_pending [OF assms(1), of h] assms(4) by blast
  then show ?thesis
    using assms by (simp add: pool_import_def Let_def pool_verify_def isBlockLimitOrNonceOk_def txPoolNonceCheck_def
        nonce_ok_def isNonceOk_def generateKey_def pool_run pendingList_def acceptable_def)
qed

theorem wrong_chain_burns_nonce_witness:
  "\<exists>t' q. pool_import (pool_demo_env\<lparr>pe_chainId := 2\<rparr>) pool_demo_tx None pool_demo = (Inr (InvalidChainIdOrGroupId, t'), q) \<and>
    \<not> acceptable pool_demo_env q pool_demo_tx"
proof -
  let ?e = "pool_demo_env\<lparr>pe_chainId := 2\<rparr>"
  have hash: "tx_hash ?e = tx_hash pool_demo_env" by (rule ext) (simp add: tx_hash_def)
  obtain h where h: "tx_hash ?e pool_demo_tx = Inr h" using pool_demo_hash hash by auto
  have ok: "pool_ok ?e pool_demo" by (simp add: pool_demo_def pool_ok_new)
  have a: "tx_sender ?e pool_demo_tx = Inr 5" by (simp add: tx_sender_def Transaction_sender_def pool_demo_tx_def)
  have c: "\<not> checkChainIdAndGroupId (pe_rc2 ?e) pool_demo_tx (pe_chainId ?e) (pool_groupId pool_demo)"
    by (simp add: checkChainIdAndGroupId_def pool_demo_env_def pool_demo_tx_def)
  from pool_demo_acceptable have "length (pendingList pool_demo) < m_limit pool_demo" "h \<notin> m_dropped pool_demo"
    "Inr h \<notin> tx_hash ?e ` set (pendingList pool_demo)" "m_nonce pool_demo_tx \<noteq> Invalid256"
    "isBlockLimitOk (m_txNonceCheck pool_demo) pool_demo_tx" "m_nonce pool_demo_tx \<notin> nonce_cache (m_txNonceCheck pool_demo)"
    "m_nonce pool_demo_tx \<notin> m_commonNonceCheck pool_demo"
    using h hash by (auto simp: acceptable_def)
  from wrong_chain_burns_nonce [OF ok this(1) h this(3,2,4-6) a this(7) c, of None] show ?thesis by blast
qed

text \<open>C33: The transactions that the sealer gets are the oldest pending ones that are within their block limit and
not in the set to be avoided, as many as asked for or as there are. Only transactions beyond
their block limit leave the pool. The nonce of a transaction is not looked at: a pending transaction whose nonce
meanwhile occurs in a block of the chain is handed out as well.\<close>

theorem top_transactions_spec:
  assumes "pool_ok env p"
  shows "\<exists>ret avoid' q. topTransactions env lim avoid u p = (Inr (ret, avoid'), q) \<and>
    ret = take (min (m_limit p) lim) (filter (sealable env (m_txNonceCheck p) avoid) (pendingList p)) \<and>
    (\<forall>t \<in> set (pendingList p). isBlockLimitOk (m_txNonceCheck p) t \<longrightarrow> t \<in> set (pendingList q)) \<and>
    set (pendingList q) \<subseteq> set (pendingList p)"
proof -
  let ?nc = "m_txNonceCheck p"
  obtain a q where "top_loop env ?nc (min (m_limit p) lim) u (m_txsQueue p)
      \<lparr>ts_ret = [], ts_avoid = avoid, ts_expired = [], ts_keys = []\<rparr> = Inr a"
    and a: "ts_ret a = take (min (m_limit p) lim) (filter (sealable env ?nc avoid) (pendingList p))"
      "set (ts_expired a) \<subseteq> expired_hashes env ?nc (m_txsQueue p)"
    and q: "topTransactions env lim avoid u p = (Inr (ts_ret a, ts_avoid a), q)"
      "pendingList q = filter (\<lambda>t. tx_hash env t \<notin> Inr ` set (ts_expired a)) (pendingList p)"
    by (rule top_run [OF assms])
  have "t \<in> set (pendingList q)" if t: "t \<in> set (pendingList p)" and limit: "isBlockLimitOk ?nc t" for t
  proof -
    obtain n where n: "n \<in> set (m_txsQueue p)" "t = pn_tx n" using t by (auto simp: pendingList_def)
    have "tx_hash env t \<notin> Inr ` set (ts_expired a)"
    proof
      assume "tx_hash env t \<in> Inr ` set (ts_expired a)"
      then obtain m where "m \<in> set (m_txsQueue p)" "tx_hash env (pn_tx m) = tx_hash env (pn_tx n)" "\<not> isBlockLimitOk ?nc (pn_tx m)"
        using a(2) n(2) by (auto simp: expired_hashes_def)
      then show False using pool_hashes(2) [OF assms] n limit by (auto simp: distinct_map dest: inj_onD)
    qed
    then show ?thesis using t q(2) by simp
  qed
  then show ?thesis using q a(1) by auto
qed

theorem top_transactions_spec_witness:
  "\<exists>p. pool_ok pool_demo_env p \<and> 7 \<in> nonce_cache (m_txNonceCheck p) \<and>
    (\<exists>avoid' q. topTransactions pool_demo_env 5 {} True p = (Inr ([pool_demo_tx\<lparr>m_nonce := 7\<rparr>], avoid'), q))"
proof -
  let ?t = "pool_demo_tx\<lparr>m_nonce := 7\<rparr>"
  obtain h where h: "tx_hash pool_demo_env ?t = Inr h" using pool_demo_hash_nonce by blast
  let ?p = "pool_demo\<lparr>m_txsQueue := queue_emplace \<lparr>pn_id = pool_next pool_demo, pn_tx = ?t, pn_callback = None\<rparr> (m_txsQueue pool_demo),
     m_txsHash := um_set h (pool_next pool_demo) (m_txsHash pool_demo), pool_next := Suc (pool_next pool_demo)\<rparr>"
  have ok: "pool_ok pool_demo_env ?p"
    by (rule pool_ok_insert [OF pool_demo_ok h]) (simp_all add: pool_demo_def TxPool_new_def)
  have "isBlockLimitOk (m_txNonceCheck pool_demo) ?t"
    by (simp add: isBlockLimitOk_def pool_demo_def TxPool_new_def pool_demo_nonce pool_demo_tx_def Invalid256_def i64_def)
  then have "take (min (m_limit ?p) 5) (filter (sealable pool_demo_env (m_txNonceCheck ?p) {}) (pendingList ?p)) = [?t]"
    by (simp add: pendingList_def sealable_def pool_demo_def TxPool_new_def)
  then have "\<exists>avoid' q. topTransactions pool_demo_env 5 {} True ?p = (Inr ([?t], avoid'), q)"
    using top_transactions_spec [OF ok, of 5 "{}" True] by metis
  moreover have "7 \<in> nonce_cache (m_txNonceCheck ?p)" by (simp add: pool_demo_def TxPool_new_def pool_demo_nonce)
  ultimately show ?thesis using ok by blast
qed

end
