(* ===== verification/PBFT_Sealer.thy ===== *)
theory PBFT_Sealer
  imports PBFT_Lock Tx_Pool "HOL-Library.Log_Nat"
begin

text \<open>
  libconsensus/Sealer and libconsensus/pbft/PBFTSealer: the thread that packs transactions of the pool
  into blocks and hands them to the consensus engine, and the callbacks that the engine invokes on it.

  The record \<open>PBFTSealer\<close> has the members of both classes; the engine and the pool that it points to
  are parts of the state. The waiting on condition variables is left out. The byte caches that
  encoding a block fills are not written back to the block that is being sealed.

  The size of the blocks is adapted with floating point numbers. All of them are natural multiples
  of \<open>2^-64\<close> below \<open>2^128\<close>; \<open>rnd p\<close> rounds to \<open>p\<close> significant bits, to nearest and ties to even: 24 bits
  for \<open>float\<close>, 53 for \<open>double\<close>.
\<close>

section \<open>Definitions\<close>

subsection \<open>Floating point\<close>

definition rnd :: "nat \<Rightarrow> nat \<Rightarrow> nat" where
  "rnd p n = (if n < 2 ^ p then n
     else let u = 2 ^ (floorlog 2 n - p); q = n div u; r = n mod u in
       (if u < 2 * r \<or> u = 2 * r \<and> odd q then q + 1 else q) * u)"

definition fp_one :: nat where "fp_one = 2 ^ 64"

definition fp_of_u64 :: "nat \<Rightarrow> nat \<Rightarrow> nat" where
  "fp_of_u64 p n = rnd p (n * fp_one)"

definition fp_mult :: "nat \<Rightarrow> nat \<Rightarrow> nat \<Rightarrow> nat" where
  "fp_mult p x y = rnd p (x * y div fp_one)"

definition fp_add :: "nat \<Rightarrow> nat \<Rightarrow> nat \<Rightarrow> nat" where
  "fp_add p x y = rnd p (x + y)"

text \<open>The conversion to \<open>uint64_t\<close> truncates; beyond the range it is undefined.\<close>

definition fp_to_u64 :: "nat \<Rightarrow> nat option" where
  "fp_to_u64 x = (let n = x div fp_one in if n < 2 ^ 64 then Some n else None)"

text \<open>The literals \<open>0.1\<close> and \<open>1 + 0.1\<close> as \<open>double\<close>.\<close>

definition fp_tenth :: nat where "fp_tenth = 3602879701896397 * 2 ^ 9"
definition fp_eleven_tenths :: nat where "fp_eleven_tenths = fp_add 53 fp_one fp_tenth"

subsection \<open>State\<close>

datatype sealer_exn = SealerEngine pbft_exn | SealerPool pool_exn | NoHighestBlock | SealerNull | OutOfRange

record PBFTSealer =
  m_txPool :: TxPool
  m_pbftEngine :: PBFTEngine
  m_sealing :: Sealing
  sl_extraData :: "bytes list"
  m_syncTxPool :: bool
  m_syncBlock :: bool
  m_startConsensus :: bool
  m_maxBlockCanSeal :: nat
  m_lastTimeoutTx :: nat
  m_maxNoTimeoutTx :: nat
  m_timeoutCount :: int
  m_lastBlockNumber :: nat
  m_enableDynamicBlockSize :: bool
  m_blockSizeIncreaseRatio :: nat
  sl_noted :: "int list"

type_synonym 'a sealer = "(PBFTSealer, sealer_exn, 'a) eff"

text \<open>The constructors. The engine gets the callbacks for view changes and for the next leader.\<close>

definition PBFTSealer_new :: "TxPool \<Rightarrow> PBFTEngine \<Rightarrow> PBFTSealer" where
  "PBFTSealer_new p e = \<lparr>m_txPool = p,
     m_pbftEngine = engine_onNotifyNextLeaderReset (engine_onViewChange e), m_sealing = Sealing_new,
     sl_extraData = [], m_syncTxPool = 0 < fst (pool_status p), m_syncBlock = False, m_startConsensus = False,
     m_maxBlockCanSeal = 1000, m_lastTimeoutTx = 0, m_maxNoTimeoutTx = 0, m_timeoutCount = 0,
     m_lastBlockNumber = 0, m_enableDynamicBlockSize = True, m_blockSizeIncreaseRatio = fp_one div 2, sl_noted = []\<rparr>"

definition on_engine :: "'a pbft \<Rightarrow> 'a sealer" where
  "on_engine = e_zoom m_pbftEngine (\<lambda>e. m_pbftEngine_update (\<lambda>_. e)) SealerEngine"

definition on_pool :: "'a pool \<Rightarrow> 'a sealer" where
  "on_pool = e_zoom m_txPool (\<lambda>p. m_txPool_update (\<lambda>_. p)) SealerPool"

abbreviation sealing_block :: "PBFTSealer \<Rightarrow> Block" where
  "sealing_block s \<equiv> s_block (m_sealing s)"

abbreviation highest_block :: "node_env \<Rightarrow> Block option" where
  "highest_block env \<equiv> chain_getBlockByNumber env (chain_number env)"

definition set_sealing_block :: "Block \<Rightarrow> unit sealer" where
  "set_sealing_block b = e_mod (\<lambda>s. s\<lparr>m_sealing := (m_sealing s)\<lparr>s_block := b\<rparr>\<rparr>)"

definition onTransactionQueueReady :: "PBFTSealer \<Rightarrow> PBFTSealer" where
  "onTransactionQueueReady s = s\<lparr>m_syncTxPool := True\<rparr>"

definition onBlockChanged :: "PBFTSealer \<Rightarrow> PBFTSealer" where
  "onBlockChanged s = s\<lparr>m_syncBlock := True\<rparr>"

definition setEnableDynamicBlockSize :: "bool \<Rightarrow> PBFTSealer \<Rightarrow> PBFTSealer" where
  "setEnableDynamicBlockSize b s = s\<lparr>m_enableDynamicBlockSize := b\<rparr>"

text \<open>The parameter of the setter is a \<open>bool\<close>: the caller's \<open>float\<close> becomes 0 or 1.\<close>

definition setBlockSizeIncreaseRatio :: "bool \<Rightarrow> PBFTSealer \<Rightarrow> PBFTSealer" where
  "setBlockSizeIncreaseRatio b s = s\<lparr>m_blockSizeIncreaseRatio := (if b then fp_one else 0)\<rparr>"

definition setExtraData :: "bytes list \<Rightarrow> PBFTSealer \<Rightarrow> PBFTSealer" where
  "setExtraData d s = s\<lparr>sl_extraData := d\<rparr>"

subsection \<open>Reset of the block\<close>

definition resetBlock :: "node_env \<Rightarrow> bool \<Rightarrow> Block \<Rightarrow> sealer_exn + Block" where
  "resetBlock env resetNextLeader b =
     (if resetNextLeader
      then let b = resetCurrentBlock (env_crypto env) BlockHeader_new b in
        Inr (b\<lparr>m_blockHeader := (m_blockHeader b)\<lparr>m_number := i64 (chain_number env + 2)\<rparr>\<rparr>)
      else case highest_block env of
          None \<Rightarrow> Inl NoHighestBlock
        | Some hb \<Rightarrow> Inr (resetCurrentBlock (env_crypto env) (m_blockHeader hb) b))"

definition resetSealingBlock :: "node_env \<Rightarrow> h256 set \<Rightarrow> bool \<Rightarrow> unit sealer" where
  "resetSealingBlock env flt resetNextLeader =
     e_seq (e_mod (\<lambda>s. s\<lparr>sl_noted := sl_noted s @ [chain_number env]\<rparr>))
     (e_on (\<lambda>s. e_bind (e_lift (resetBlock env resetNextLeader (sealing_block s))) (\<lambda>b.
       e_mod (\<lambda>s. s\<lparr>m_sealing := \<lparr>s_block = b, s_transactionSet = flt, s_execContext = None\<rparr>\<rparr>))))"

definition resetCurrentTime :: "node_env \<Rightarrow> unit sealer" where
  "resetCurrentTime env =
     (case highest_block env of
        None \<Rightarrow> e_throw SealerNull
      | Some p \<Rightarrow> e_on (\<lambda>s. let b = sealing_block s in
          set_sealing_block (b\<lparr>m_blockHeader := (m_blockHeader b)
            \<lparr>m_timestamp := max (u64 (int (m_timestamp (m_blockHeader p)) + 1)) (env_now env)\<rparr>\<rparr>)))"

definition resetSealingHeader :: "node_env \<Rightarrow> unit sealer" where
  "resetSealingHeader env =
     e_seq (resetCurrentTime env)
     (e_on (\<lambda>s. let b = sealing_block s in
       set_sealing_block (b\<lparr>m_blockHeader := (m_blockHeader b)\<lparr>m_sealerList := m_sealers (m_pbftEngine s),
         m_sealer := word_of_nat (m_idx (m_pbftEngine s)), m_logBloom := 0, m_gasUsed := 0,
         m_extraData := sl_extraData s\<rparr>\<rparr>)))"

definition shouldResetSealing :: "node_env \<Rightarrow> PBFTSealer \<Rightarrow> bool" where
  "shouldResetSealing env s \<longleftrightarrow>
     (isSealed (sealing_block s) \<or> m_number (m_blockHeader (sealing_block s)) \<le> chain_number env) \<and>
     snd (getLeader (m_pbftEngine s)) = m_idx (m_pbftEngine s)"

definition shouldHandleBlock :: "node_env \<Rightarrow> PBFTSealer \<Rightarrow> bool" where
  "shouldHandleBlock env s \<longleftrightarrow>
     m_number (m_blockHeader (sealing_block s)) = i64 (chain_number env + 1) \<and>
     fst (getLeader (m_pbftEngine s)) \<and> snd (getLeader (m_pbftEngine s)) = m_idx (m_pbftEngine s)"

definition resetBlockForViewChange :: "node_env \<Rightarrow> unit sealer" where
  "resetBlockForViewChange env = e_on (\<lambda>s.
     if isSealed (sealing_block s) \<and> shouldHandleBlock env s then e_ret ()
     else resetSealingBlock env {} False)"

definition resetBlockForNextLeader :: "node_env \<Rightarrow> h256 set \<Rightarrow> unit sealer" where
  "resetBlockForNextLeader env flt = resetSealingBlock env flt True"

subsection \<open>The size of the blocks\<close>

definition limit_timeout :: "PBFTSealer \<Rightarrow> PBFTSealer" where
  "limit_timeout s = (if m_maxBlockTransactions (m_pbftEngine s) \<le> m_lastTimeoutTx s
     then s\<lparr>m_lastTimeoutTx := m_maxBlockTransactions (m_pbftEngine s)\<rparr> else s)"

definition attempIncreaseTimeoutTx :: "unit sealer" where
  "attempIncreaseTimeoutTx = e_on (\<lambda>s.
     if m_maxBlockTransactions (m_pbftEngine s) \<le> m_lastTimeoutTx s then e_ret ()
     else if m_maxNoTimeoutTx s = m_maxBlockTransactions (m_pbftEngine s)
     then e_mod (\<lambda>s. s\<lparr>m_lastTimeoutTx := m_maxNoTimeoutTx s\<rparr>)
     else e_seq
       (if fp_one < fp_mult 53 (fp_of_u64 53 (m_maxNoTimeoutTx s)) fp_tenth
        then case fp_to_u64 (fp_mult 53 (fp_of_u64 53 (m_maxNoTimeoutTx s)) fp_eleven_tenths) of
            None \<Rightarrow> e_throw OutOfRange
          | Some n \<Rightarrow> e_mod (\<lambda>s. s\<lparr>m_lastTimeoutTx := n\<rparr>)
        else e_mod (\<lambda>s. s\<lparr>m_lastTimeoutTx := u64 (int (m_lastTimeoutTx s) * 2)\<rparr>))
       (e_mod limit_timeout))"

definition onTimeout :: "node_env \<Rightarrow> nat \<Rightarrow> unit sealer" where
  "onTimeout env sealingTxNumber =
     e_seq (e_when (sync_isSyncing env) (e_mod (\<lambda>s. s\<lparr>m_lastBlockNumber := u64 (sync_knownHighestNumber env)\<rparr>)))
     (e_seq (e_mod (\<lambda>s. s\<lparr>m_timeoutCount := i64 (m_timeoutCount s + 1)\<rparr>))
     (e_seq (e_on (\<lambda>s.
        if 0 < sealingTxNumber \<and> (m_lastTimeoutTx s = 0 \<or>
            sealingTxNumber < m_lastTimeoutTx s \<and> m_maxNoTimeoutTx s < sealingTxNumber)
        then e_mod (\<lambda>s. s\<lparr>m_lastTimeoutTx := sealingTxNumber\<rparr>)
        else attempIncreaseTimeoutTx))
      (e_mod (\<lambda>s. if 2 < m_maxBlockCanSeal s then s\<lparr>m_maxBlockCanSeal := m_maxBlockCanSeal s div 2\<rparr> else s))))"

text \<open>\<open>m_maxBlockCanSeal += ratio * m_maxBlockCanSeal\<close> is computed in \<open>float\<close>.\<close>

definition increase_size :: "unit sealer" where
  "increase_size = e_on (\<lambda>s.
     let n = m_maxBlockCanSeal s; x = fp_mult 24 (m_blockSizeIncreaseRatio s) (fp_of_u64 24 n) in
     if fp_one < x
     then case fp_to_u64 (fp_add 24 (fp_of_u64 24 n) x) of
         None \<Rightarrow> e_throw OutOfRange
       | Some n' \<Rightarrow> e_mod (\<lambda>s. s\<lparr>m_maxBlockCanSeal := n'\<rparr>)
     else e_mod (\<lambda>s. s\<lparr>m_maxBlockCanSeal := u64 (int n + 1)\<rparr>))"

definition below_timeout :: "PBFTSealer \<Rightarrow> PBFTSealer" where
  "below_timeout s = (if 0 < m_lastTimeoutTx s \<and> m_lastTimeoutTx s < m_maxBlockCanSeal s
     then s\<lparr>m_maxBlockCanSeal := m_lastTimeoutTx s\<rparr> else s)"

definition above_no_timeout :: "PBFTSealer \<Rightarrow> PBFTSealer" where
  "above_no_timeout s = (if 0 < m_maxNoTimeoutTx s \<and> m_maxBlockCanSeal s < m_maxNoTimeoutTx s
     then s\<lparr>m_maxBlockCanSeal := m_maxNoTimeoutTx s\<rparr> else s)"

definition within_limit :: "PBFTSealer \<Rightarrow> PBFTSealer" where
  "within_limit s = (if m_maxBlockTransactions (m_pbftEngine s) < m_maxBlockCanSeal s
     then s\<lparr>m_maxBlockCanSeal := m_maxBlockTransactions (m_pbftEngine s)\<rparr> else s)"

definition increaseMaxTxsCanSeal :: "unit sealer" where
  "increaseMaxTxsCanSeal =
     e_seq increase_size
     (e_seq (e_on (\<lambda>s. e_when (m_lastTimeoutTx s \<le> m_maxNoTimeoutTx s) attempIncreaseTimeoutTx))
     (e_seq (e_mod below_timeout) (e_seq (e_mod above_no_timeout) (e_mod within_limit))))"

definition onCommitBlock :: "node_env \<Rightarrow> nat \<Rightarrow> nat \<Rightarrow> nat \<Rightarrow> unit sealer" where
  "onCommitBlock env blockNumber sealingTxNumber changeCycle =
     (if sync_isSyncing env \<or> 0 < changeCycle
      then e_mod (\<lambda>s. s\<lparr>m_lastBlockNumber := u64 (sync_knownHighestNumber env)\<rparr>)
      else e_on (\<lambda>s.
        if blockNumber \<le> m_lastBlockNumber s then e_ret ()
        else e_seq (e_mod (\<lambda>s. s\<lparr>m_lastBlockNumber := u64 (chain_number env)\<rparr>))
          (if 0 < m_timeoutCount s then e_mod (\<lambda>s. s\<lparr>m_timeoutCount := m_timeoutCount s - 1\<rparr>)
           else e_seq (e_when (0 < sealingTxNumber \<and>
                  (m_maxNoTimeoutTx s = 0 \<or> m_maxNoTimeoutTx s < sealingTxNumber))
                (e_mod (\<lambda>s. s\<lparr>m_maxNoTimeoutTx := sealingTxNumber\<rparr>)))
              (if m_maxBlockTransactions (m_pbftEngine s) \<le> m_maxBlockCanSeal s then e_ret ()
               else if m_lastTimeoutTx s \<noteq> 0 \<and> m_lastTimeoutTx s \<le> m_maxBlockCanSeal s then e_ret ()
               else increaseMaxTxsCanSeal))))"

subsection \<open>Sealing\<close>

definition sealer_reachBlockIntervalTime :: "node_env \<Rightarrow> PBFTSealer \<Rightarrow> bool" where
  "sealer_reachBlockIntervalTime env s \<longleftrightarrow> reachBlockIntervalTime env (m_pbftEngine s) \<or>
     0 < getTransactionSize (sealing_block s) \<and> reachMinBlockGenTime env (m_pbftEngine s)"

definition checkTxsEnough :: "node_env \<Rightarrow> nat \<Rightarrow> PBFTSealer \<Rightarrow> bool" where
  "checkTxsEnough env maxTxsCanSeal s \<longleftrightarrow> canHandleBlockForNextLeader (m_pbftEngine s) \<and>
     (maxTxsCanSeal \<le> getTransactionSize (sealing_block s) \<or> sealer_reachBlockIntervalTime env s)"

definition loadTransactions :: "pool_env \<Rightarrow> nat \<Rightarrow> unit sealer" where
  "loadTransactions penv transToFetch = e_on (\<lambda>s.
     e_bind (on_pool (topTransactions penv transToFetch (s_transactionSet (m_sealing s)) True)) (\<lambda>(ts, avoid).
     e_mod (\<lambda>s. s\<lparr>m_sealing := (m_sealing s)\<lparr>s_block := appendTransactions ts (sealing_block s),
       s_transactionSet := avoid\<rparr>\<rparr>)))"

definition setBlock :: "node_env \<Rightarrow> unit sealer" where
  "setBlock env =
     (case highest_block env of
        None \<Rightarrow> e_throw SealerNull
      | Some p \<Rightarrow>
          e_seq (e_on (\<lambda>s. let b = sealing_block s in set_sealing_block
            (b\<lparr>m_blockHeader := populateFromParent (env_crypto env) (m_blockHeader p) (m_blockHeader b)\<rparr>)))
          (e_seq (resetSealingHeader env)
          (e_on (\<lambda>s. e_bind (e_lift (map_sum (\<lambda>e. SealerEngine (EthExn e)) id
              (calTransactionRoot (env_crypto env) (env_rc2 env) True (sealing_block s))))
            set_sealing_block))))"

definition handleBlock :: "node_env \<Rightarrow> unit sealer" where
  "handleBlock env = e_on (\<lambda>s.
     if m_maxBlockTransactions (m_pbftEngine s) < getTransactionSize (sealing_block s)
     then resetSealingBlock env {} False
     else e_seq (setBlock env)
       (e_on (\<lambda>s. e_seq (on_engine (generatePrepare env (sealing_block s)))
       (e_on (\<lambda>s. e_when (shouldReset (m_pbftEngine s) (sealing_block s)) (resetSealingBlock env {} False))))))"

definition sealer_shouldSeal :: "node_env \<Rightarrow> bool sealer" where
  "sealer_shouldSeal env = e_on (\<lambda>s.
     if \<not> isSealed (sealing_block s) \<and> m_startConsensus s \<and> m_accountType (m_pbftEngine s) = SealerAccount \<and>
       \<not> sync_isSyncing env
     then on_engine (shouldSeal env) else e_ret False)"

text \<open>The engine calls \<open>onCommitBlock\<close> before it changes anything, if the callback is registered.\<close>

definition sealer_reportBlock :: "node_env \<Rightarrow> Block \<Rightarrow> unit sealer" where
  "sealer_reportBlock env b = e_on (\<lambda>s. let e = m_pbftEngine s in
     e_seq (e_when ((chain_number env = 0 \<or> m_number (m_highestBlock e) < m_number (m_blockHeader b)) \<and> m_onCommitBlock e)
         (onCommitBlock env (u64 (m_number (m_blockHeader b))) (getTransactionSize b) (m_changeCycle (m_timeManager e))))
       (on_engine (reportBlock env b)))"

definition reportNewBlock :: "node_env \<Rightarrow> unit sealer" where
  "reportNewBlock env = e_on (\<lambda>s.
     if m_syncBlock s
     then e_seq (e_mod (\<lambda>s. s\<lparr>m_syncBlock := False\<rparr>))
       (case highest_block env of
          None \<Rightarrow> e_ret ()
        | Some b \<Rightarrow> e_seq (sealer_reportBlock env b)
            (e_on (\<lambda>s. e_when (shouldResetSealing env s) (resetSealingBlock env {} False))))
     else e_ret ())"

definition doWork :: "node_env \<Rightarrow> pool_env \<Rightarrow> unit sealer" where
  "doWork env penv =
     e_seq (reportNewBlock env)
     (e_bind (sealer_shouldSeal env) (\<lambda>seal. e_when seal
       (e_seq (e_mod (\<lambda>s. s\<lparr>m_syncTxPool := fst (pool_status (m_txPool s)) \<noteq> 0\<rparr>))
       (e_on (\<lambda>s. let tx_num = getTransactionSize (sealing_block s); maxTxsPerBlock = m_maxBlockCanSeal s in
         e_seq (e_when (tx_num < maxTxsPerBlock \<and> m_syncTxPool s \<and> \<not> sealer_reachBlockIntervalTime env s)
             (loadTransactions penv (maxTxsPerBlock - tx_num)))
           (e_on (\<lambda>s. e_when (checkTxsEnough env maxTxsPerBlock s \<and> shouldHandleBlock env s) (handleBlock env))))))))"

subsection \<open>Start and stop\<close>

definition sealer_base_start :: "node_env \<Rightarrow> unit sealer" where
  "sealer_base_start env = e_on (\<lambda>s.
     if m_startConsensus s then e_ret ()
     else e_seq (resetSealingBlock env {} False)
       (case highest_block env of
          None \<Rightarrow> e_throw SealerNull
        | Some b \<Rightarrow> e_seq (sealer_reportBlock env b)
            (e_mod (\<lambda>s. s\<lparr>m_maxBlockCanSeal := m_maxBlockTransactions (m_pbftEngine s), m_syncBlock := False,
               m_startConsensus := True\<rparr>))))"

definition sealer_start :: "node_env \<Rightarrow> unit sealer" where
  "sealer_start env =
     e_seq (e_on (\<lambda>s. e_when (m_enableDynamicBlockSize s) (e_mod (\<lambda>s. s
       \<lparr>m_pbftEngine := engine_onCommitBlock (engine_onTimeout (m_pbftEngine s)),
        m_lastBlockNumber := u64 (chain_number env)\<rparr>))))
     (e_seq (on_engine (pbft_start env)) (sealer_base_start env))"

definition sealer_stop :: "PBFTSealer \<Rightarrow> PBFTSealer" where
  "sealer_stop s = s\<lparr>m_startConsensus := False\<rparr>"


section \<open>The source of transactions\<close>

text \<open>What the sealer relies on: at most the number asked for, never one of those to be avoided, and the hashes of
what is handed out are added to those to be avoided.\<close>

locale tx_source =
  fixes top :: "nat \<Rightarrow> 'h set \<Rightarrow> 'p \<Rightarrow> ('e + 't list \<times> 'h set) \<times> 'p"
    and hash :: "'t \<Rightarrow> 'x + 'h"
    and ok :: "'p \<Rightarrow> bool"
  assumes top_returns: "ok p \<Longrightarrow> \<exists>ts avoid' q. top n avoid p = (Inr (ts, avoid'), q) \<and> ok q \<and> length ts \<le> n \<and>
      distinct (map hash ts) \<and> hash ` set ts \<inter> Inr ` avoid = {} \<and> Inr ` avoid' = Inr ` avoid \<union> hash ` set ts"

text \<open>A list of transactions is packed: no transaction is there twice, and all of them are to be avoided.\<close>

definition packed :: "('t \<Rightarrow> 'x + 'h) \<Rightarrow> 't list \<Rightarrow> 'h set \<Rightarrow> bool" where
  "packed hash ts S \<longleftrightarrow> distinct (map hash ts) \<and> hash ` set ts \<subseteq> Inr ` S"

lemma packed_Nil [simp]: "packed hash [] S"
  by (simp add: packed_def)

lemma packed_append:
  assumes "packed hash txs avoid" "distinct (map hash ts)" "hash ` set ts \<inter> Inr ` avoid = {}"
    "Inr ` avoid' = Inr ` avoid \<union> hash ` set ts"
  shows "packed hash (txs @ ts) avoid'"
proof -
  have "x \<notin> hash ` set ts" if x: "x \<in> hash ` set txs" for x
  proof
    assume "x \<in> hash ` set ts"
    moreover have "x \<in> Inr ` avoid" by (rule subsetD [OF _ x]) (use assms(1) in \<open>simp add: packed_def\<close>)
    ultimately have "x \<in> hash ` set ts \<inter> Inr ` avoid" by (rule IntI)
    then show False unfolding assms(3) by simp
  qed
  then have "hash ` set txs \<inter> hash ` set ts = {}" by (simp add: disjoint_iff)
  moreover have "hash ` set (txs @ ts) \<subseteq> Inr ` avoid'"
    unfolding assms(4) set_append image_Un by (rule Un_mono) (use assms(1) in \<open>simp_all add: packed_def\<close>)
  ultimately show ?thesis using assms(1,2) by (simp add: packed_def)
qed

context tx_source
begin

lemma packs:
  assumes "ok p" "packed hash txs avoid"
  shows "\<exists>ts avoid' q. top n avoid p = (Inr (ts, avoid'), q) \<and> ok q \<and> length ts \<le> n \<and> packed hash (txs @ ts) avoid'"
proof -
  obtain ts avoid' q where t: "top n avoid p = (Inr (ts, avoid'), q) \<and> ok q \<and> length ts \<le> n \<and> distinct (map hash ts) \<and>
      hash ` set ts \<inter> Inr ` avoid = {} \<and> Inr ` avoid' = Inr ` avoid \<union> hash ` set ts"
    using top_returns [OF assms(1), of n avoid] by (elim exE) (rule that)
  then have "packed hash (txs @ ts) avoid'" by (elim conjE) (rule packed_append [OF assms(2)])
  with t show ?thesis by (intro exI conjI) (elim conjE, assumption)+
qed

end

interpretation pool_source: tx_source "\<lambda>n avoid. topTransactions penv n avoid True" "tx_hash penv" "pool_ok penv" for penv
proof unfold_locales
  fix p n avoid
  assume ok: "pool_ok penv p"
  obtain a q where a: "top_loop penv (m_txNonceCheck p) (min (m_limit p) n) True (m_txsQueue p)
      \<lparr>ts_ret = [], ts_avoid = avoid, ts_expired = [], ts_keys = []\<rparr> = Inr a"
    and "ts_ret a = take (min (m_limit p) n) (filter (sealable penv (m_txNonceCheck p) avoid) (pendingList p))"
      "set (ts_expired a) \<subseteq> expired_hashes penv (m_txNonceCheck p) (m_txsQueue p)"
    and q: "topTransactions penv n avoid True p = (Inr (ts_ret a, ts_avoid a), q)"
    and "pendingList q = filter (\<lambda>t. tx_hash penv t \<notin> Inr ` set (ts_expired a)) (pendingList p)"
    by (rule top_run [OF ok])
  have "pool_ok penv q" using keepsD [OF keeps_top ok, of n avoid True] q by simp
  then show "\<exists>ts avoid' q. topTransactions penv n avoid True p = (Inr (ts, avoid'), q) \<and> pool_ok penv q \<and> length ts \<le> n \<and>
      distinct (map (tx_hash penv) ts) \<and> tx_hash penv ` set ts \<inter> Inr ` avoid = {} \<and>
      Inr ` avoid' = Inr ` avoid \<union> tx_hash penv ` set ts"
    using q top_loop_fresh [OF a] by auto
qed

section \<open>Runs of a node\<close>

text \<open>The calls of the sealer's thread, the callbacks of the engine, and, in between, steps of the engine's own
threads and of the pool.\<close>

definition numbers_ok :: "node_env \<Rightarrow> bool" where
  "numbers_ok env \<longleftrightarrow> (case highest_block env of Some b \<Rightarrow> m_number (m_blockHeader b) < 2 ^ 63 - 1 | None \<Rightarrow> True)"

inductive sealer_step :: "pool_env \<Rightarrow> PBFTSealer \<Rightarrow> PBFTSealer \<Rightarrow> bool" for penv0 where
  Work: "numbers_ok env \<Longrightarrow> pe_crypto penv = pe_crypto penv0 \<Longrightarrow> pe_rc2 penv = pe_rc2 penv0 \<Longrightarrow>
    sealer_step penv0 s (snd (doWork env penv s))"
| Timeout: "sealer_step penv0 s (snd (onTimeout env n s))"
| ViewChange: "sealer_step penv0 s (snd (resetBlockForViewChange env s))"
| NextLeader: "sealer_step penv0 s (snd (resetBlockForNextLeader env flt s))"
| Engine: "pbft_step (m_pbftEngine s) e \<Longrightarrow> sealer_step penv0 s (s\<lparr>m_pbftEngine := e\<rparr>)"
| Pool: "pool_step penv0 (m_txPool s) p \<Longrightarrow> sealer_step penv0 s (s\<lparr>m_txPool := p\<rparr>)"
| Ready: "sealer_step penv0 s (onTransactionQueueReady s)"
| Changed: "sealer_step penv0 s (onBlockChanged s)"
| Stop: "sealer_step penv0 s (sealer_stop s)"

definition sealer_started :: "PBFTSealer \<Rightarrow> bool" where
  "sealer_started s \<longleftrightarrow> (\<exists>env p e s0 b d. pool_started p \<and> pbft_new e \<and> numbers_ok env \<and>
     s0 = setExtraData d (setBlockSizeIncreaseRatio b (PBFTSealer_new p e)) \<and> sealer_start env s0 = (Inr (), s))"

text \<open>The engine and the pool inside a node make steps of their own.\<close>

definition node_runs :: "pool_env \<Rightarrow> PBFTSealer \<Rightarrow> PBFTSealer \<Rightarrow> bool" where
  "node_runs penv s t \<longleftrightarrow> pbft_step\<^sup>*\<^sup>* (m_pbftEngine s) (m_pbftEngine t) \<and> (pool_step penv)\<^sup>*\<^sup>* (m_txPool s) (m_txPool t)"

lemma node_runs_refl [simp]: "node_runs penv s s"
  by (simp add: node_runs_def)

lemma runs_mod:
  "(\<And>t. m_pbftEngine (f t) = m_pbftEngine t) \<Longrightarrow> (\<And>t. m_txPool (f t) = m_txPool t) \<Longrightarrow> keeps (node_runs penv s) (e_mod f)"
  by (rule keeps_mod) (simp add: node_runs_def)

lemma runs_engine: "(\<And>e. pbft_step e (snd (m e))) \<Longrightarrow> keeps (node_runs penv s) (on_engine m)"
  unfolding on_engine_def by (rule keeps_zoom) (auto simp: node_runs_def wp_def case_prod_unfold intro: rtranclp.rtrancl_into_rtrancl)

lemma runs_pool: "(\<And>p. pool_step penv p (snd (m p))) \<Longrightarrow> keeps (node_runs penv s) (on_pool m)"
  unfolding on_pool_def by (rule keeps_zoom) (auto simp: node_runs_def wp_def case_prod_unfold intro: rtranclp.rtrancl_into_rtrancl)

lemma runs_sealing: "keeps (node_runs penv s) (set_sealing_block b)"
  unfolding set_sealing_block_def by (rule runs_mod) simp_all

lemma runs_reset: "keeps (node_runs penv s) (resetSealingBlock env flt next)"
  unfolding resetSealingBlock_def by (intro keeps_rules runs_mod) simp_all

lemma runs_callbacks:
  "keeps (node_runs penv s) (resetBlockForViewChange env)" "keeps (node_runs penv s) (resetBlockForNextLeader env flt)"
  unfolding resetBlockForViewChange_def resetBlockForNextLeader_def by (intro keeps_rules runs_reset)+

lemma runs_attempIncrease: "keeps (node_runs penv s) attempIncreaseTimeoutTx"
  unfolding attempIncreaseTimeoutTx_def by (intro keeps_rules runs_mod) (simp_all add: limit_timeout_def)

lemma runs_onTimeout: "keeps (node_runs penv s) (onTimeout env n)"
  unfolding onTimeout_def by (intro keeps_rules runs_mod runs_attempIncrease) simp_all

lemma runs_increase: "keeps (node_runs penv s) increaseMaxTxsCanSeal"
  unfolding increaseMaxTxsCanSeal_def increase_size_def
  by (intro keeps_rules runs_mod runs_attempIncrease)
     (simp_all add: below_timeout_def above_no_timeout_def within_limit_def)

lemma runs_onCommitBlock: "keeps (node_runs penv s) (onCommitBlock env n k c)"
  unfolding onCommitBlock_def by (intro keeps_rules runs_mod runs_increase) simp_all

lemma runs_report: "m_number (m_blockHeader b) < 2 ^ 63 - 1 \<Longrightarrow> keeps (node_runs penv s) (sealer_reportBlock env b)"
  unfolding sealer_reportBlock_def by (intro keeps_rules runs_onCommitBlock runs_engine pbft_step.Report)

lemma runs_reportNewBlock: "numbers_ok env \<Longrightarrow> keeps (node_runs penv s) (reportNewBlock env)"
  unfolding reportNewBlock_def
  by (intro keeps_rules runs_report runs_reset runs_mod) (simp_all add: numbers_ok_def)

lemma runs_setBlock: "keeps (node_runs penv s) (setBlock env)"
  unfolding setBlock_def resetSealingHeader_def resetCurrentTime_def by (intro keeps_rules runs_sealing)

lemma runs_handleBlock: "keeps (node_runs penv s) (handleBlock env)"
  unfolding handleBlock_def by (intro keeps_rules runs_setBlock runs_reset runs_engine pbft_step.Generate)

lemma runs_load: "pe_crypto penv = pe_crypto penv0 \<Longrightarrow> pe_rc2 penv = pe_rc2 penv0 \<Longrightarrow>
    keeps (node_runs penv0 s) (loadTransactions penv n)"
  unfolding loadTransactions_def by (intro keeps_rules runs_pool runs_mod pool_step.Top) simp_all

lemma runs_shouldSeal: "keeps (node_runs penv s) (sealer_shouldSeal env)"
  unfolding sealer_shouldSeal_def by (intro keeps_rules runs_engine pbft_step.Seal)

lemma runs_doWork: "numbers_ok env \<Longrightarrow> pe_crypto penv = pe_crypto penv0 \<Longrightarrow> pe_rc2 penv = pe_rc2 penv0 \<Longrightarrow>
    keeps (node_runs penv0 s) (doWork env penv)"
  unfolding doWork_def
  by (intro keeps_rules runs_reportNewBlock runs_shouldSeal runs_load runs_handleBlock runs_mod) simp_all

lemma step_runs: "sealer_step penv s t \<Longrightarrow> node_runs penv s t"
  by (induction rule: sealer_step.induct)
     (simp_all add: keepsD runs_doWork runs_onTimeout runs_callbacks onTransactionQueueReady_def onBlockChanged_def
       sealer_stop_def, simp_all add: node_runs_def)

text \<open>The start of a node is the start of its engine, followed by the report of the latest block.\<close>

lemma runs_base_start: "numbers_ok env \<Longrightarrow> keeps (node_runs penv s) (sealer_base_start env)"
  unfolding sealer_base_start_def
  by (intro keeps_rules runs_report runs_reset runs_mod) (simp_all add: numbers_ok_def)

lemma start_runs:
  assumes "sealer_started s"
  shows "\<exists>e p. pbft_started e \<and> pbft_step\<^sup>*\<^sup>* e (m_pbftEngine s) \<and> pool_started p \<and> (pool_step penv)\<^sup>*\<^sup>* p (m_txPool s)"
proof -
  obtain env p e s0 b d where s: "pool_started p" "pbft_new e" "numbers_ok env"
      "s0 = setExtraData d (setBlockSizeIncreaseRatio b (PBFTSealer_new p e))" "sealer_start env s0 = (Inr (), s)"
    using assms unfolding sealer_started_def by blast
  define e1 where "e1 = engine_onCommitBlock (engine_onTimeout (engine_onNotifyNextLeaderReset (engine_onViewChange e)))"
  define s1 where "s1 = s0\<lparr>m_pbftEngine := e1, m_lastBlockNumber := u64 (chain_number env)\<rparr>"
  have new: "pbft_new e1" using s(2) unfolding e1_def by (intro pbft_new.intros)
  have pool: "m_txPool s1 = p" unfolding s1_def s(4) by (simp add: setExtraData_def setBlockSizeIncreaseRatio_def PBFTSealer_new_def)
  have start: "sealer_start env s0 = e_seq (on_engine (pbft_start env)) (sealer_base_start env) s1"
    unfolding sealer_start_def
    by (rule seq_run [where x = "()"])
       (simp add: e_on_def e_when_def e_mod_def s1_def e1_def s(4) setExtraData_def setBlockSizeIncreaseRatio_def PBFTSealer_new_def)
  obtain r e2 where e2: "pbft_start env e1 = (r, e2)" by fastforce
  have "on_engine (pbft_start env) s1 = (map_sum SealerEngine id r, s1\<lparr>m_pbftEngine := e2\<rparr>)"
    using e2 by (simp add: on_engine_def e_zoom_def s1_def)
  then have r: "r = Inr ()" and base: "sealer_base_start env (s1\<lparr>m_pbftEngine := e2\<rparr>) = (Inr (), s)"
    using s(5) unfolding start by (cases r; simp add: e_seq_def e_bind_def)+
  have "node_runs penv (s1\<lparr>m_pbftEngine := e2\<rparr>) s"
    using keepsD [OF runs_base_start [OF s(3)] node_runs_refl, of penv "s1\<lparr>m_pbftEngine := e2\<rparr>"] base by simp
  moreover have "pbft_started e2" using new e2 r unfolding pbft_started_def by blast
  ultimately show ?thesis using s(1) pool by (auto simp: node_runs_def)
qed

section \<open>The invariant\<close>

text \<open>No transaction is twice in the block that is being sealed, and none of them will be fetched again.\<close>

definition sealer_ok :: "pool_env \<Rightarrow> PBFTSealer \<Rightarrow> bool" where
  "sealer_ok penv s \<longleftrightarrow> pool_ok penv (m_txPool s) \<and>
     packed (tx_hash penv) (m_transactions (sealing_block s)) (s_transactionSet (m_sealing s))"

lemma ok_mod:
  assumes "\<And>t. m_txPool (f t) = m_txPool t" "\<And>t. m_sealing (f t) = m_sealing t"
  shows "keeps (sealer_ok penv) (e_mod f)"
  by (rule keeps_mod) (simp add: sealer_ok_def assms)

lemma ok_engine: "keeps (sealer_ok penv) (on_engine m)"
  unfolding on_engine_def by (rule keeps_zoom) (simp add: sealer_ok_def wp_def case_prod_unfold)

lemma ok_sealing:
  assumes "\<And>s. m_transactions (f s) = m_transactions (sealing_block s)"
  shows "keeps (sealer_ok penv) (e_on (\<lambda>s. set_sealing_block (f s)))"
  by (rule keeps_on) (simp add: set_sealing_block_def wp_rules sealer_ok_def assms)

lemma reset_empty: "resetBlock env next b = Inr b' \<Longrightarrow> m_transactions b' = []"
  by (auto simp: resetBlock_def resetCurrentBlock_def noteChange_def noteReceiptChange_def Let_def
      split: if_splits option.splits)

lemma ok_reset: "keeps (sealer_ok penv) (resetSealingBlock env flt next)"
  unfolding resetSealingBlock_def
  by (intro keeps_seq ok_mod keeps_on) (auto simp: wp_rules sealer_ok_def reset_empty split: sum.split)

lemma ok_callbacks:
  "keeps (sealer_ok penv) (resetBlockForViewChange env)" "keeps (sealer_ok penv) (resetBlockForNextLeader env flt)"
  unfolding resetBlockForViewChange_def resetBlockForNextLeader_def by (intro keeps_rules ok_reset)+

lemma ok_attempIncrease: "keeps (sealer_ok penv) attempIncreaseTimeoutTx"
  unfolding attempIncreaseTimeoutTx_def by (intro keeps_rules ok_mod) (simp_all add: limit_timeout_def)

lemma ok_onTimeout: "keeps (sealer_ok penv) (onTimeout env n)"
  unfolding onTimeout_def by (intro keeps_rules ok_mod ok_attempIncrease) simp_all

lemma ok_onCommitBlock: "keeps (sealer_ok penv) (onCommitBlock env n k c)"
  unfolding onCommitBlock_def increaseMaxTxsCanSeal_def increase_size_def
  by (intro keeps_rules ok_mod ok_attempIncrease)
     (simp_all add: below_timeout_def above_no_timeout_def within_limit_def)

lemma ok_report: "keeps (sealer_ok penv) (sealer_reportBlock env b)" "keeps (sealer_ok penv) (reportNewBlock env)"
  unfolding reportNewBlock_def sealer_reportBlock_def
  by (intro keeps_rules ok_onCommitBlock ok_engine ok_reset ok_mod; simp)+

lemma root_transactions: "calTransactionRoot cr rc2 u b = Inr b' \<Longrightarrow> m_transactions b' = m_transactions b"
  by (auto simp: calTransactionRoot_def calTransactionRootRC2_def set_roots_if_def split: if_splits sum.splits)

lemma ok_setBlock: "keeps (sealer_ok penv) (setBlock env)"
proof -
  have "keeps (sealer_ok penv) (e_on (\<lambda>s. e_bind (e_lift (map_sum (\<lambda>e. SealerEngine (EthExn e)) id
      (calTransactionRoot (env_crypto env) (env_rc2 env) True (sealing_block s)))) set_sealing_block))"
  proof (rule keeps_on)
    fix s assume "sealer_ok penv s"
    then show "wp (e_bind (e_lift (map_sum (\<lambda>e. SealerEngine (EthExn e)) id
        (calTransactionRoot (env_crypto env) (env_rc2 env) True (sealing_block s)))) set_sealing_block) (\<lambda>_. sealer_ok penv) s"
      by (cases "calTransactionRoot (env_crypto env) (env_rc2 env) True (sealing_block s)")
         (simp_all add: wp_rules set_sealing_block_def sealer_ok_def root_transactions)
  qed
  then show ?thesis unfolding setBlock_def resetSealingHeader_def resetCurrentTime_def Let_def
    by (intro keeps_case_option keeps_seq keeps_throw ok_sealing) simp_all
qed

lemma ok_handleBlock: "keeps (sealer_ok penv) (handleBlock env)"
  unfolding handleBlock_def by (intro keeps_rules ok_setBlock ok_reset ok_engine)

lemma sealer_ok_env: "pe_crypto penv = pe_crypto penv0 \<Longrightarrow> pe_rc2 penv = pe_rc2 penv0 \<Longrightarrow> sealer_ok penv = sealer_ok penv0"
proof -
  assume a: "pe_crypto penv = pe_crypto penv0" "pe_rc2 penv = pe_rc2 penv0"
  then have "tx_hash penv = tx_hash penv0" by (simp add: fun_eq_iff tx_hash_def)
  then show ?thesis using pool_ok_env [OF a] by (intro ext) (simp add: sealer_ok_def)
qed

lemma ok_load: "keeps (sealer_ok penv) (loadTransactions penv n)"
  unfolding loadTransactions_def
proof (rule keeps_on)
  fix s assume s: "sealer_ok penv s"
  obtain ts avoid' q where t: "topTransactions penv n (s_transactionSet (m_sealing s)) True (m_txPool s) = (Inr (ts, avoid'), q)"
      "pool_ok penv q" "packed (tx_hash penv) (m_transactions (sealing_block s) @ ts) avoid'"
    using pool_source.packs [of penv "m_txPool s"] s unfolding sealer_ok_def by blast
  then show "wp (e_bind (on_pool (topTransactions penv n (s_transactionSet (m_sealing s)) True)) (\<lambda>(ts, avoid).
      e_mod (\<lambda>s. s\<lparr>m_sealing := (m_sealing s)\<lparr>s_block := appendTransactions ts (sealing_block s),
        s_transactionSet := avoid\<rparr>\<rparr>))) (\<lambda>_. sealer_ok penv) s"
    by (simp add: wp_def e_bind_def on_pool_def e_zoom_def e_mod_def sealer_ok_def appendTransactions_def noteChange_def)
qed

lemma ok_doWork: "pe_crypto penv = pe_crypto penv0 \<Longrightarrow> pe_rc2 penv = pe_rc2 penv0 \<Longrightarrow> keeps (sealer_ok penv0) (doWork env penv)"
  unfolding doWork_def sealer_shouldSeal_def sealer_ok_env [symmetric]
  by (intro keeps_rules ok_report ok_engine ok_load ok_handleBlock ok_mod) simp_all

lemma step_ok:
  assumes "sealer_ok penv s" "sealer_step penv s t"
  shows "sealer_ok penv t"
  using assms(2)
proof cases
  case (Pool p)
  then show ?thesis using assms(1) pool_step_ok [of penv "m_txPool s" p] by (simp add: sealer_ok_def)
qed (use assms(1) in \<open>simp_all add: keepsD [OF ok_doWork] keepsD [OF ok_onTimeout] keepsD [OF ok_callbacks(1)]
  keepsD [OF ok_callbacks(2)], simp_all add: sealer_ok_def onTransactionQueueReady_def onBlockChanged_def sealer_stop_def\<close>)

lemma start_ok:
  assumes "sealer_started s"
  shows "sealer_ok penv s"
proof -
  obtain env p e s0 b d where s: "pool_started p"
      "s0 = setExtraData d (setBlockSizeIncreaseRatio b (PBFTSealer_new p e))" "sealer_start env s0 = (Inr (), s)"
    using assms unfolding sealer_started_def by blast
  have "keeps (sealer_ok penv) (sealer_start env)"
    unfolding sealer_start_def sealer_base_start_def
    by (intro keeps_rules ok_mod ok_engine ok_reset ok_report) simp_all
  moreover have "sealer_ok penv s0" unfolding s(2) sealer_ok_def setExtraData_def setBlockSizeIncreaseRatio_def PBFTSealer_new_def
    using pool.start_inv [OF s(1)] by (simp add: Sealing_new_def Block_new_def)
  ultimately show ?thesis using s(3) keepsD [of "sealer_ok penv" "sealer_start env" s0] by simp
qed

interpretation sealer: invariant_system sealer_started "sealer_step penv" "sealer_ok penv" for penv
  by unfold_locales (blast intro: start_ok step_ok)+

section \<open>The size of the blocks\<close>

lemma rnd_unit: "2 ^ p \<le> n \<Longrightarrow> 0 < p \<Longrightarrow> 2 ^ (p - 1) \<le> n div 2 ^ (floorlog 2 n - p)"
proof -
  assume n: "2 ^ p \<le> n" "0 < p"
  have b: "2 ^ (floorlog 2 n - 1) \<le> n" "n < 2 ^ floorlog 2 n"
    using floorlog_bounds [of n 2] n(1) by (simp_all add: order_less_le_trans [of 0 "2 ^ p" n])
  then have "p < floorlog 2 n" using n(1) by (meson le_less_trans nat_power_less_imp_less zero_less_numeral)
  then have "(2::nat) ^ (p - 1) * 2 ^ (floorlog 2 n - p) = 2 ^ (floorlog 2 n - 1)"
    using n(2) by (simp flip: power_add)
  then show ?thesis using b(1) by (simp add: less_eq_div_iff_mult_less_eq)
qed

lemma rnd_le: "0 < p \<Longrightarrow> rnd p n \<le> 2 * n"
proof (cases "n < 2 ^ p")
  case False
  assume "0 < p"
  let ?u = "2 ^ (floorlog 2 n - p) :: nat"
  have "1 \<le> n div ?u" using rnd_unit [of p n] False \<open>0 < p\<close> by (meson le_trans not_less one_le_numeral one_le_power)
  then have "(n div ?u + 1) * ?u \<le> 2 * (n div ?u * ?u)" by (simp add: add_mult_distrib)
  also have "\<dots> \<le> 2 * n" by (simp add: mult_le_mono2 div_times_less_eq_dividend)
  finally show ?thesis using False by (auto simp: rnd_def Let_def intro: order_trans [OF mult_le_mono1])
qed (simp add: rnd_def)

lemma rnd_ge: "0 < p \<Longrightarrow> 2 ^ k \<le> n \<Longrightarrow> 2 ^ k \<le> rnd p n"
proof (cases "n < 2 ^ p")
  case False
  assume p: "0 < p" "2 ^ k \<le> n"
  let ?L = "floorlog 2 n"
  have "n < 2 ^ ?L" using floorlog_bounds [of n 2] p(2) by (simp add: order_less_le_trans [of 0 "2 ^ k" n])
  then have "k < ?L" "p < ?L" using p(2) False by (meson le_less_trans nat_power_less_imp_less not_less zero_less_numeral)+
  then have "(2::nat) ^ k \<le> 2 ^ (?L - 1)" by (intro power_increasing) simp_all
  also have "\<dots> = 2 ^ (p - 1) * 2 ^ (?L - p)" using \<open>p < ?L\<close> p(1) by (simp flip: power_add)
  also have "\<dots> \<le> n div 2 ^ (?L - p) * 2 ^ (?L - p)" using rnd_unit [of p n] False p(1) by simp
  also have "\<dots> \<le> rnd p n" using False by (simp add: rnd_def Let_def)
  finally show ?thesis .
qed (simp add: rnd_def)

text \<open>The limit of the chain, the size and the largest block without a timeout.\<close>

definition size_ok :: "nat \<Rightarrow> PBFTSealer \<Rightarrow> bool" where
  "size_ok limit s \<longleftrightarrow> m_maxBlockTransactions (m_pbftEngine s) = limit \<and> limit < 2 ^ 60 \<and>
     1 \<le> m_maxBlockCanSeal s \<and> m_maxBlockCanSeal s \<le> limit \<and> m_maxNoTimeoutTx s \<le> limit \<and>
     m_blockSizeIncreaseRatio s \<le> fp_one"

lemma fp_of_u64_le: "0 < p \<Longrightarrow> fp_of_u64 p n \<le> 2 * n * fp_one"
  using rnd_le [of p "n * fp_one"] by (simp add: fp_of_u64_def)

text \<open>The relative error of the rounding, and numbers that are exact.\<close>

lemma rnd_err:
  assumes "0 < p"
  shows "rnd p n \<le> n + n div 2 ^ (p - 1)" "n \<le> rnd p n + n div 2 ^ (p - 1)"
proof -
  let ?u = "2 ^ (floorlog 2 n - p) :: nat"
  have "rnd p n \<le> n + n div 2 ^ (p - 1) \<and> n \<le> rnd p n + n div 2 ^ (p - 1)"
  proof (cases "n < 2 ^ p")
    case False
    have "2 ^ (p - 1) * ?u \<le> n div ?u * ?u" using rnd_unit [of p n] False assms by simp
    also have "\<dots> \<le> n" by (simp add: div_times_less_eq_dividend)
    finally have u: "?u \<le> n div 2 ^ (p - 1)" by (simp add: less_eq_div_iff_mult_less_eq mult.commute)
    have n: "n = n div ?u * ?u + n mod ?u" by (rule div_mult_mod_eq [symmetric])
    have "n mod ?u < ?u" by simp
    have "n div ?u * ?u \<le> rnd p n" "rnd p n \<le> n div ?u * ?u + ?u" using False by (simp_all add: rnd_def Let_def)
    with \<open>n mod ?u < ?u\<close> show ?thesis using u n by linarith
  qed (simp add: rnd_def)
  then show "rnd p n \<le> n + n div 2 ^ (p - 1)" "n \<le> rnd p n + n div 2 ^ (p - 1)" by simp_all
qed

lemma rnd_exact: "m < 2 ^ p \<Longrightarrow> rnd p (m * 2 ^ k) = m * 2 ^ k"
proof -
  assume m: "m < 2 ^ p"
  let ?n = "m * 2 ^ k"
  have "?n < 2 ^ (p + k)" using m by (simp add: power_add)
  then have "floorlog 2 ?n \<le> p + k" by (simp add: floorlog_leI)
  then have "(2::nat) ^ (floorlog 2 ?n - p) dvd 2 ^ k" by (intro le_imp_power_dvd) simp
  then have "2 ^ (floorlog 2 ?n - p) dvd ?n" by (rule dvd_mult)
  then show ?thesis by (simp add: rnd_def Let_def mod_eq_0_iff_dvd)
qed

lemma fp_eleven_tenths_le: "fp_eleven_tenths \<le> 3 * fp_one"
  using rnd_le [of 53 "fp_one + fp_tenth"]
  by (simp add: fp_eleven_tenths_def fp_add_def fp_tenth_def fp_one_def)

lemma timeout_fits: "m < 2 ^ 60 \<Longrightarrow> \<exists>n. fp_to_u64 (fp_mult 53 (fp_of_u64 53 m) fp_eleven_tenths) = Some n"
proof -
  assume m: "m < 2 ^ 60"
  have "fp_of_u64 53 m * fp_eleven_tenths \<le> (2 * m * fp_one) * (3 * fp_one)"
    by (intro mult_le_mono fp_of_u64_le fp_eleven_tenths_le) simp
  then have "fp_of_u64 53 m * fp_eleven_tenths div fp_one \<le> 6 * m * fp_one"
    using div_le_mono [of _ "6 * m * fp_one * fp_one" fp_one] by (simp add: fp_one_def mult.assoc)
  then have "fp_mult 53 (fp_of_u64 53 m) fp_eleven_tenths \<le> 12 * m * fp_one"
    using rnd_le [of 53 "fp_of_u64 53 m * fp_eleven_tenths div fp_one"] by (simp add: fp_mult_def)
  then have "fp_mult 53 (fp_of_u64 53 m) fp_eleven_tenths div fp_one \<le> 12 * m"
    using div_le_mono [of _ "12 * m * fp_one" fp_one] by (simp add: fp_one_def)
  then show ?thesis using m by (simp add: fp_to_u64_def Let_def)
qed

lemma attemp_run:
  assumes "m_maxNoTimeoutTx s < 2 ^ 60"
  shows "\<exists>k. attempIncreaseTimeoutTx s = (Inr (), s\<lparr>m_lastTimeoutTx := k\<rparr>)"
proof -
  obtain n where "fp_to_u64 (fp_mult 53 (fp_of_u64 53 (m_maxNoTimeoutTx s)) fp_eleven_tenths) = Some n"
    using timeout_fits [OF assms] by blast
  then show ?thesis
    by (auto simp: attempIncreaseTimeoutTx_def e_on_def e_seq_def e_bind_def e_mod_def e_ret_def limit_timeout_def
        intro: exI [of _ "m_lastTimeoutTx s"])
qed

lemma increase_run:
  assumes "size_ok limit s"
  shows "\<exists>n. 1 \<le> n \<and> m_maxBlockCanSeal s \<le> 2 * n \<and> increase_size s = (Inr (), s\<lparr>m_maxBlockCanSeal := n\<rparr>)"
proof -
  let ?n = "m_maxBlockCanSeal s"
  let ?x = "fp_mult 24 (m_blockSizeIncreaseRatio s) (fp_of_u64 24 ?n)"
  have n: "1 \<le> ?n" "?n < 2 ^ 60" using assms by (simp_all add: size_ok_def)
  have "m_blockSizeIncreaseRatio s * fp_of_u64 24 ?n \<le> fp_one * (2 * ?n * fp_one)"
    by (intro mult_le_mono fp_of_u64_le) (use assms in \<open>simp_all add: size_ok_def\<close>)
  then have "m_blockSizeIncreaseRatio s * fp_of_u64 24 ?n div fp_one \<le> 2 * ?n * fp_one"
    using div_le_mono [of _ "2 * ?n * fp_one * fp_one" fp_one] by (simp add: fp_one_def mult.assoc mult.left_commute)
  then have x: "?x \<le> 4 * ?n * fp_one"
    using rnd_le [of 24 "m_blockSizeIncreaseRatio s * fp_of_u64 24 ?n div fp_one"] by (simp add: fp_mult_def)
  show ?thesis
  proof (cases "fp_one < ?x")
    case True
    let ?r = "fp_add 24 (fp_of_u64 24 ?n) ?x"
    have "?r \<le> 12 * ?n * fp_one"
      using rnd_le [of 24 "fp_of_u64 24 ?n + ?x"] x fp_of_u64_le [of 24 ?n] by (simp add: fp_add_def)
    then have "?r div fp_one \<le> 12 * ?n" using div_le_mono [of ?r "12 * ?n * fp_one" fp_one] by (simp add: fp_one_def)
    moreover have "fp_one \<le> ?r" using rnd_ge [of 24 64 "fp_of_u64 24 ?n + ?x"] True by (simp add: fp_add_def fp_one_def)
    then have "1 \<le> ?r div fp_one" using div_le_mono [of fp_one ?r fp_one] by (simp add: fp_one_def)
    moreover have "?n \<le> 2 * (?r div fp_one)"
    proof -
      have "?n * fp_one \<le> fp_of_u64 24 ?n + ?n * fp_one div 2 ^ 23" "fp_of_u64 24 ?n + ?x \<le> ?r + (fp_of_u64 24 ?n + ?x) div 2 ^ 23"
        using rnd_err(2) [of 24 "?n * fp_one"] rnd_err(2) [of 24 "fp_of_u64 24 ?n + ?x"] by (simp_all add: fp_of_u64_def fp_add_def)
      moreover have "?r \<le> ?r div fp_one * fp_one + fp_one - 1" using div_mult_mod_eq [of ?r fp_one] mod_less_divisor [of fp_one ?r]
        by (simp add: fp_one_def)
      ultimately show ?thesis using \<open>1 \<le> ?r div fp_one\<close> True unfolding fp_one_def by simp
    qed
    ultimately show ?thesis using True n(2)
      by (auto simp: increase_size_def e_on_def e_mod_def fp_to_u64_def Let_def)
  qed (use n in \<open>auto simp: increase_size_def e_on_def e_mod_def u64_def Let_def intro!: exI [of _ "nat (int ?n + 1)"]\<close>)
qed

lemma attemp_wp: "m_maxNoTimeoutTx s < 2 ^ 60 \<Longrightarrow> (\<And>k. Q (Inr ()) (s\<lparr>m_lastTimeoutTx := k\<rparr>)) \<Longrightarrow> wp attempIncreaseTimeoutTx Q s"
  using attemp_run [of s] by (auto simp: wp_def)

lemma size_ok_timeout [simp]: "size_ok limit (s\<lparr>m_lastTimeoutTx := k\<rparr>) = size_ok limit s"
  "size_ok limit (s\<lparr>m_lastBlockNumber := n\<rparr>) = size_ok limit s" "size_ok limit (s\<lparr>m_timeoutCount := i\<rparr>) = size_ok limit s"
  by (simp_all add: size_ok_def)

abbreviation sized :: "nat \<Rightarrow> unit sealer \<Rightarrow> bool" where
  "sized limit \<equiv> never (\<lambda>_. True) (size_ok limit)"

lemma size_attemp: "sized limit attempIncreaseTimeoutTx"
  by (rule neverI, rule attemp_wp) (simp_all, simp add: size_ok_def)

lemma size_timeout: "sized limit (onTimeout env k)"
  unfolding onTimeout_def
  by (intro never_rules never_mod size_attemp) (auto simp: size_ok_def)

lemma size_increase: "sized limit increaseMaxTxsCanSeal"
proof (rule neverI)
  fix s assume s: "size_ok limit s"
  obtain n where n: "1 \<le> n" "increase_size s = (Inr (), s\<lparr>m_maxBlockCanSeal := n\<rparr>)" using increase_run [OF s] by blast
  let ?J = "\<lambda>t. 1 \<le> m_maxBlockCanSeal t \<and> size_ok limit (t\<lparr>m_maxBlockCanSeal := limit\<rparr>)"
  have fin: "size_ok limit (within_limit (above_no_timeout (below_timeout t)))" if "?J t" for t
    using that by (auto simp: size_ok_def below_timeout_def above_no_timeout_def within_limit_def)
  have "never (\<lambda>_. True) ?J (e_on (\<lambda>s. e_when (m_lastTimeoutTx s \<le> m_maxNoTimeoutTx s) attempIncreaseTimeoutTx))"
    by (rule never_on_all, rule never_when, rule neverI, rule attemp_wp) (simp_all add: size_ok_def)
  then have base: "wp (e_on (\<lambda>s. e_when (m_lastTimeoutTx s \<le> m_maxNoTimeoutTx s) attempIncreaseTimeoutTx))
      (\<lambda>r t. ?J t \<and> (\<forall>e. r = Inl e \<longrightarrow> \<not> True)) (s\<lparr>m_maxBlockCanSeal := n\<rparr>)"
    by (rule never_wp) (use s n(1) in \<open>simp add: size_ok_def\<close>)
  have "wp (e_seq (e_on (\<lambda>s. e_when (m_lastTimeoutTx s \<le> m_maxNoTimeoutTx s) attempIncreaseTimeoutTx))
      (e_seq (e_mod below_timeout) (e_seq (e_mod above_no_timeout) (e_mod within_limit))))
      (\<lambda>r t. size_ok limit t \<and> (\<forall>e. r = Inl e \<longrightarrow> \<not> True)) (s\<lparr>m_maxBlockCanSeal := n\<rparr>)"
    unfolding wp_seq by (rule wp_mono [OF base]) (use fin in \<open>auto simp: wp_mod split: sum.split\<close>)
  then show "wp increaseMaxTxsCanSeal (\<lambda>r t. size_ok limit t \<and> (\<forall>e. r = Inl e \<longrightarrow> \<not> True)) s"
    unfolding increaseMaxTxsCanSeal_def using n(2) by (simp add: wp_def seq_run [of increase_size])
qed

lemma size_commit: "k \<le> limit \<Longrightarrow> sized limit (onCommitBlock env n k c)"
  unfolding onCommitBlock_def
  by (intro never_rules never_mod size_increase) (simp_all, simp add: size_ok_def)

section \<open>The proposed block\<close>

lemma root_header:
  "calTransactionRoot cr rc2 True b = Inr b' \<Longrightarrow> \<exists>root. m_blockHeader b' = (m_blockHeader b)\<lparr>m_transactionsRoot := root\<rparr>"
  by (auto simp: calTransactionRoot_def calTransactionRootRC2_def set_roots_if_def split: if_splits sum.splits)

definition sealed_header :: "node_env \<Rightarrow> BlockHeader \<Rightarrow> PBFTSealer \<Rightarrow> BlockHeader" where
  "sealed_header env ph s = (populateFromParent (env_crypto env) ph (m_blockHeader (sealing_block s)))
     \<lparr>m_timestamp := max (u64 (int (m_timestamp ph) + 1)) (env_now env), m_sealerList := m_sealers (m_pbftEngine s),
      m_sealer := word_of_nat (m_idx (m_pbftEngine s)), m_logBloom := 0, m_gasUsed := 0, m_extraData := sl_extraData s\<rparr>"

lemma setBlock_run:
  assumes "highest_block env = Some p" "setBlock env s = (Inr (), t)"
  shows "m_pbftEngine t = m_pbftEngine s" "m_transactions (sealing_block t) = m_transactions (sealing_block s)"
    "\<exists>root. m_blockHeader (sealing_block t) = (sealed_header env (m_blockHeader p) s)\<lparr>m_transactionsRoot := root\<rparr>"
proof -
  define b where "b = (sealing_block s)\<lparr>m_blockHeader := sealed_header env (m_blockHeader p) s\<rparr>"
  have run: "setBlock env s = (case calTransactionRoot (env_crypto env) (env_rc2 env) True b of
      Inl e \<Rightarrow> (Inl (SealerEngine (EthExn e)), s\<lparr>m_sealing := (m_sealing s)\<lparr>s_block := b\<rparr>\<rparr>)
    | Inr b' \<Rightarrow> (Inr (), s\<lparr>m_sealing := (m_sealing s)\<lparr>s_block := b'\<rparr>\<rparr>))"
    using assms(1)
    by (simp add: setBlock_def resetSealingHeader_def resetCurrentTime_def set_sealing_block_def sealed_header_def b_def
        e_seq_def e_bind_def e_on_def e_mod_def e_lift_def Let_def split: sum.split)
  then obtain b' where b': "calTransactionRoot (env_crypto env) (env_rc2 env) True b = Inr b'"
      "t = s\<lparr>m_sealing := (m_sealing s)\<lparr>s_block := b'\<rparr>\<rparr>"
    using assms(2) by (auto split: sum.splits)
  show "m_pbftEngine t = m_pbftEngine s" by (simp add: b')
  show "m_transactions (sealing_block t) = m_transactions (sealing_block s)"
    using root_transactions [OF b'(1)] by (simp add: b' b_def)
  show "\<exists>root. m_blockHeader (sealing_block t) = (sealed_header env (m_blockHeader p) s)\<lparr>m_transactionsRoot := root\<rparr>"
    using root_header [OF b'(1)] by (simp add: b' b_def)
qed

lemma same_engine_mod: "(\<And>t. m_pbftEngine (f t) = m_pbftEngine t) \<Longrightarrow> keeps (\<lambda>s. m_pbftEngine s = e) (e_mod f)"
  by (rule keeps_mod) simp

lemma same_engine_reset: "keeps (\<lambda>s. m_pbftEngine s = e) (resetSealingBlock env flt next)"
  unfolding resetSealingBlock_def by (intro keeps_rules same_engine_mod) simp_all

lemma same_engine_setBlock: "keeps (\<lambda>s. m_pbftEngine s = e) (setBlock env)"
  unfolding setBlock_def resetSealingHeader_def resetCurrentTime_def set_sealing_block_def
  by (intro keeps_rules same_engine_mod) simp_all

lemma handleBlock_engine:
  "m_pbftEngine (snd (handleBlock env s)) =
    (if m_maxBlockTransactions (m_pbftEngine s) < getTransactionSize (sealing_block s) then m_pbftEngine s
     else case setBlock env s of (Inl e, t) \<Rightarrow> m_pbftEngine s
       | (Inr x, t) \<Rightarrow> snd (generatePrepare env (sealing_block t) (m_pbftEngine t)))"
proof -
  obtain r t where t: "setBlock env s = (r, t)" by fastforce
  have same: "m_pbftEngine t = m_pbftEngine s"
    using keepsD [OF same_engine_setBlock, of s "m_pbftEngine s" env] t by simp
  let ?n = "\<lambda>b. e_seq (on_engine (generatePrepare env b))
       (e_on (\<lambda>s. e_when (shouldReset (m_pbftEngine s) (sealing_block s)) (resetSealingBlock env {} False)))"
  have "m_pbftEngine (snd (?n b t)) = snd (generatePrepare env b (m_pbftEngine t))" for b
  proof -
    obtain r' e' where g: "generatePrepare env b (m_pbftEngine t) = (r', e')" by fastforce
    have "keeps (\<lambda>s. m_pbftEngine s = e')
        (e_on (\<lambda>s. e_when (shouldReset (m_pbftEngine s) (sealing_block s)) (resetSealingBlock env {} False)))"
      by (intro keeps_rules same_engine_reset)
    from keepsD [OF this, of "t\<lparr>m_pbftEngine := e'\<rparr>"] show ?thesis
      by (cases r') (simp_all add: e_seq_def e_bind_def on_engine_def e_zoom_def g)
  qed
  moreover have "m_pbftEngine (snd (resetSealingBlock env {} False s)) = m_pbftEngine s"
    using keepsD [OF same_engine_reset, of s "m_pbftEngine s"] by simp
  ultimately show ?thesis using t same
    by (cases r) (simp_all add: handleBlock_def e_on_def e_seq_def [of "setBlock env"] e_bind_def)
qed

section \<open>Changes of the limit\<close>

text \<open>The tenth of the largest block is computed in \<open>double\<close>.\<close>

lemma tenths_arith:
  fixes m x d r q :: nat
  assumes "r \<le> x + d" "x \<le> r + d" "x \<le> m * 20291418481080511385" "m * 20291418481080502375 \<le> x"
    and "q * 18446744073709551616 \<le> r" "r < (q + 1) * 18446744073709551616" "d * 4503599627370496 \<le> x"
    and "10 < m" "m < 1099511627776"
  shows "m \<le> q \<and> 10 * q \<le> 11 * m"
proof
  have "d * 4503599627370496 \<le> (m * 4506) * 4503599627370496" using assms(3,7) by simp
  then have d: "d \<le> m * 4506" by simp
  show "m \<le> q"
  proof (rule ccontr)
    assume "\<not> m \<le> q"
    then have "(q + 1) * 18446744073709551616 \<le> m * 18446744073709551616" by simp
    then have "r < m * 18446744073709551616" using assms(6) by linarith
    then have "m * 20291418481080502375 < m * 18446744073709551616 + m * 4506" using d assms(2,4) by linarith
    then show False by simp
  qed
  show "10 * q \<le> 11 * m"
  proof (rule ccontr)
    assume "\<not> 10 * q \<le> 11 * m"
    then have "(11 * m + 1) * 18446744073709551616 \<le> 10 * q * 18446744073709551616" by simp
    also have "\<dots> = 10 * (q * 18446744073709551616)" by (simp only: mult.assoc)
    also have "q * 18446744073709551616 \<le> m * 20291418481080511385 + m * 4506" using d assms(1,3,5) by linarith
    finally show False using assms(9) by simp
  qed
qed

lemma timeout_tenths:
  assumes "10 < m" "m < 2 ^ 40"
  shows "fp_one < fp_mult 53 (fp_of_u64 53 m) fp_tenth"
    "\<exists>v. fp_to_u64 (fp_mult 53 (fp_of_u64 53 m) fp_eleven_tenths) = Some v \<and> m \<le> v \<and> 10 * v \<le> 11 * m"
proof -
  have exact: "fp_of_u64 53 m = m * fp_one" using assms(2) rnd_exact [of m 53 64] by (simp add: fp_of_u64_def fp_one_def)
  have "m * fp_tenth \<le> fp_mult 53 (fp_of_u64 53 m) fp_tenth + m * fp_tenth div 2 ^ 52"
    using rnd_err(2) [of 53 "m * fp_tenth"] exact by (simp add: fp_mult_def fp_one_def)
  then show "fp_one < fp_mult 53 (fp_of_u64 53 m) fp_tenth" using assms(1) by (simp add: fp_one_def fp_tenth_def)
  have el: "fp_eleven_tenths \<le> fp_one + fp_tenth + (fp_one + fp_tenth) div 2 ^ 52"
    "fp_one + fp_tenth \<le> fp_eleven_tenths + (fp_one + fp_tenth) div 2 ^ 52"
    using rnd_err [of 53 "fp_one + fp_tenth"] by (simp_all add: fp_eleven_tenths_def fp_add_def)
  let ?r = "fp_mult 53 (fp_of_u64 53 m) fp_eleven_tenths"
  have r: "?r \<le> m * fp_eleven_tenths + m * fp_eleven_tenths div 2 ^ 52" "m * fp_eleven_tenths \<le> ?r + m * fp_eleven_tenths div 2 ^ 52"
    using rnd_err [of 53 "m * fp_eleven_tenths"] exact by (simp_all add: fp_mult_def fp_one_def)
  have "fp_eleven_tenths \<le> 20291418481080511385" "20291418481080502375 \<le> fp_eleven_tenths"
    using el by (simp_all add: fp_one_def fp_tenth_def)
  then have m: "m * fp_eleven_tenths \<le> m * 20291418481080511385" "m * 20291418481080502375 \<le> m * fp_eleven_tenths" by simp_all
  have q: "?r div fp_one * 18446744073709551616 \<le> ?r" "?r < (?r div fp_one + 1) * 18446744073709551616"
    using div_mult_mod_eq [of ?r fp_one] mod_less_divisor [of fp_one ?r] by (simp_all add: fp_one_def)
  have d: "m * fp_eleven_tenths div 2 ^ 52 * 4503599627370496 \<le> m * fp_eleven_tenths"
    using div_times_less_eq_dividend [of "m * fp_eleven_tenths" "2 ^ 52"] by simp
  have "m \<le> ?r div fp_one \<and> 10 * (?r div fp_one) \<le> 11 * m" by (rule tenths_arith [OF r m q d]) (use assms in simp_all)
  then show "\<exists>v. fp_to_u64 ?r = Some v \<and> m \<le> v \<and> 10 * v \<le> 11 * m"
    using assms(2) by (auto simp: fp_to_u64_def Let_def)
qed

lemma load_run:
  assumes "pool_ok penv (m_txPool s)" "k \<le> m_limit (m_txPool s)"
    and "k \<le> length (filter (sealable penv (m_txNonceCheck (m_txPool s)) (s_transactionSet (m_sealing s))) (pendingList (m_txPool s)))"
  obtains ts q avoid where "length ts = k" "loadTransactions penv k s = (Inr (), s\<lparr>m_txPool := q,
      m_sealing := (m_sealing s)\<lparr>s_block := appendTransactions ts (sealing_block s), s_transactionSet := avoid\<rparr>\<rparr>)"
proof -
  obtain a q where "top_loop penv (m_txNonceCheck (m_txPool s)) (min (m_limit (m_txPool s)) k) True (m_txsQueue (m_txPool s))
      \<lparr>ts_ret = [], ts_avoid = s_transactionSet (m_sealing s), ts_expired = [], ts_keys = []\<rparr> = Inr a"
    and a: "ts_ret a = take (min (m_limit (m_txPool s)) k)
      (filter (sealable penv (m_txNonceCheck (m_txPool s)) (s_transactionSet (m_sealing s))) (pendingList (m_txPool s)))"
    and "set (ts_expired a) \<subseteq> expired_hashes penv (m_txNonceCheck (m_txPool s)) (m_txsQueue (m_txPool s))"
    and q: "topTransactions penv k (s_transactionSet (m_sealing s)) True (m_txPool s) = (Inr (ts_ret a, ts_avoid a), q)"
    and "pendingList q = filter (\<lambda>t. tx_hash penv t \<notin> Inr ` set (ts_expired a)) (pendingList (m_txPool s))"
    by (rule top_run [OF assms(1)])
  show thesis
    by (rule that [where ts = "ts_ret a" and q = q and avoid = "ts_avoid a"])
       (use assms(2,3) q in \<open>simp_all add: a loadTransactions_def on_pool_def e_zoom_def e_on_def e_bind_def e_mod_def\<close>)
qed

lemma commit_over_limit:
  assumes "m_maxBlockTransactions (m_pbftEngine s) \<le> m_maxBlockCanSeal s \<or>
    m_lastTimeoutTx s \<noteq> 0 \<and> m_lastTimeoutTx s \<le> m_maxBlockCanSeal s"
  shows "m_maxBlockCanSeal (snd (onCommitBlock env n k c s)) = m_maxBlockCanSeal s"
  using assms by (auto simp: onCommitBlock_def e_on_def e_seq_def e_bind_def e_mod_def e_ret_def e_when_def)

subsection \<open>An example\<close>

text \<open>A chain with only the genesis block, and a node that is its only sealer.\<close>

definition seal_genesis :: Block where
  "seal_genesis = Block_new\<lparr>m_blockHeader := BlockHeader_new\<lparr>m_sealer := 0, m_timestamp := 5\<rparr>\<rparr>"

definition seal_env :: node_env where
  "seal_env = demo_env\<lparr>chain_number := 0, chain_getBlockByNumber := (\<lambda>_. Some seal_genesis),
     chain_numberHash := (\<lambda>_. BlockHeader_hash demo_crypto (m_blockHeader seal_genesis))\<rparr>"

definition seal_demo :: PBFTSealer where
  "seal_demo = snd (sealer_start seal_env (setExtraData [] (setBlockSizeIncreaseRatio True (PBFTSealer_new pool_demo demo_new))))"

lemma seal_demo_start:
  "fst (sealer_start seal_env (setExtraData [] (setBlockSizeIncreaseRatio True (PBFTSealer_new pool_demo demo_new)))) = Inr ()"
  by (simp add: sealer_start_def sealer_base_start_def sealer_reportBlock_def reportBlock_def advanceConsensus_def resetSealingBlock_def resetBlock_def
      on_engine_def e_zoom_def pbft_start_def initPBFTEnv_def resetConfig_def updateMaxBlockTransactions_def
      updateConsensusNodeList_def resetNodeInfo_def initBackupDB_def reloadMsg_def demo_env_def demo_new_def seal_env_def
      PBFTEngine_new_def e_seq_def e_bind_def e_on_def e_mod_def e_ret_def e_when_def e_event_def e_time_def e_cache_def e_lift_def
      node_list_text_def getIndexBySealer_def Let_def u16_def MAXIDX_def fromHex_def u32_def demo_tm_def
      initTimerManager_def seal_genesis_def setExtraData_def setBlockSizeIncreaseRatio_def PBFTSealer_new_def
      engine_onViewChange_def engine_onNotifyNextLeaderReset_def engine_onTimeout_def engine_onCommitBlock_def onCommitBlock_def u64_def)

lemma seal_demo_started: "sealer_started seal_demo"
proof -
  have "numbers_ok seal_env" by (simp add: numbers_ok_def seal_env_def demo_env_def seal_genesis_def BlockHeader_new_def)
  moreover have "pool_started pool_demo" by (auto simp: pool_started_def pool_demo_def)
  moreover have "pbft_new demo_new" unfolding demo_new_def by (rule pbft_new.New)
  ultimately show ?thesis unfolding sealer_started_def seal_demo_def
    using seal_demo_start by (metis prod.collapse)
qed

lemma seal_demo_step: "sealer_step pool_demo_env seal_demo (snd (doWork seal_env pool_demo_env seal_demo))"
  by (rule sealer_step.Work) (simp_all add: numbers_ok_def seal_env_def demo_env_def seal_genesis_def BlockHeader_new_def)

definition seal_idle :: "nat \<Rightarrow> PBFTSealer" where
  "seal_idle limit = PBFTSealer_new pool_demo (demo_engine\<lparr>m_maxBlockTransactions := limit\<rparr>)"

section \<open>Properties\<close>



text \<open>C12: In every state of a node no transaction is twice in the block that is being sealed, every transaction of
the block is among those that will not be fetched again, and the pool is consistent.\<close>

theorem sealed_once:
  assumes "sealer_started s" "(sealer_step penv)\<^sup>*\<^sup>* s t"
  shows "distinct (map (tx_hash penv) (m_transactions (sealing_block t))) \<and>
    tx_hash penv ` set (m_transactions (sealing_block t)) \<subseteq> Inr ` s_transactionSet (m_sealing t) \<and> pool_ok penv (m_txPool t)"
  using sealer.reachable_inv [OF assms] by (simp add: sealer_ok_def packed_def)

theorem sealed_once_witness:
  "pool_ok pool_demo_env (m_txPool (snd (doWork seal_env pool_demo_env seal_demo)))"
  using sealed_once [OF seal_demo_started r_into_rtranclp [of "sealer_step pool_demo_env", OF seal_demo_step]] by blast

text \<open>C9: What the leader proposes is accepted. A block over the transaction limit never reaches the engine. When
the header is set without an exception, the engine gets the block with the transactions that were packed, the
leader's index and a time after the parent's, and this block passes the checks of every node with the same chain,
sealers and limit.\<close>

theorem proposal_accepted:
  assumes "highest_block env = Some p" "m_number (m_blockHeader p) = chain_number env" "0 \<le> chain_number env"
    and "chain_number env < 2 ^ 63 - 1" "m_timestamp (m_blockHeader p) < 2 ^ 64 - 1"
    and "m_sealers e = m_sealers (m_pbftEngine s)" "m_maxBlockTransactions e = m_maxBlockTransactions (m_pbftEngine s)"
    and "m_allowFutureBlocks e" "chain_number env' = chain_number env"
    and "chain_getBlockByHash env' (BlockHeader_hash (env_crypto env) (m_blockHeader p)) \<noteq> None"
    and "chain_numberHash env' (chain_number env) = BlockHeader_hash (env_crypto env) (m_blockHeader p)"
  shows "if m_maxBlockTransactions (m_pbftEngine s) < getTransactionSize (sealing_block s)
    then m_pbftEngine (snd (handleBlock env s)) = m_pbftEngine s
    else case setBlock env s of (Inl x, t) \<Rightarrow> m_pbftEngine (snd (handleBlock env s)) = m_pbftEngine s
      | (Inr x, t) \<Rightarrow>
          m_pbftEngine (snd (handleBlock env s)) = snd (generatePrepare env (sealing_block t) (m_pbftEngine s)) \<and>
          m_transactions (sealing_block t) = m_transactions (sealing_block s) \<and>
          m_sealer (m_blockHeader (sealing_block t)) = word_of_nat (m_idx (m_pbftEngine s)) \<and>
          m_timestamp (m_blockHeader p) < m_timestamp (m_blockHeader (sealing_block t)) \<and>
          checkBlockValid env' e (sealing_block t) = Inr ()"
proof -
  have "m_sealer (m_blockHeader (sealing_block t)) = word_of_nat (m_idx (m_pbftEngine s)) \<and>
      m_timestamp (m_blockHeader p) < m_timestamp (m_blockHeader (sealing_block t)) \<and> checkBlockValid env' e (sealing_block t) = Inr ()"
    if size: "\<not> m_maxBlockTransactions (m_pbftEngine s) < getTransactionSize (sealing_block s)" and t: "setBlock env s = (Inr (), t)" for t
  proof -
    obtain root where h: "m_blockHeader (sealing_block t) = (sealed_header env (m_blockHeader p) s)\<lparr>m_transactionsRoot := root\<rparr>"
      using setBlock_run(3) [OF assms(1) t] by blast
    have "m_number (m_blockHeader (sealing_block t)) = chain_number env + 1"
      unfolding h using assms(2-4) by (simp add: sealed_header_def populateFromParent_def i64_id int64_range_def)
    moreover have "getTransactionSize (sealing_block t) = getTransactionSize (sealing_block s)"
      using setBlock_run(2) [OF assms(1) t] by (simp add: getTransactionSize_def)
    moreover have "m_timestamp (m_blockHeader p) < max (u64 (int (m_timestamp (m_blockHeader p)) + 1)) (env_now env)"
      using assms(5) by (simp add: u64_def)
    ultimately show ?thesis using size assms(3,6-) h
      by (auto simp: sealed_header_def populateFromParent_def checkBlockValid_def checkBlockValid_base_def checkSealerList_def
          blockExists_def Let_def)
  qed
  then show ?thesis using setBlock_run(1,2) [OF assms(1)]
    by (auto simp: handleBlock_engine split: prod.split sum.split)
qed

theorem proposal_accepted_witness:
  "\<exists>t. setBlock seal_env (seal_idle 1000) = (Inr (), t) \<and> checkBlockValid seal_env demo_engine (sealing_block t) = Inr ()"
proof -
  have "\<exists>t. setBlock seal_env (seal_idle 1000) = (Inr (), t)"
    by (simp add: setBlock_def resetSealingHeader_def resetCurrentTime_def set_sealing_block_def seal_env_def demo_env_def
        seal_idle_def PBFTSealer_new_def Sealing_new_def Block_new_def e_seq_def e_bind_def e_on_def e_mod_def e_lift_def Let_def
        calTransactionRoot_def calTransactionRootRC2_def TxsParser_encode_def)
  then show ?thesis
    using proposal_accepted [of seal_env seal_genesis demo_engine "seal_idle 1000" seal_env]
    by (auto simp: seal_env_def demo_env_def seal_genesis_def BlockHeader_new_def seal_idle_def PBFTSealer_new_def
        engine_onViewChange_def engine_onNotifyNextLeaderReset_def Sealing_new_def Block_new_def getTransactionSize_def)
qed

text \<open>C35: The adaptive size of the blocks stays between one and the transaction limit of the chain: a timeout and a
committed block leave it there, and none of the floating point conversions leaves the range of its type. The limit
is below \<open>2^60\<close>, and the ratio of the increase is at most one.\<close>

theorem block_size_bounds:
  assumes "size_ok limit s" "k \<le> limit"
  shows "(\<exists>t. onTimeout env j s = (Inr (), t) \<and> size_ok limit t) \<and> (\<exists>t. onCommitBlock env n k c s = (Inr (), t) \<and> size_ok limit t)"
proof -
  have "\<exists>t. m s = (Inr (), t) \<and> size_ok limit t" if "sized limit m" for m
    using that assms(1) by (cases "m s"; cases "fst (m s)") (force simp: never_def)+
  then show ?thesis using size_timeout size_commit [OF assms(2)] by blast
qed

theorem block_size_bounds_witness:
  "(\<exists>t. onTimeout seal_env 900 (seal_idle 1000) = (Inr (), t) \<and> size_ok 1000 t) \<and>
   (\<exists>t. onCommitBlock seal_env 1 20 0 (seal_idle 1000) = (Inr (), t) \<and> size_ok 1000 t)"
  by (rule block_size_bounds)
     (simp_all add: size_ok_def seal_idle_def PBFTSealer_new_def engine_onViewChange_def engine_onNotifyNextLeaderReset_def fp_one_def)

text \<open>C36: A transaction limit that is lowered below the size of the blocks stalls the leader. As long as the pool
fills the block before the time is up, every round of the sealer drops the block that it has packed, without a
proposal and without a smaller size for the next round; a committed block does not lower the size either.\<close>

theorem lowered_limit_stalls:
  assumes "m_maxBlockTransactions (m_pbftEngine s) < m_maxBlockCanSeal s"
    and "\<not> m_syncBlock s" "\<not> isSealed (sealing_block s)" "m_startConsensus s" "\<not> sync_isSyncing env"
    and "m_accountType (m_pbftEngine s) = SealerAccount" "shouldSeal env (m_pbftEngine s) = (Inr True, m_pbftEngine s)"
    and "getLeader (m_pbftEngine s) = (True, m_idx (m_pbftEngine s))" "highest_block env = Some p"
    and "m_number (m_blockHeader (sealing_block s)) = i64 (chain_number env + 1)" "pool_ok penv (m_txPool s)"
    and "k = m_maxBlockCanSeal s - getTransactionSize (sealing_block s)" "0 < k" "k \<le> m_limit (m_txPool s)"
    and "k \<le> length (filter (sealable penv (m_txNonceCheck (m_txPool s)) (s_transactionSet (m_sealing s))) (pendingList (m_txPool s)))"
    and "\<not> sealer_reachBlockIntervalTime env s"
  shows "\<exists>t. doWork env penv s = (Inr (), t) \<and> m_pbftEngine t = m_pbftEngine s \<and> m_transactions (sealing_block t) = [] \<and>
    m_maxBlockCanSeal t = m_maxBlockCanSeal s \<and> m_maxBlockCanSeal (snd (onCommitBlock env n j c s)) = m_maxBlockCanSeal s"
proof -
  define s1 where "s1 = s\<lparr>m_syncTxPool := True\<rparr>"
  obtain ts q avoid where ts: "length ts = k" and load: "loadTransactions penv k s1 = (Inr (), s1\<lparr>m_txPool := q,
      m_sealing := (m_sealing s1)\<lparr>s_block := appendTransactions ts (sealing_block s1), s_transactionSet := avoid\<rparr>\<rparr>)"
    by (rule load_run [of penv s1 k]) (use assms(11,14,15) in \<open>simp_all add: s1_def\<close>)
  define s2 where "s2 = s1\<lparr>m_txPool := q,
      m_sealing := (m_sealing s1)\<lparr>s_block := appendTransactions ts (sealing_block s1), s_transactionSet := avoid\<rparr>\<rparr>"
  have s2: "m_pbftEngine s2 = m_pbftEngine s" "m_maxBlockCanSeal s2 = m_maxBlockCanSeal s"
      "m_blockHeader (sealing_block s2) = m_blockHeader (sealing_block s)" "getTransactionSize (sealing_block s2) = m_maxBlockCanSeal s"
    using ts assms(12,13) by (simp_all add: s2_def s1_def appendTransactions_def noteChange_def getTransactionSize_def)
  obtain b where b: "resetBlock env False (sealing_block s2) = Inr b" using assms(9) by (simp add: resetBlock_def)
  define s3 where "s3 = s2\<lparr>sl_noted := sl_noted s2 @ [chain_number env],
      m_sealing := \<lparr>s_block = b, s_transactionSet = {}, s_execContext = None\<rparr>\<rparr>"
  have reset: "handleBlock env s2 = (Inr (), s3)"
    using b assms(1) by (simp add: handleBlock_def s2 s3_def resetSealingBlock_def e_seq_def e_bind_def e_on_def e_mod_def e_lift_def)
  have enough: "checkTxsEnough env (m_maxBlockCanSeal s) s2 \<and> shouldHandleBlock env s2"
    using assms(8,10) by (simp add: checkTxsEnough_def shouldHandleBlock_def canHandleBlockForNextLeader_def s2)
  have "reportNewBlock env s = (Inr (), s)" using assms(2) by (simp add: reportNewBlock_def e_on_def e_ret_def)
  moreover have "sealer_shouldSeal env s = (Inr True, s)"
    using assms(3-7) by (simp add: sealer_shouldSeal_def e_on_def on_engine_def e_zoom_def)
  moreover have "fst (pool_status (m_txPool s)) \<noteq> 0"
    using assms(13,15) by (auto simp: pool_status_def pendingList_def)
  moreover have "sealer_reachBlockIntervalTime env s1 = sealer_reachBlockIntervalTime env s"
    by (simp add: sealer_reachBlockIntervalTime_def s1_def)
  moreover have s1: "s\<lparr>m_syncTxPool := fst (pool_status (m_txPool s)) \<noteq> 0\<rparr> = s1" "m_syncTxPool s1" "m_sealing s1 = m_sealing s"
      "m_maxBlockCanSeal s1 = m_maxBlockCanSeal s"
    using calculation(3) by (simp_all add: s1_def)
  ultimately have "doWork env penv s = (Inr (), s3)"
    using load reset enough assms(12,13,16) unfolding doWork_def s2_def [symmetric]
    by (simp add: seq_run [where m = "reportNewBlock env"] e_bind_def e_when_def e_seq_def e_mod_def e_on_def Let_def s1)
  moreover have "m_transactions b = []" by (rule reset_empty [OF b])
  ultimately show ?thesis using commit_over_limit [of s env n j c] assms(1) by (simp add: s3_def s2)
qed

lemma one_tx_pool:
  "\<exists>p. pool_ok pool_demo_env p \<and> m_limit p = 10 \<and> m_txNonceCheck p = m_txNonceCheck pool_demo \<and> pendingList p = [pool_demo_tx]"
proof -
  obtain h where h: "tx_hash pool_demo_env pool_demo_tx = Inr h" using pool_demo_hash by blast
  let ?p = "pool_demo\<lparr>m_txsQueue := queue_emplace \<lparr>pn_id = pool_next pool_demo, pn_tx = pool_demo_tx, pn_callback = None\<rparr> (m_txsQueue pool_demo),
     m_txsHash := um_set h (pool_next pool_demo) (m_txsHash pool_demo), pool_next := Suc (pool_next pool_demo)\<rparr>"
  have "pool_ok pool_demo_env ?p"
    by (rule pool_ok_insert [OF pool_demo_ok h]) (simp_all add: pool_demo_def TxPool_new_def)
  then show ?thesis by (intro exI [of _ ?p]) (simp add: pool_demo_def TxPool_new_def pendingList_def)
qed

theorem lowered_limit_stalls_witness:
  "\<exists>s t. getTransactionSize (sealing_block s) = 1 \<and> m_maxBlockCanSeal s = 2 \<and> m_maxBlockTransactions (m_pbftEngine s) = 1 \<and>
    doWork seal_env pool_demo_env s = (Inr (), t) \<and> m_pbftEngine t = m_pbftEngine s \<and> m_transactions (sealing_block t) = []"
proof -
  obtain p where p: "pool_ok pool_demo_env p" "m_limit p = 10" "m_txNonceCheck p = m_txNonceCheck pool_demo" "pendingList p = [pool_demo_tx]"
    using one_tx_pool by blast
  define e where "e = demo_engine\<lparr>m_maxBlockTransactions := 1, m_consensusBlockNumber := 1, m_highestBlock := m_blockHeader seal_genesis,
    m_timeManager := demo_tm\<lparr>m_lastConsensusTime := 5000\<rparr>\<rparr>"
  define s where "s = (PBFTSealer_new p e)\<lparr>m_startConsensus := True, m_maxBlockCanSeal := 2, m_pbftEngine := e,
    m_sealing := Sealing_new\<lparr>s_block := Block_new\<lparr>m_blockHeader := BlockHeader_new\<lparr>m_number := 1\<rparr>, m_transactions := [pool_demo_tx\<lparr>m_nonce := 8\<rparr>]\<rparr>\<rparr>\<rparr>"
  have leader: "getLeader e = (True, 0)"
    by (simp add: getLeader_def e_def seal_genesis_def BlockHeader_new_def Invalid256_def c_rem_def i64_def u16_def)
  have seal: "shouldSeal seal_env e = (Inr True, e)"
    by (simp add: shouldSeal_def e_on_def leader e_ret_def) (simp add: e_def PBFTReqCache_new_def PrepareReq_new_def PBFTMsg_new_def)
  have lim: "isBlockLimitOk (m_txNonceCheck pool_demo) pool_demo_tx"
    by (simp add: isBlockLimitOk_def pool_demo_def TxPool_new_def pool_demo_nonce pool_demo_tx_def Invalid256_def i64_def)
  have "\<exists>t. doWork seal_env pool_demo_env s = (Inr (), t) \<and> m_pbftEngine t = m_pbftEngine s \<and> m_transactions (sealing_block t) = [] \<and>
    m_maxBlockCanSeal t = m_maxBlockCanSeal s \<and> m_maxBlockCanSeal (snd (onCommitBlock seal_env 0 0 0 s)) = m_maxBlockCanSeal s"
    by (rule lowered_limit_stalls [where k = 1 and p = seal_genesis])
       (use p seal lim leader in \<open>simp_all add: s_def PBFTSealer_new_def Sealing_new_def Block_new_def isSealed_def BlockHeader_new_def
          getTransactionSize_def sealable_def seal_env_def demo_env_def i64_def
          sealer_reachBlockIntervalTime_def reachBlockIntervalTime_def reachMinBlockGenTime_def\<close>,
        simp_all add: e_def demo_tm_def u64_def)
  moreover have "getTransactionSize (sealing_block s) = 1" "m_maxBlockCanSeal s = 2" "m_maxBlockTransactions (m_pbftEngine s) = 1"
    by (simp_all add: s_def e_def getTransactionSize_def)
  ultimately show ?thesis by blast
qed

text \<open>C37: A transaction limit that is raised can shrink the blocks for good. When the size is below the new limit and
no timeout has been recorded, the next committed block lowers the size to at most 110 percent of the largest block
so far, although it should be increased, and committed blocks leave it there.\<close>

theorem raised_limit_shrinks:
  assumes "size_ok limit s" "m_maxBlockCanSeal s < limit" "m_lastTimeoutTx s = 0" "m_timeoutCount s \<le> 0"
    and "\<not> sync_isSyncing env" "m_lastBlockNumber s < n" "k \<le> m_maxNoTimeoutTx s"
    and "10 < m_maxNoTimeoutTx s" "m_maxNoTimeoutTx s < 2 ^ 40" "4 * m_maxNoTimeoutTx s < m_maxBlockCanSeal s"
  shows "\<exists>t. onCommitBlock env n k 0 s = (Inr (), t) \<and> 10 * m_maxBlockCanSeal t \<le> 11 * m_maxNoTimeoutTx s \<and>
    m_maxBlockCanSeal t < m_maxBlockCanSeal s \<and>
    m_maxBlockCanSeal (snd (onCommitBlock env' n' k' c' t)) = m_maxBlockCanSeal t"
proof -
  let ?m = "m_maxNoTimeoutTx s"
  let ?s = "s\<lparr>m_lastBlockNumber := u64 (chain_number env)\<rparr>"
  obtain v where v: "fp_to_u64 (fp_mult 53 (fp_of_u64 53 ?m) fp_eleven_tenths) = Some v" "?m \<le> v" "10 * v \<le> 11 * ?m"
    using timeout_tenths(2) [OF assms(8,9)] by blast
  have size: "size_ok limit ?s" "m_maxBlockTransactions (m_pbftEngine s) = limit" using assms(1) by (simp_all add: size_ok_def)
  obtain i where i: "m_maxBlockCanSeal s \<le> 2 * i" "increase_size ?s = (Inr (), ?s\<lparr>m_maxBlockCanSeal := i\<rparr>)"
    using increase_run [OF size(1)] by auto
  define t where "t = ?s\<lparr>m_maxBlockCanSeal := v, m_lastTimeoutTx := v\<rparr>"
  have attemp: "attempIncreaseTimeoutTx (?s\<lparr>m_maxBlockCanSeal := i\<rparr>) = (Inr (), ?s\<lparr>m_maxBlockCanSeal := i, m_lastTimeoutTx := v\<rparr>)"
    using v timeout_tenths(1) [OF assms(8,9)] assms(2,3,8,10) size(2)
    by (simp add: attempIncreaseTimeoutTx_def limit_timeout_def e_on_def e_seq_def e_bind_def e_mod_def)
  have "increaseMaxTxsCanSeal ?s = (Inr (), t)"
    using attemp v i assms(2,3,8,10) size(2)
    by (simp add: increaseMaxTxsCanSeal_def seq_run [where m = increase_size, OF i(2)] e_seq_def e_bind_def e_on_def e_when_def e_mod_def
        below_timeout_def above_no_timeout_def within_limit_def t_def)
  then have "onCommitBlock env n k 0 s = (Inr (), t)"
    using assms(2-8) size(2) by (simp add: onCommitBlock_def e_on_def e_seq_def e_bind_def e_mod_def e_when_def e_ret_def)
  moreover have "m_maxBlockCanSeal t = v" "m_lastTimeoutTx t = v" "v \<noteq> 0" using v(2) assms(8) by (simp_all add: t_def)
  ultimately show ?thesis using v assms(8,10) commit_over_limit [of t env' n' k' c'] by auto
qed

theorem raised_limit_shrinks_witness:
  "\<exists>t. onCommitBlock seal_env 1 15 0 ((seal_idle 2000)\<lparr>m_maxNoTimeoutTx := 20\<rparr>) = (Inr (), t) \<and> m_maxBlockCanSeal t \<le> 22 \<and>
    m_maxBlockCanSeal ((seal_idle 2000)\<lparr>m_maxNoTimeoutTx := 20\<rparr>) = 1000 \<and>
    m_maxBlockCanSeal (snd (onCommitBlock seal_env 2 22 0 t)) = m_maxBlockCanSeal t"
proof -
  let ?s = "(seal_idle 2000)\<lparr>m_maxNoTimeoutTx := 20\<rparr>"
  have "size_ok 2000 ?s"
    by (simp add: size_ok_def seal_idle_def PBFTSealer_new_def engine_onViewChange_def engine_onNotifyNextLeaderReset_def fp_one_def)
  from raised_limit_shrinks [OF this, of seal_env 1 15 seal_env 2 22 0]
  show ?thesis by (force simp: seal_idle_def PBFTSealer_new_def seal_env_def demo_env_def)
qed

end
