(* ===== verification/Tx_DAG.thy ===== *)
theory Tx_DAG
  imports BCOS_Prelude "HOL-Library.Multiset"
begin

text \<open>
  libblockverifier/DAG and libblockverifier/TxDAG: the dependency graph of the transactions of a block and its
  parallel execution.

  The graph is a list of vertices with their counters and edges, and a queue of the vertices that are ready. A
  transaction is given by its critical fields, \<open>None\<close> when it must not run in parallel. The threads that execute
  the graph are explicit: each step of \<open>para_step\<close> is one atomic access of one thread. The execution of a
  transaction is one step and is a parameter. The counter of a vertex counts stored edges and is not wrapped.
\<close>

section \<open>Definitions\<close>

subsection \<open>The graph\<close>

definition INVALID_ID :: nat where "INVALID_ID = 2 ^ 32 - 1"

record Vertex =
  inDegree :: nat
  outEdge :: "nat list"

record DAG =
  m_vtxs :: "Vertex list"
  m_topLevel :: "nat list"
  m_totalVtxs :: nat
  m_totalConsume :: nat

definition DAG_new :: DAG where
  "DAG_new = \<lparr>m_vtxs = [], m_topLevel = [], m_totalVtxs = 0, m_totalConsume = 0\<rparr>"

text \<open>The queue is not cleared.\<close>

definition DAG_clear :: "DAG \<Rightarrow> DAG" where
  "DAG_clear g = g\<lparr>m_vtxs := []\<rparr>"

definition DAG_init :: "nat \<Rightarrow> DAG \<Rightarrow> DAG" where
  "DAG_init maxSize g = (DAG_clear g)\<lparr>m_vtxs := replicate maxSize \<lparr>inDegree = 0, outEdge = []\<rparr>,
     m_totalVtxs := maxSize, m_totalConsume := 0\<rparr>"

text \<open>An access beyond the vertices is undefined: \<open>None\<close>. The check in front of it lets one of the two through.\<close>

definition addEdge :: "nat \<Rightarrow> nat \<Rightarrow> DAG \<Rightarrow> DAG option" where
  "addEdge f t g =
     (if length (m_vtxs g) \<le> f \<and> length (m_vtxs g) \<le> t then Some g
      else if length (m_vtxs g) \<le> f \<or> length (m_vtxs g) \<le> t then None
      else let vs = (m_vtxs g)[f := (m_vtxs g ! f)\<lparr>outEdge := outEdge (m_vtxs g ! f) @ [t]\<rparr>] in
        Some (g\<lparr>m_vtxs := vs[t := (vs ! t)\<lparr>inDegree := inDegree (vs ! t) + 1\<rparr>]\<rparr>))"

definition generate :: "DAG \<Rightarrow> DAG" where
  "generate g = g\<lparr>m_topLevel := m_topLevel g @ filter (\<lambda>i. inDegree (m_vtxs g ! i) = 0) [0..<length (m_vtxs g)]\<rparr>"

text \<open>\<open>waitPop\<close> when it does not find a vertex returns \<open>INVALID_ID\<close>, at the latest when its time is up.\<close>

definition waitPop :: "DAG \<Rightarrow> nat \<times> DAG" where
  "waitPop g = (case m_topLevel g of [] \<Rightarrow> (INVALID_ID, g) | i # rest \<Rightarrow> (i, g\<lparr>m_topLevel := rest\<rparr>))"

text \<open>One round of the loop of \<open>consume\<close>: a counter is decremented; of the vertices that become ready the first
is kept and the others are queued.\<close>

definition consume_edge :: "nat \<Rightarrow> nat \<Rightarrow> nat \<Rightarrow> DAG \<Rightarrow> nat \<times> nat \<times> DAG" where
  "consume_edge i producedNum nextId g =
     (let lastDegree = inDegree (m_vtxs g ! i);
          g = g\<lparr>m_vtxs := (m_vtxs g)[i := (m_vtxs g ! i)\<lparr>inDegree := lastDegree - 1\<rparr>]\<rparr> in
      if lastDegree = 1
      then if producedNum = 0 then (1, i, g) else (producedNum + 1, nextId, g\<lparr>m_topLevel := m_topLevel g @ [i]\<rparr>)
      else (producedNum, nextId, g))"

definition consume_done :: "DAG \<Rightarrow> DAG" where
  "consume_done g = g\<lparr>m_totalConsume := m_totalConsume g + 1\<rparr>"

subsection \<open>The graph of a block\<close>

record CriticalField =
  m_criticals :: "(string, nat) umap"
  m_criticalAll :: nat

definition CriticalField_new :: CriticalField where
  "CriticalField_new = \<lparr>m_criticals = [], m_criticalAll = INVALID_ID\<rparr>"

definition cf_get :: "CriticalField \<Rightarrow> string \<Rightarrow> nat" where
  "cf_get cf c = (case um_find (m_criticals cf) c of None \<Rightarrow> m_criticalAll cf | Some i \<Rightarrow> i)"

definition cf_update :: "nat \<Rightarrow> string \<Rightarrow> CriticalField \<Rightarrow> CriticalField" where
  "cf_update i c cf = cf\<lparr>m_criticals := um_set c i (m_criticals cf)\<rparr>"

text \<open>The vertices that \<open>foreachField\<close> visits. Their order does not matter, since each one gets an edge to the same
vertex.\<close>

definition foreachField :: "CriticalField \<Rightarrow> nat list" where
  "foreachField cf = map snd (m_criticals cf) @ (if m_criticalAll cf \<noteq> INVALID_ID then [m_criticalAll cf] else [])"

definition setCriticalAll :: "nat \<Rightarrow> CriticalField \<Rightarrow> CriticalField" where
  "setCriticalAll i cf = \<lparr>m_criticals = [], m_criticalAll = i\<rparr>"

fun addEdges :: "nat list \<Rightarrow> nat \<Rightarrow> DAG \<Rightarrow> DAG option" where
  "addEdges [] t g = Some g"
| "addEdges (f # fs) t g = (case addEdge f t g of None \<Rightarrow> None | Some g \<Rightarrow> addEdges fs t g)"

definition sources :: "CriticalField \<Rightarrow> string list option \<Rightarrow> nat list" where
  "sources cf criticals =
     (case criticals of Some cs \<Rightarrow> filter (\<lambda>i. i \<noteq> INVALID_ID) (map (cf_get cf) cs) | None \<Rightarrow> foreachField cf)"

definition note_tx :: "nat \<Rightarrow> string list option \<Rightarrow> CriticalField \<Rightarrow> CriticalField" where
  "note_tx i criticals cf = (case criticals of Some cs \<Rightarrow> fold (cf_update i) cs cf | None \<Rightarrow> setCriticalAll i cf)"

fun TxDAG_loop :: "nat \<Rightarrow> string list option list \<Rightarrow> CriticalField \<Rightarrow> DAG \<Rightarrow> DAG option" where
  "TxDAG_loop i [] cf g = Some g"
| "TxDAG_loop i (criticals # rest) cf g =
     (case addEdges (sources cf criticals) i g of
        None \<Rightarrow> None
      | Some g \<Rightarrow> TxDAG_loop (Suc i) rest (note_tx i criticals cf) g)"

definition TxDAG_init :: "string list option list \<Rightarrow> DAG option" where
  "TxDAG_init txs = map_option generate (TxDAG_loop 0 txs CriticalField_new (DAG_init (length txs) DAG_new))"

subsection \<open>Threads\<close>

text \<open>\<open>executeUnit\<close>: a thread waits for a vertex, executes its transaction, consumes its edges one by one, and goes
on with the vertex that \<open>consume\<close> returns.\<close>

datatype Worker = Idle | Exec nat | Consume nat "nat list" nat nat

record 's TxDAG =
  m_dag :: DAG
  workers :: "Worker list"
  m_exeCnt :: nat
  exe_state :: 's
  exe_log :: "nat list"

definition hasFinished :: "'s TxDAG \<Rightarrow> bool" where
  "hasFinished p \<longleftrightarrow> m_totalVtxs (m_dag p) \<le> m_exeCnt p"

inductive para_step :: "(nat \<Rightarrow> 's \<Rightarrow> 's) \<Rightarrow> 's TxDAG \<Rightarrow> 's TxDAG \<Rightarrow> bool" for f where
  Pop: "k < length (workers p) \<Longrightarrow> workers p ! k = Idle \<Longrightarrow> waitPop (m_dag p) = (i, g) \<Longrightarrow> i \<noteq> INVALID_ID \<Longrightarrow>
    para_step f p (p\<lparr>m_dag := g, workers := (workers p)[k := Exec i]\<rparr>)"
| Run: "k < length (workers p) \<Longrightarrow> workers p ! k = Exec i \<Longrightarrow>
    para_step f p (p\<lparr>workers := (workers p)[k := Consume i (outEdge (m_vtxs (m_dag p) ! i)) 0 INVALID_ID],
      m_exeCnt := m_exeCnt p + 1, exe_state := f i (exe_state p), exe_log := exe_log p @ [i]\<rparr>)"
| Edge: "k < length (workers p) \<Longrightarrow> workers p ! k = Consume i (v # vs) n nx \<Longrightarrow> consume_edge v n nx (m_dag p) = (n', nx', g) \<Longrightarrow>
    para_step f p (p\<lparr>m_dag := g, workers := (workers p)[k := Consume i vs n' nx']\<rparr>)"
| Done: "k < length (workers p) \<Longrightarrow> workers p ! k = Consume i [] n nx \<Longrightarrow>
    para_step f p (p\<lparr>m_dag := consume_done (m_dag p),
      workers := (workers p)[k := if nx = INVALID_ID then Idle else Exec nx]\<rparr>)"

inductive_cases para_stepE: "para_step f p q"

text \<open>The same steps as a function of the thread that takes one, and a schedule of threads.\<close>

definition worker_step :: "(nat \<Rightarrow> 's \<Rightarrow> 's) \<Rightarrow> nat \<Rightarrow> 's TxDAG \<Rightarrow> 's TxDAG option" where
  "worker_step f k p =
     (if length (workers p) \<le> k then None
      else case workers p ! k of
        Idle \<Rightarrow> (case waitPop (m_dag p) of (i, g) \<Rightarrow>
          if i = INVALID_ID then None else Some (p\<lparr>m_dag := g, workers := (workers p)[k := Exec i]\<rparr>))
      | Exec i \<Rightarrow> Some (p\<lparr>workers := (workers p)[k := Consume i (outEdge (m_vtxs (m_dag p) ! i)) 0 INVALID_ID],
          m_exeCnt := m_exeCnt p + 1, exe_state := f i (exe_state p), exe_log := exe_log p @ [i]\<rparr>)
      | Consume i [] n nx \<Rightarrow> Some (p\<lparr>m_dag := consume_done (m_dag p),
          workers := (workers p)[k := if nx = INVALID_ID then Idle else Exec nx]\<rparr>)
      | Consume i (v # vs) n nx \<Rightarrow> (case consume_edge v n nx (m_dag p) of (n', nx', g) \<Rightarrow>
          Some (p\<lparr>m_dag := g, workers := (workers p)[k := Consume i vs n' nx']\<rparr>)))"

fun run_schedule :: "(nat \<Rightarrow> 's \<Rightarrow> 's) \<Rightarrow> nat list \<Rightarrow> 's TxDAG \<Rightarrow> 's TxDAG option" where
  "run_schedule f [] p = Some p"
| "run_schedule f (k # ks) p = (case worker_step f k p of None \<Rightarrow> None | Some q \<Rightarrow> run_schedule f ks q)"

definition para_start :: "nat \<Rightarrow> DAG \<Rightarrow> 's \<Rightarrow> 's TxDAG" where
  "para_start threads g s = \<lparr>m_dag = g, workers = replicate threads Idle, m_exeCnt = 0, exe_state = s, exe_log = []\<rparr>"

section \<open>Generic lemmas\<close>

lemma mset_concat_update: "k < length xs \<Longrightarrow> mset (concat (xs[k := y])) + mset (xs ! k) = mset (concat xs) + mset y"
proof (induction xs arbitrary: k)
  case (Cons x xs)
  then show ?case by (cases k) (simp_all add: union_ac)
qed simp

lemma sum_list_update_nat: "k < length xs \<Longrightarrow> sum_list (xs[k := y]) + xs ! k = sum_list xs + (y :: nat)"
proof (induction xs arbitrary: k)
  case (Cons x xs)
  then show ?case by (cases k) simp_all
qed simp

text \<open>Elements that are out of order commute: sorting does not change what is computed.\<close>

lemma fold_insort:
  fixes f :: "'k :: linorder \<Rightarrow> 's \<Rightarrow> 's"
  assumes "\<And>y. y \<in> set xs \<Longrightarrow> y < x \<Longrightarrow> f x \<circ> f y = f y \<circ> f x"
  shows "fold f (insort x xs) = fold f (x # xs)"
  using assms
proof (induction xs)
  case (Cons y ys)
  show ?case
  proof (cases "x \<le> y")
    case False
    then have "fold f ys \<circ> f x \<circ> f y = fold f ys \<circ> f y \<circ> f x"
      using Cons.prems [of y] by (simp add: fun_eq_iff)
    moreover have "fold f (insort x ys) = fold f (x # ys)" by (rule Cons.IH) (use Cons.prems in simp)
    ultimately show ?thesis using False by (simp add: fun_eq_iff)
  qed simp
qed simp

lemma fold_sort:
  fixes f :: "'k :: linorder \<Rightarrow> 's \<Rightarrow> 's"
  assumes "\<And>i j. i < j \<Longrightarrow> j < length xs \<Longrightarrow> xs ! j < xs ! i \<Longrightarrow> f (xs ! i) \<circ> f (xs ! j) = f (xs ! j) \<circ> f (xs ! i)"
  shows "fold f (sort xs) = fold f xs"
  using assms
proof (induction xs)
  case (Cons x xs)
  have "fold f (sort xs) = fold f xs" by (rule Cons.IH) (use Cons.prems [of "Suc _" "Suc _"] in simp)
  moreover have "f x \<circ> f y = f y \<circ> f x" if "y \<in> set (sort xs)" "y < x" for y
    using that Cons.prems [of 0 "Suc _"] by (auto simp: in_set_conv_nth fun_eq_iff)
  ultimately show ?case using fold_insort [of "sort xs" x f] by simp
qed simp

section \<open>The graph of a block\<close>

definition in_count :: "nat list list \<Rightarrow> nat \<Rightarrow> nat" where
  "in_count es v = sum_list (map (\<lambda>e. count_list e v) es)"

abbreviation out_edges :: "DAG \<Rightarrow> nat list list" where
  "out_edges g \<equiv> map outEdge (m_vtxs g)"

definition edges :: "nat list list \<Rightarrow> (nat \<times> nat) set" where
  "edges es = {(u, v). u < length es \<and> v \<in> set (es ! u)}"

text \<open>Edges go from earlier to later transactions, and a counter is the number of edges into its vertex.\<close>

definition dag_ok :: "DAG \<Rightarrow> bool" where
  "dag_ok g \<longleftrightarrow> (\<forall>(u, v) \<in> edges (out_edges g). u < v \<and> v < length (m_vtxs g)) \<and>
     (\<forall>v < length (m_vtxs g). inDegree (m_vtxs g ! v) = in_count (out_edges g) v)"

lemma in_count_0: "in_count es v = 0 \<longleftrightarrow> (\<forall>u. (u, v) \<notin> edges es)"
  by (auto simp: in_count_def edges_def count_list_0_iff all_set_conv_all_nth)

lemma addEdge_ok:
  assumes "dag_ok g" "f < t" "t < length (m_vtxs g)"
  shows "\<exists>g'. addEdge f t g = Some g' \<and> dag_ok g' \<and> length (m_vtxs g') = length (m_vtxs g) \<and>
    edges (out_edges g') = insert (f, t) (edges (out_edges g)) \<and> m_topLevel g' = m_topLevel g \<and> m_totalVtxs g' = m_totalVtxs g"
proof -
  define es where "es = (out_edges g)[f := outEdge (m_vtxs g ! f) @ [t]]"
  define vs where "vs = (m_vtxs g)[f := (m_vtxs g ! f)\<lparr>outEdge := outEdge (m_vtxs g ! f) @ [t]\<rparr>]"
  define g' where "g' = g\<lparr>m_vtxs := vs[t := (vs ! t)\<lparr>inDegree := inDegree (vs ! t) + 1\<rparr>]\<rparr>"
  have len: "f < length (m_vtxs g)" "length (out_edges g) = length (m_vtxs g)" using assms(2,3) by simp_all
  have "outEdge (vs ! t) = es ! t" using assms(3) len by (simp add: vs_def es_def nth_list_update)
  moreover have "map outEdge vs = es" by (simp add: vs_def es_def map_update)
  ultimately have out: "out_edges g' = es" by (simp add: g'_def map_update vs_def es_def)
  have edges: "edges es = insert (f, t) (edges (out_edges g))"
    using len(1) by (auto simp: edges_def es_def nth_list_update split: if_splits)
  have count: "in_count es v = in_count (out_edges g) v + (if v = t then 1 else 0)" for v
    using sum_list_update_nat [of f "map (\<lambda>e. count_list e v) (out_edges g)" "count_list (outEdge (m_vtxs g ! f) @ [t]) v"] len(1)
    by (simp add: in_count_def es_def map_update split: if_splits)
  have "inDegree (m_vtxs g' ! v) = inDegree (m_vtxs g ! v) + (if v = t then 1 else 0)" if "v < length (m_vtxs g)" for v
    using that assms(3) by (cases "v = f"; cases "t = f") (simp_all add: g'_def vs_def nth_list_update)
  then have "dag_ok g'" using assms count edges unfolding dag_ok_def out by (auto simp: g'_def vs_def)
  moreover have "addEdge f t g = Some g'" using assms(3) len(1) by (simp add: addEdge_def g'_def vs_def Let_def)
  ultimately show ?thesis using out edges by (simp add: g'_def vs_def)
qed

lemma addEdges_ok:
  assumes "dag_ok g" "set fs \<subseteq> {..<t}" "t < length (m_vtxs g)"
  shows "\<exists>g'. addEdges fs t g = Some g' \<and> dag_ok g' \<and> length (m_vtxs g') = length (m_vtxs g) \<and>
    edges (out_edges g') = edges (out_edges g) \<union> set fs \<times> {t} \<and> m_topLevel g' = m_topLevel g \<and> m_totalVtxs g' = m_totalVtxs g"
  using assms
proof (induction fs arbitrary: g)
  case (Cons f fs)
  obtain g1 where 1: "addEdge f t g = Some g1" "dag_ok g1" "length (m_vtxs g1) = length (m_vtxs g)"
    "edges (out_edges g1) = insert (f, t) (edges (out_edges g))" "m_topLevel g1 = m_topLevel g" "m_totalVtxs g1 = m_totalVtxs g"
    using addEdge_ok [of g f t] Cons.prems by auto
  show ?case using Cons.IH [of g1] Cons.prems 1 by auto
qed simp

text \<open>What a transaction conflicts with: one without critical fields conflicts with everything that has some.\<close>

definition dag_conflict :: "string list option \<Rightarrow> string list option \<Rightarrow> bool" where
  "dag_conflict a b =
     (case (a, b) of
        (None, None) \<Rightarrow> True
      | (None, Some cs) \<Rightarrow> cs \<noteq> []
      | (Some cs, None) \<Rightarrow> cs \<noteq> []
      | (Some cs, Some ds) \<Rightarrow> set cs \<inter> set ds \<noteq> {})"

lemma dag_conflict_Some:
  "dag_conflict a (Some ds) \<longleftrightarrow> (\<exists>c \<in> set ds. case a of None \<Rightarrow> True | Some cs \<Rightarrow> c \<in> set cs)"
  by (auto simp: dag_conflict_def ex_in_conv [symmetric] simp flip: set_empty split: option.split)

lemma dag_conflict_None: "dag_conflict a None \<longleftrightarrow> (case a of None \<Rightarrow> True | Some cs \<Rightarrow> \<exists>c. c \<in> set cs)"
  by (auto simp: dag_conflict_def ex_in_conv split: option.split)

definition reaches :: "(nat \<times> nat) set \<Rightarrow> CriticalField \<Rightarrow> nat \<Rightarrow> string \<Rightarrow> bool" where
  "reaches E cf j c \<longleftrightarrow> cf_get cf c \<noteq> INVALID_ID \<and> (j, cf_get cf c) \<in> E\<^sup>*"

text \<open>The last transaction that holds a field of an earlier one depends on it.\<close>

definition linked :: "(nat \<times> nat) set \<Rightarrow> CriticalField \<Rightarrow> nat \<Rightarrow> string list option \<Rightarrow> bool" where
  "linked E cf j tx =
     (case tx of
        Some cs \<Rightarrow> \<forall>c \<in> set cs. reaches E cf j c
      | None \<Rightarrow> (\<forall>c. reaches E cf j c) \<and> m_criticalAll cf \<noteq> INVALID_ID \<and> (j, m_criticalAll cf) \<in> E\<^sup>*)"

lemma cf_get_visited: "cf_get cf c = INVALID_ID \<or> cf_get cf c \<in> set (foreachField cf)"
  by (auto simp: cf_get_def foreachField_def um_find_def split: option.splits dest: map_of_SomeD intro: rev_image_eqI)

lemma cf_get_update: "cf_get (cf_update i a cf) c = (if c = a then i else cf_get cf c)"
  by (simp add: cf_get_def cf_update_def um_find_set_eq split: option.split)

lemma cf_get_fold: "cf_get (fold (cf_update i) cs cf) c = (if c \<in> set cs then i else cf_get cf c)"
  by (induction cs arbitrary: cf) (auto simp: cf_get_update)

lemma criticalAll_fold: "m_criticalAll (fold (cf_update i) cs cf) = m_criticalAll cf"
  by (induction cs arbitrary: cf) (auto simp: cf_update_def)

lemma cf_get_all: "cf_get (setCriticalAll i cf) c = i" "m_criticalAll (setCriticalAll i cf) = i"
  by (simp_all add: cf_get_def setCriticalAll_def um_find_def)

lemma set_um_set: "set (um_set k v m) \<subseteq> insert (k, v) (set m)"
  unfolding um_set_def by (induction m) auto

lemma visited_fold: "set (foreachField (fold (cf_update i) cs cf)) \<subseteq> insert i (set (foreachField cf))"
proof (induction cs arbitrary: cf)
  case (Cons c cs)
  have "set (foreachField (cf_update i c cf)) \<subseteq> insert i (set (foreachField cf))"
    using image_mono [OF set_um_set [of c i "m_criticals cf"], of snd] by (auto simp: foreachField_def cf_update_def)
  then show ?case using Cons.IH [of "cf_update i c cf"] by auto
qed auto

lemma visited_note: "set (foreachField (note_tx i tx cf)) \<subseteq> insert i (set (foreachField cf))"
  using visited_fold [of i _ cf] by (auto simp: note_tx_def foreachField_def setCriticalAll_def split: option.splits)

lemma sources_visited: "set (sources cf tx) \<subseteq> set (foreachField cf)"
  using cf_get_visited [of cf] by (auto simp: sources_def split: option.splits)

lemma linked_sources:
  assumes "linked E cf j a" "dag_conflict a b"
  shows "\<exists>p \<in> set (sources cf b). (j, p) \<in> E\<^sup>*"
proof (cases b)
  case (Some ds)
  then obtain c where "c \<in> set ds" "reaches E cf j c"
    using assms by (cases a) (auto simp: linked_def dag_conflict_Some)
  then show ?thesis using Some by (auto simp: reaches_def sources_def)
next
  case None
  have "m_criticalAll cf \<in> set (foreachField cf)" if "m_criticalAll cf \<noteq> INVALID_ID" using that by (simp add: foreachField_def)
  moreover have "cf_get cf c \<in> set (foreachField cf)" if "reaches E cf j c" for c
    using that cf_get_visited [of cf c] by (auto simp: reaches_def)
  ultimately show ?thesis
    using assms None by (cases a) (auto simp: linked_def dag_conflict_None sources_def reaches_def)
qed

lemma linked_note:
  assumes "linked E cf j tx" "i \<noteq> INVALID_ID"
  shows "linked (E \<union> set (sources cf b) \<times> {i}) (note_tx i b cf) j tx"
proof -
  let ?E = "E \<union> set (sources cf b) \<times> {i}"
  have mono: "E\<^sup>* \<subseteq> ?E\<^sup>*" by (rule rtrancl_mono) simp
  have into: "(j, i) \<in> ?E\<^sup>*" if "dag_conflict tx b"
    using linked_sources [OF assms(1) that] mono by (auto intro: rtrancl_into_rtrancl)
  show ?thesis
  proof (cases b)
    case None
    then show ?thesis using into assms(2)
      by (cases tx) (auto simp: linked_def note_tx_def reaches_def cf_get_all dag_conflict_None)
  next
    case (Some ds)
    have "reaches ?E (note_tx i b cf) j c" if "reaches E cf j c" "c \<in> set ds \<Longrightarrow> dag_conflict tx b" for c
      using that into assms(2) mono Some by (auto simp: reaches_def note_tx_def cf_get_fold)
    then show ?thesis using assms mono Some
      by (cases tx) (auto simp: linked_def dag_conflict_Some note_tx_def criticalAll_fold)
  qed
qed

lemma linked_self: "i \<noteq> INVALID_ID \<Longrightarrow> linked E (note_tx i b cf) i b"
  by (auto simp: linked_def note_tx_def reaches_def cf_get_all cf_get_fold split: option.splits)

text \<open>The invariant of the loop of \<open>TxDAG::init\<close> in front of transaction \<open>i\<close>.\<close>

definition init_ok :: "string list option list \<Rightarrow> nat \<Rightarrow> CriticalField \<Rightarrow> DAG \<Rightarrow> bool" where
  "init_ok ts i cf g \<longleftrightarrow> dag_ok g \<and> length (m_vtxs g) = length ts \<and> m_totalVtxs g = length ts \<and> m_topLevel g = [] \<and>
     set (foreachField cf) \<subseteq> {..<i} \<and> (\<forall>j < i. linked (edges (out_edges g)) cf j (ts ! j)) \<and>
     (\<forall>k < i. \<forall>j < k. dag_conflict (ts ! j) (ts ! k) \<longrightarrow> (j, k) \<in> (edges (out_edges g))\<^sup>+)"

lemma init_step:
  assumes "init_ok ts i cf g" "i < length ts" "length ts \<le> INVALID_ID"
  shows "\<exists>g'. addEdges (sources cf (ts ! i)) i g = Some g' \<and> init_ok ts (Suc i) (note_tx i (ts ! i) cf) g'"
proof -
  let ?fs = "sources cf (ts ! i)"
  have ok: "dag_ok g" "length (m_vtxs g) = length ts" "set (foreachField cf) \<subseteq> {..<i}" using assms(1) by (simp_all add: init_ok_def)
  obtain g' where g': "addEdges ?fs i g = Some g'" "dag_ok g'" "length (m_vtxs g') = length ts"
    "edges (out_edges g') = edges (out_edges g) \<union> set ?fs \<times> {i}" "m_topLevel g' = []" "m_totalVtxs g' = length ts"
    using addEdges_ok [of g ?fs i] ok sources_visited [of cf "ts ! i"] assms by (auto simp: init_ok_def)
  let ?E = "edges (out_edges g')"
  have sub: "(edges (out_edges g))\<^sup>+ \<subseteq> ?E\<^sup>+" "(edges (out_edges g))\<^sup>* \<subseteq> ?E\<^sup>*"
    using g'(4) by (auto intro: trancl_mono rtrancl_mono [THEN subsetD])
  have "linked ?E (note_tx i (ts ! i) cf) j (ts ! j)" if "j < Suc i" for j
    using that assms linked_note [of "edges (out_edges g)" cf j "ts ! j" i "ts ! i"] linked_self [of i ?E "ts ! i" cf] g'(4)
    by (cases "j = i") (auto simp: init_ok_def)
  moreover have "(j, i) \<in> ?E\<^sup>+" if "j < i" and c: "dag_conflict (ts ! j) (ts ! i)" for j
  proof -
    have "linked (edges (out_edges g)) cf j (ts ! j)" using that assms(1) by (simp add: init_ok_def)
    from linked_sources [OF this c] show ?thesis using g'(4) sub by (auto intro: rtrancl_into_trancl1)
  qed
  then have "(j, k) \<in> ?E\<^sup>+" if "k < Suc i" "j < k" "dag_conflict (ts ! j) (ts ! k)" for j k
    using that assms(1) sub by (cases "k = i") (auto simp: init_ok_def)
  moreover have "set (foreachField (note_tx i (ts ! i) cf)) \<subseteq> {..<Suc i}"
    using visited_note [of i "ts ! i" cf] ok(3) by (auto simp: less_Suc_eq)
  ultimately show ?thesis using g' by (auto simp: init_ok_def)
qed

lemma loop_ok:
  assumes "init_ok ts i cf g" "i \<le> length ts" "length ts \<le> INVALID_ID"
  shows "\<exists>cf' g'. TxDAG_loop i (drop i ts) cf g = Some g' \<and> init_ok ts (length ts) cf' g'"
  using assms
proof (induction "length ts - i" arbitrary: i cf g)
  case (Suc n)
  then have i: "i < length ts" by simp
  obtain g1 where 1: "addEdges (sources cf (ts ! i)) i g = Some g1" "init_ok ts (Suc i) (note_tx i (ts ! i) cf) g1"
    using init_step [OF Suc.prems(1) i Suc.prems(3)] by blast
  have "n = length ts - Suc i" "Suc i \<le> length ts" using Suc.hyps(2) i by simp_all
  from Suc.hyps(1) [OF this(1) 1(2) this(2) Suc.prems(3)] show ?case
    using 1(1) by (simp add: Cons_nth_drop_Suc [OF i, symmetric])
qed auto

lemma TxDAG_init_ok:
  assumes "length ts \<le> INVALID_ID"
  obtains g where "TxDAG_init ts = Some g" "dag_ok g" "length (m_vtxs g) = length ts" "m_totalVtxs g = length ts"
    "m_topLevel g = filter (\<lambda>i. inDegree (m_vtxs g ! i) = 0) [0..<length ts]"
    "\<forall>j < length ts. \<forall>i < j. dag_conflict (ts ! i) (ts ! j) \<longrightarrow> (i, j) \<in> (edges (out_edges g))\<^sup>+"
proof -
  have "init_ok ts 0 CriticalField_new (DAG_init (length ts) DAG_new)"
    by (auto simp: init_ok_def dag_ok_def edges_def in_count_def DAG_init_def DAG_clear_def DAG_new_def
      CriticalField_new_def foreachField_def)
  from loop_ok [OF this] assms obtain cf g where
    g: "TxDAG_loop 0 ts CriticalField_new (DAG_init (length ts) DAG_new) = Some g" "init_ok ts (length ts) cf g" by auto
  show ?thesis
    by (rule that [of "generate g"]) (use g in \<open>auto simp: TxDAG_init_def init_ok_def generate_def dag_ok_def\<close>)
qed

section \<open>Runs\<close>

fun pending :: "Worker \<Rightarrow> nat list" where
  "pending (Consume i vs n nx) = vs"
| "pending w = []"

fun held :: "Worker \<Rightarrow> nat list" where
  "held (Exec i) = [i]"
| "held (Consume i vs n nx) = (if nx = INVALID_ID then [] else [nx])"
| "held Idle = []"

text \<open>The edges into a vertex that are not consumed yet: those of the transactions that have not run, and those that a
thread still has in front of it. The vertices that are ready: in the queue or with a thread.\<close>

definition open_edges :: "nat list list \<Rightarrow> 's TxDAG \<Rightarrow> nat \<Rightarrow> nat" where
  "open_edges es p v = (\<Sum>u \<in> {..<length es} - set (exe_log p). count_list (es ! u) v) +
     sum_list (map (\<lambda>w. count_list (pending w) v) (workers p))"

definition ready :: "'s TxDAG \<Rightarrow> nat list" where
  "ready p = m_topLevel (m_dag p) @ concat (map held (workers p))"

definition log_ok :: "nat list list \<Rightarrow> nat list \<Rightarrow> bool" where
  "log_ok es l \<longleftrightarrow> (\<forall>i < length l. \<forall>u. (u, l ! i) \<in> edges es \<longrightarrow> u \<in> set (take i l))"

definition worker_ok :: "nat \<Rightarrow> Worker \<Rightarrow> bool" where
  "worker_ok n w \<longleftrightarrow> (\<forall>i vs m nx. w = Consume i vs m nx \<longrightarrow> (m = 0 \<longrightarrow> nx = INVALID_ID) \<and> set vs \<subseteq> {..<n})"

definition para_ok :: "nat list list \<Rightarrow> 's TxDAG \<Rightarrow> bool" where
  "para_ok es p \<longleftrightarrow> out_edges (m_dag p) = es \<and>
     (\<forall>v < length es. inDegree (m_vtxs (m_dag p) ! v) = open_edges es p v) \<and>
     (\<forall>v. v \<in> set (ready p @ exe_log p) \<longleftrightarrow> v < length es \<and> open_edges es p v = 0) \<and>
     distinct (ready p @ exe_log p) \<and> list_all (worker_ok (length es)) (workers p) \<and>
     log_ok es (exe_log p) \<and> m_exeCnt p = length (exe_log p) \<and> m_totalVtxs (m_dag p) = length es"

lemma para_okD:
  assumes "para_ok es p"
  shows "out_edges (m_dag p) = es" "length (m_vtxs (m_dag p)) = length es"
    "\<And>v. v < length es \<Longrightarrow> inDegree (m_vtxs (m_dag p) ! v) = open_edges es p v"
    "\<And>v. v \<in> set (ready p @ exe_log p) \<longleftrightarrow> v < length es \<and> open_edges es p v = 0"
    "distinct (ready p @ exe_log p)" "list_all (worker_ok (length es)) (workers p)" "log_ok es (exe_log p)"
    "m_exeCnt p = length (exe_log p)" "m_totalVtxs (m_dag p) = length es"
  using assms unfolding para_ok_def by (blast, auto)

lemma mset_ready_update:
  "k < length (workers p) \<Longrightarrow>
   mset (concat (map held ((workers p)[k := w]))) + mset (held (workers p ! k)) = mset (concat (map held (workers p))) + mset (held w)"
  using mset_concat_update [of k "map held (workers p)" "held w"] by (simp add: map_update)

lemma pending_update:
  "k < length (workers p) \<Longrightarrow>
   sum_list (map (\<lambda>w. count_list (pending w) v) ((workers p)[k := w])) + count_list (pending (workers p ! k)) v =
   sum_list (map (\<lambda>w. count_list (pending w) v) (workers p)) + count_list (pending w) v"
  using sum_list_update_nat [of k "map (\<lambda>w. count_list (pending w) v) (workers p)" "count_list (pending w) v"]
  by (simp add: map_update)

lemma para_ok_update:
  assumes "para_ok es p" "out_edges (m_dag q) = es"
    "\<And>v. v < length es \<Longrightarrow> inDegree (m_vtxs (m_dag q) ! v) = open_edges es q v"
    "mset (ready q @ exe_log q) = mset (ready p @ exe_log p) + mset new" "distinct new"
    "\<And>v. v \<in> set new \<Longrightarrow> v < length es \<and> 0 < open_edges es p v \<and> open_edges es q v = 0"
    "\<And>v. v \<notin> set new \<Longrightarrow> open_edges es q v = 0 \<longleftrightarrow> open_edges es p v = 0"
    "list_all (worker_ok (length es)) (workers q)" "log_ok es (exe_log q)" "m_exeCnt q = length (exe_log q)" "m_totalVtxs (m_dag q) = length es"
  shows "para_ok es q"
proof -
  have m: "mset (ready q @ exe_log q) = mset ((ready p @ exe_log p) @ new)" using assms(4) by simp
  have set: "set (ready q @ exe_log q) = set (ready p @ exe_log p) \<union> set new" using mset_eq_setD [OF m] by (simp add: Un_assoc)
  have "distinct ((ready p @ exe_log p) @ new)"
    using para_okD(4,5) [OF assms(1)] assms(5,6) by (subst distinct_append) fastforce
  then have "distinct (ready q @ exe_log q)" using mset_eq_imp_distinct_iff [OF m] by simp
  moreover have "v \<in> set (ready q @ exe_log q) \<longleftrightarrow> v < length es \<and> open_edges es q v = 0" for v
    using para_okD(4) [OF assms(1)] assms(6,7) set by (cases "v \<in> set new") simp_all
  ultimately show ?thesis using assms(2,3,8-) by (simp add: para_ok_def)
qed

lemma worker_ok_update: "list_all P ws \<Longrightarrow> P w \<Longrightarrow> list_all P (ws[k := w])"
  using set_update_subset_insert [of ws k w] by (auto simp: list_all_iff)

lemma para_ok_worker:
  assumes "para_ok es p" "k < length (workers p)"
  shows "worker_ok (length es) (workers p ! k)" "set (held (workers p ! k)) \<subseteq> set (ready p)"
  using assms by (auto simp: para_ok_def list_all_length ready_def)

lemma pop_ok:
  assumes "para_ok es p" "k < length (workers p)" "workers p ! k = Idle" "waitPop (m_dag p) = (i, g)" "i \<noteq> INVALID_ID"
  shows "para_ok es (p\<lparr>m_dag := g, workers := (workers p)[k := Exec i]\<rparr>)" (is "para_ok es ?q")
proof -
  obtain rest where top: "m_topLevel (m_dag p) = i # rest" "g = m_dag p\<lparr>m_topLevel := rest\<rparr>"
    using assms(4,5) by (auto simp: waitPop_def split: list.splits)
  have "open_edges es ?q v = open_edges es p v" for v
    using pending_update [OF assms(2), of v "Exec i"] assms(3) by (simp add: open_edges_def)
  moreover have "mset (ready ?q @ exe_log ?q) = mset (ready p @ exe_log p) + mset []"
    using mset_ready_update [OF assms(2), of "Exec i"] assms(3) top by (simp add: ready_def)
  ultimately show ?thesis
    using para_okD [OF assms(1)] top(2) by (intro para_ok_update [OF assms(1), where new = "[]"]) (simp_all add: worker_ok_def worker_ok_update)
qed

lemma log_ok_snoc:
  assumes "log_ok es l" "\<And>u. (u, i) \<in> edges es \<Longrightarrow> u \<in> set l"
  shows "log_ok es (l @ [i])"
  using assms by (auto simp: log_ok_def nth_append less_Suc_eq)

lemma open_edges_0: "open_edges es p v = 0 \<Longrightarrow> (u, v) \<in> edges es \<Longrightarrow> u \<in> set (exe_log p)"
  by (rule ccontr) (auto simp: open_edges_def edges_def count_list_0_iff)

lemma run_ok:
  fixes f :: "nat \<Rightarrow> 's \<Rightarrow> 's"
  assumes ok: "para_ok es p" and k: "k < length (workers p)" and w: "workers p ! k = Exec i"
    and range: "\<forall>(u, v) \<in> edges es. v < length es"
  defines "q \<equiv> p\<lparr>workers := (workers p)[k := Consume i (outEdge (m_vtxs (m_dag p) ! i)) 0 INVALID_ID],
      m_exeCnt := m_exeCnt p + 1, exe_state := f i (exe_state p), exe_log := exe_log p @ [i]\<rparr>"
  shows "para_ok es q"
proof -
  have "i \<in> set (ready p)" using para_ok_worker(2) [OF ok k] w by simp
  then have i: "i < length es" "open_edges es p i = 0" "i \<notin> set (exe_log p)" using para_okD(4,5) [OF ok] by auto
  have out: "outEdge (m_vtxs (m_dag p) ! i) = es ! i" using para_okD(1,2) [OF ok] i(1) by auto
  have same: "open_edges es q v = open_edges es p v" for v
  proof -
    have "(\<Sum>u \<in> {..<length es} - set (exe_log p). count_list (es ! u) v) =
        count_list (es ! i) v + (\<Sum>u \<in> {..<length es} - set (exe_log p) - {i}. count_list (es ! u) v)"
      using i by (intro sum.remove) simp_all
    moreover have "{..<length es} - set (exe_log q) = {..<length es} - set (exe_log p) - {i}" by (auto simp: q_def)
    moreover have "workers q = (workers p)[k := Consume i (es ! i) 0 INVALID_ID]" by (simp add: q_def out)
    ultimately show ?thesis
      using pending_update [OF k, of v "Consume i (es ! i) 0 INVALID_ID"] w unfolding open_edges_def by simp
  qed
  have "worker_ok (length es) (Consume i (es ! i) 0 INVALID_ID)" using range i(1) by (auto simp: worker_ok_def edges_def)
  moreover have "mset (ready q @ exe_log q) = mset (ready p @ exe_log p) + mset []"
    using mset_ready_update [OF k, of "Consume i (es ! i) 0 INVALID_ID"] w out by (simp add: ready_def q_def)
  moreover have "log_ok es (exe_log q)"
    using para_okD(7) [OF ok] open_edges_0 [OF i(2)] by (simp add: q_def log_ok_snoc)
  ultimately show ?thesis
    using para_okD [OF ok] same out by (intro para_ok_update [OF ok, where new = "[]"]) (simp_all add: q_def worker_ok_update)
qed

lemma done_ok:
  assumes "para_ok es p" "k < length (workers p)" "workers p ! k = Consume i [] n nx"
  shows "para_ok es (p\<lparr>m_dag := consume_done (m_dag p), workers := (workers p)[k := if nx = INVALID_ID then Idle else Exec nx]\<rparr>)"
    (is "para_ok es ?q")
proof -
  have "open_edges es ?q v = open_edges es p v" for v
    using pending_update [OF assms(2), of v "if nx = INVALID_ID then Idle else Exec nx"] assms(3) by (simp add: open_edges_def)
  moreover have "mset (ready ?q @ exe_log ?q) = mset (ready p @ exe_log p) + mset []"
    using mset_ready_update [OF assms(2), of "if nx = INVALID_ID then Idle else Exec nx"] assms(3)
    by (simp add: ready_def consume_done_def split: if_splits)
  ultimately show ?thesis using para_okD [OF assms(1)]
    by (intro para_ok_update [OF assms(1), where new = "[]"]) (simp_all add: worker_ok_def consume_done_def worker_ok_update)
qed

lemma edge_ok:
  assumes ok: "para_ok es p" and k: "k < length (workers p)" and w: "workers p ! k = Consume i (v # vs) n nx"
    and c: "consume_edge v n nx (m_dag p) = (n', nx', g)" and len: "length es \<le> INVALID_ID"
  defines "q \<equiv> p\<lparr>m_dag := g, workers := (workers p)[k := Consume i vs n' nx']\<rparr>"
  shows "para_ok es q"
proof -
  let ?d = "inDegree (m_vtxs (m_dag p) ! v)"
  let ?g = "(m_dag p)\<lparr>m_vtxs := (m_vtxs (m_dag p))[v := (m_vtxs (m_dag p) ! v)\<lparr>inDegree := ?d - 1\<rparr>]\<rparr>"
  have v: "v < length es" "n = 0 \<Longrightarrow> nx = INVALID_ID" "set vs \<subseteq> {..<length es}"
    using para_ok_worker(1) [OF ok k] w by (auto simp: worker_ok_def)
  note vtxs = para_okD(1,2) [OF ok]
  have out: "out_edges ?g = es" using vtxs v(1) by (auto simp: map_update intro: nth_equalityI simp: nth_list_update)
  have edges: "open_edges es p u = open_edges es q u + (if u = v then 1 else 0)" for u
    using pending_update [OF k, of u "Consume i vs n' nx'"] w by (simp add: open_edges_def q_def split: if_splits)
  have deg: "inDegree (m_vtxs ?g ! u) = open_edges es q u" if "u < length es" for u
    using that edges [of u] para_okD(3) [OF ok that] vtxs by (cases "u = v") simp_all
  have d: "?d = open_edges es q v + 1" using edges [of v] para_okD(3) [OF ok v(1)] by simp
  define new where "new = (if ?d = 1 then [v] else [])"
  have ready: "mset (ready q @ exe_log q) = mset (ready p @ exe_log p) + mset new"
    using mset_ready_update [OF k, of "Consume i vs n' nx'"] w c v(1,2) len
    by (auto simp: ready_def q_def consume_edge_def Let_def new_def split: if_splits)
  have g: "m_vtxs g = m_vtxs ?g" "m_totalVtxs g = m_totalVtxs (m_dag p)"
    using c by (auto simp: consume_edge_def Let_def split: if_splits)
  have wk: "worker_ok (length es) (Consume i vs n' nx')"
    using c v by (auto simp: worker_ok_def consume_edge_def Let_def split: if_splits)
  show ?thesis
  proof (rule para_ok_update [OF ok _ _ ready])
    show "out_edges (m_dag q) = es" using out g by (simp add: q_def)
    show "inDegree (m_vtxs (m_dag q) ! u) = open_edges es q u" if "u < length es" for u using deg [OF that] g by (simp add: q_def)
    show "u < length es \<and> 0 < open_edges es p u \<and> open_edges es q u = 0" if "u \<in> set new" for u
      using that d v(1) edges [of v] by (auto simp: new_def split: if_splits)
    show "open_edges es q u = 0 \<longleftrightarrow> open_edges es p u = 0" if "u \<notin> set new" for u
      using that d edges [of u] by (auto simp: new_def split: if_splits)
    show "list_all (worker_ok (length es)) (workers q)" using para_okD(6) [OF ok] wk by (simp add: q_def worker_ok_update)
  qed (use para_okD(7-9) [OF ok] g in \<open>simp_all add: q_def new_def\<close>)
qed

lemma para_step_ok:
  assumes "para_step f p q" "para_ok es p" "\<forall>(u, v) \<in> edges es. v < length es" "length es \<le> INVALID_ID"
  shows "para_ok es q"
  using assms(1)
proof (cases rule: para_step.cases)
  case Pop then show ?thesis using assms pop_ok by blast
next
  case Run then show ?thesis using assms run_ok by blast
next
  case Edge then show ?thesis using assms edge_ok by blast
next
  case Done then show ?thesis using assms done_ok by blast
qed

section \<open>Schedules\<close>

lemma para_start_ok:
  assumes "dag_ok g" "m_totalVtxs g = length (m_vtxs g)"
    "m_topLevel g = filter (\<lambda>i. inDegree (m_vtxs g ! i) = 0) [0..<length (m_vtxs g)]"
  shows "para_ok (out_edges g) (para_start threads g s)"
proof -
  have "open_edges (out_edges g) (para_start threads g s) v = in_count (out_edges g) v" for v
    by (simp add: open_edges_def para_start_def in_count_def sum_list_sum_nth map_replicate atLeast0LessThan)
  then show ?thesis
    using assms by (auto simp: para_ok_def dag_ok_def para_start_def ready_def worker_ok_def log_ok_def list_all_iff map_replicate)
qed

lemma para_run_ok:
  assumes "(para_step f)\<^sup>*\<^sup>* p q" "para_ok es p" "\<forall>(u, v) \<in> edges es. v < length es" "length es \<le> INVALID_ID"
  shows "para_ok es q"
  using assms by (induction rule: rtranclp_induct) (simp_all add: para_step_ok)

lemma para_run_log: "(para_step f)\<^sup>*\<^sup>* p q \<Longrightarrow> exe_state p = fold f (exe_log p) s \<Longrightarrow> exe_state q = fold f (exe_log q) s"
  by (induction rule: rtranclp_induct) (auto elim!: para_step.cases)

text \<open>A block whose graph is built and is being executed.\<close>

lemma para_run:
  assumes "length ts \<le> INVALID_ID" "TxDAG_init ts = Some g" "(para_step f)\<^sup>*\<^sup>* (para_start threads g s) p"
  shows "para_ok (out_edges g) p" "length (out_edges g) = length ts" "\<forall>(u, v) \<in> edges (out_edges g). u < v \<and> v < length (out_edges g)"
    "exe_state p = fold f (exe_log p) s"
    "\<And>i j. i < j \<Longrightarrow> j < length ts \<Longrightarrow> dag_conflict (ts ! i) (ts ! j) \<Longrightarrow> (i, j) \<in> (edges (out_edges g))\<^sup>+"
proof -
  obtain g' where g': "TxDAG_init ts = Some g'" "dag_ok g'" "length (m_vtxs g') = length ts" "m_totalVtxs g' = length ts"
    "m_topLevel g' = filter (\<lambda>i. inDegree (m_vtxs g' ! i) = 0) [0..<length ts]"
    "\<forall>j < length ts. \<forall>i < j. dag_conflict (ts ! i) (ts ! j) \<longrightarrow> (i, j) \<in> (edges (out_edges g'))\<^sup>+"
    by (rule TxDAG_init_ok [OF assms(1)])
  then have [simp]: "g' = g" using assms(2) by simp
  show len: "length (out_edges g) = length ts" using g'(3) by simp
  show range: "\<forall>(u, v) \<in> edges (out_edges g). u < v \<and> v < length (out_edges g)" using g'(2) by (simp add: dag_ok_def)
  show "para_ok (out_edges g) p"
    by (rule para_run_ok [OF assms(3) para_start_ok]) (use g'(2-5) range assms(1) in auto)
  show "exe_state p = fold f (exe_log p) s" by (rule para_run_log [OF assms(3)]) (simp add: para_start_def)
  show "\<And>i j. i < j \<Longrightarrow> j < length ts \<Longrightarrow> dag_conflict (ts ! i) (ts ! j) \<Longrightarrow> (i, j) \<in> (edges (out_edges g))\<^sup>+"
    using g'(6) by simp
qed

lemma log_ok_trancl:
  assumes "(u, v) \<in> (edges es)\<^sup>+" "log_ok es l" "i < length l" "v = l ! i"
  shows "u \<in> set (take i l)"
  using assms(1)
proof (induction rule: converse_trancl_induct)
  case (step u w)
  then obtain j where j: "j < i" "w = l ! j" using assms(3) by (auto simp: in_set_conv_nth)
  then have "u \<in> set (take j l)" using step.hyps(1) assms(2,3) by (auto simp: log_ok_def)
  then show ?case using j(1) set_take_subset_set_take [of j i l] by auto
qed (use assms(2-) in \<open>auto simp: log_ok_def\<close>)

lemma run_order:
  assumes "length ts \<le> INVALID_ID" "TxDAG_init ts = Some g" "(para_step f)\<^sup>*\<^sup>* (para_start threads g s) p"
    "k < length (exe_log p)" "i < exe_log p ! k" "dag_conflict (ts ! i) (ts ! (exe_log p ! k))"
  shows "i \<in> set (take k (exe_log p))"
proof -
  note run = para_run [OF assms(1-3)]
  have "exe_log p ! k < length ts" using para_okD(4) [OF run(1), of "exe_log p ! k"] assms(4) run(2) by simp
  then show ?thesis using log_ok_trancl [OF run(5) para_okD(7) [OF run(1)] assms(4) refl] assms(5,6) by simp
qed

subsection \<open>Termination\<close>

fun worker_weight :: "Worker \<Rightarrow> nat" where
  "worker_weight Idle = 1"
| "worker_weight (Exec i) = 0"
| "worker_weight (Consume i vs n nx) = length vs + 2"

definition weight :: "nat list list \<Rightarrow> 's TxDAG \<Rightarrow> nat" where
  "weight es p = (\<Sum>u \<in> {..<length es} - set (exe_log p). length (es ! u) + 3) + sum_list (map worker_weight (workers p))"

lemma weight_update:
  "k < length (workers p) \<Longrightarrow>
   sum_list (map worker_weight ((workers p)[k := w])) + worker_weight (workers p ! k) = sum_list (map worker_weight (workers p)) + worker_weight w"
  using sum_list_update_nat [of k "map worker_weight (workers p)" "worker_weight w"] by (simp add: map_update)

lemma step_weight:
  assumes "para_step f p q" "para_ok es p"
  shows "weight es q < weight es p"
  using assms(1)
proof (cases rule: para_step.cases)
  case (Pop k i g)
  then show ?thesis using weight_update [of k p "Exec i"] by (simp add: weight_def)
next
  case (Edge k i v vs n nx n' nx' g)
  then show ?thesis using weight_update [of k p "Consume i vs n' nx'"] by (simp add: weight_def)
next
  case (Done k i n nx)
  then show ?thesis
    using weight_update [of k p "if nx = INVALID_ID then Idle else Exec nx"] by (simp add: weight_def split: if_splits)
next
  case (Run k i)
  have "i \<in> set (ready p)" using para_ok_worker(2) [OF assms(2) Run(2)] Run(3) by simp
  then have i: "i < length es" "i \<notin> set (exe_log p)" using para_okD(4,5) [OF assms(2)] by auto
  have "outEdge (m_vtxs (m_dag p) ! i) = es ! i" using para_okD(1,2) [OF assms(2)] i(1) by auto
  moreover have "(\<Sum>u \<in> {..<length es} - set (exe_log p). length (es ! u) + 3) =
      length (es ! i) + 3 + (\<Sum>u \<in> {..<length es} - set (exe_log p) - {i}. length (es ! u) + 3)"
    using i by (intro sum.remove) simp_all
  moreover have "{..<length es} - set (exe_log q) = {..<length es} - set (exe_log p) - {i}" by (auto simp: Run(1))
  moreover have "workers q = (workers p)[k := Consume i (outEdge (m_vtxs (m_dag p) ! i)) 0 INVALID_ID]" by (simp add: Run(1))
  ultimately show ?thesis using weight_update [OF Run(2), of "Consume i (es ! i) 0 INVALID_ID"] Run(3) unfolding weight_def by simp
qed

lemma run_weight:
  assumes "(para_step f ^^ k) p q" "para_ok es p" "\<forall>(u, v) \<in> edges es. v < length es" "length es \<le> INVALID_ID"
  shows "k + weight es q \<le> weight es p \<and> (para_step f)\<^sup>*\<^sup>* p q"
  using assms(1)
proof (induction k arbitrary: q)
  case (Suc k)
  then obtain r where r: "(para_step f ^^ k) p r" "para_step f r q" by auto
  from Suc.IH [OF this(1)] have "k + weight es r \<le> weight es p" "(para_step f)\<^sup>*\<^sup>* p r" by simp_all
  moreover have "weight es q < weight es r" by (rule step_weight [OF r(2) para_run_ok [OF calculation(2) assms(2-)]])
  ultimately show ?case using r(2) by auto
qed simp

lemma stuck_workers:
  assumes "\<And>q. \<not> para_step f p q" "w \<in> set (workers p)"
  shows "w = Idle"
proof -
  obtain k where k: "k < length (workers p)" "workers p ! k = w" using assms(2) by (auto simp: in_set_conv_nth)
  show ?thesis
  proof (cases w)
    case (Exec i)
    then show ?thesis using assms(1) Run [OF k(1)] k(2) by blast
  next
    case (Consume i vs n nx)
    then show ?thesis using assms(1) Done [OF k(1)] Edge [OF k(1)] k(2) by (cases vs) (blast, metis prod_cases3)
  qed
qed

lemma stuck_ready:
  assumes "para_ok es p" "length es \<le> INVALID_ID" "\<And>q. \<not> para_step f p q" "workers p \<noteq> []"
  shows "ready p = []" "sum_list (map (\<lambda>w. count_list (pending w) v) (workers p)) = 0"
proof -
  have idle: "w = Idle" if "w \<in> set (workers p)" for w using stuck_workers [OF assms(3) that] .
  have "m_topLevel (m_dag p) = []"
  proof (cases "m_topLevel (m_dag p)")
    case (Cons i rest)
    then have "waitPop (m_dag p) = (i, (m_dag p)\<lparr>m_topLevel := rest\<rparr>)" by (simp add: waitPop_def)
    moreover have "i \<noteq> INVALID_ID" using para_okD(4) [OF assms(1), of i] assms(2) Cons by (simp add: ready_def)
    moreover have "0 < length (workers p)" "workers p ! 0 = Idle" using assms(4) idle [of "workers p ! 0"] by simp_all
    ultimately show ?thesis using assms(3) Pop by blast
  qed simp
  moreover have "held w = []" if "w \<in> set (workers p)" for w using idle [OF that] by simp
  ultimately show "ready p = []" by (simp add: ready_def)
  have "count_list (pending w) v = 0" if "w \<in> set (workers p)" for w using idle [OF that] by simp
  then show "sum_list (map (\<lambda>w. count_list (pending w) v) (workers p)) = 0" by simp
qed

lemma stuck_all:
  assumes ok: "para_ok es p" and len: "length es \<le> INVALID_ID" and stuck: "\<And>q. \<not> para_step f p q" "workers p \<noteq> []"
    and up: "\<forall>(u, v) \<in> edges es. u < v \<and> v < length es"
  shows "set (exe_log p) = {..<length es}"
proof (rule ccontr)
  have "set (exe_log p) \<subseteq> {..<length es}" using para_okD(4) [OF ok] by auto
  moreover assume "set (exe_log p) \<noteq> {..<length es}"
  ultimately have "\<exists>v. v < length es \<and> v \<notin> set (exe_log p)" by auto
  define v where "v = (LEAST v. v < length es \<and> v \<notin> set (exe_log p))"
  have v: "v < length es \<and> v \<notin> set (exe_log p)"
    unfolding v_def by (rule LeastI_ex [OF \<open>\<exists>v. v < length es \<and> v \<notin> set (exe_log p)\<close>])
  have "v \<notin> set (es ! u)" if u: "u < length es" "u \<notin> set (exe_log p)" for u
  proof
    assume "v \<in> set (es ! u)"
    then have "(u, v) \<in> edges es" using u(1) by (simp add: edges_def)
    then have "u < v" using up by blast
    moreover have "v \<le> u" unfolding v_def by (rule Least_le) (use u in simp)
    ultimately show False by simp
  qed
  then have "open_edges es p v = 0"
    using stuck_ready(2) [OF ok len stuck] by (simp add: open_edges_def count_list_0_iff)
  then show False using para_okD(4) [OF ok, of v] v stuck_ready(1) [OF ok len stuck] by simp
qed

lemma run_threads: "(para_step f)\<^sup>*\<^sup>* p q \<Longrightarrow> length (workers q) = length (workers p)"
  by (induction rule: rtranclp_induct) (auto elim!: para_step.cases)

lemma run_finished:
  assumes "para_ok es p" "length es = n"
  shows "set (exe_log p) = {..<n} \<Longrightarrow> mset (exe_log p) = mset [0..<n] \<and> hasFinished p"
    "hasFinished p \<Longrightarrow> mset (exe_log p) = mset [0..<n]"
proof -
  have d: "distinct (exe_log p)" "set (exe_log p) \<subseteq> {..<n}" using para_okD(4,5) [OF assms(1)] assms(2) by auto
  have m: "mset (exe_log p) = mset [0..<n]" if "set (exe_log p) = {..<n}"
    using that d(1) set_eq_iff_mset_eq_distinct [of "exe_log p" "[0..<n]"] by (simp add: atLeast0LessThan)
  have len: "hasFinished p \<longleftrightarrow> n \<le> length (exe_log p)" using para_okD(8,9) [OF assms(1)] assms(2) by (simp add: hasFinished_def)
  show "mset (exe_log p) = mset [0..<n] \<and> hasFinished p" if "set (exe_log p) = {..<n}"
    using m [OF that] len distinct_card [OF d(1)] that by simp
  assume "hasFinished p"
  then have "card {..<n} \<le> card (set (exe_log p))" using len distinct_card [OF d(1)] by simp
  then have "set (exe_log p) = {..<n}" by (intro card_seteq d(2)) simp_all
  then show "mset (exe_log p) = mset [0..<n]" by (rule m)
qed

lemma worker_step_iff: "para_step f p q \<longleftrightarrow> (\<exists>k. worker_step f k p = Some q)"
proof
  assume "para_step f p q"
  then show "\<exists>k. worker_step f k p = Some q"
  proof cases
    case (Pop k) then show ?thesis by (intro exI [of _ k]) (simp add: worker_step_def)
  next
    case (Run k) then show ?thesis by (intro exI [of _ k]) (simp add: worker_step_def)
  next
    case (Edge k) then show ?thesis by (intro exI [of _ k]) (simp add: worker_step_def)
  next
    case (Done k) then show ?thesis by (intro exI [of _ k]) (simp add: worker_step_def)
  qed
next
  assume "\<exists>k. worker_step f k p = Some q"
  then obtain k where k: "worker_step f k p = Some q" ..
  then have l: "k < length (workers p)" by (simp add: worker_step_def split: if_splits)
  show "para_step f p q"
  proof (cases "workers p ! k")
    case Idle
    then show ?thesis using k l by (auto simp: worker_step_def split: prod.splits if_splits intro: Pop)
  next
    case (Exec i)
    then show ?thesis using k l Run [OF l Exec, of f] by (simp add: worker_step_def)
  next
    case (Consume i vs n nx)
    show ?thesis
    proof (cases vs)
      case Nil
      then show ?thesis using k l Done [OF l, of i n nx f] Consume by (simp add: worker_step_def)
    next
      case (Cons v vs')
      then show ?thesis using k l Consume by (auto simp: worker_step_def split: prod.splits intro: Edge)
    qed
  qed
qed

lemma run_schedule_steps: "run_schedule f ks p = Some q \<Longrightarrow> (para_step f)\<^sup>*\<^sup>* p q"
proof (induction ks arbitrary: p)
  case (Cons k ks)
  then obtain r where "worker_step f k p = Some r" "run_schedule f ks r = Some q" by (auto split: option.splits)
  then show ?case using Cons.IH worker_step_iff [of f p r] by (auto intro: converse_rtranclp_into_rtranclp)
qed simp

section \<open>Properties\<close>

text \<open>C11: The threads execute every transaction at most once, and a transaction only after every earlier one of the
block that it conflicts with. The result is that of executing the transactions in the order of the log.\<close>

theorem dag_schedule:
  assumes "length ts \<le> INVALID_ID" "TxDAG_init ts = Some g" "(para_step f)\<^sup>*\<^sup>* (para_start threads g s) p"
  shows "distinct (exe_log p) \<and> set (exe_log p) \<subseteq> {..<length ts} \<and> exe_state p = fold f (exe_log p) s \<and>
    (\<forall>k < length (exe_log p). \<forall>i < exe_log p ! k.
       dag_conflict (ts ! i) (ts ! (exe_log p ! k)) \<longrightarrow> i \<in> set (take k (exe_log p)))"
proof -
  note run = para_run [OF assms]
  have "distinct (exe_log p)" "set (exe_log p) \<subseteq> {..<length ts}" using para_okD(4,5) [OF run(1)] run(2) by auto
  then show ?thesis using run(4) run_order [OF assms] by simp
qed

text \<open>C10: The graph of a block can always be built and executed. Every run ends, after a number of steps that is
bounded by the edges, the transactions and the threads. Where no thread can go on every transaction has run exactly
once, and the threads see that they are done.\<close>

theorem dag_terminates:
  fixes f :: "nat \<Rightarrow> 's \<Rightarrow> 's"
  assumes "length ts \<le> INVALID_ID" "0 < threads"
  shows "\<exists>g. TxDAG_init ts = Some g \<and>
    (\<forall>k p. (para_step f ^^ k) (para_start threads g s) p \<longrightarrow>
       k \<le> length (concat (map outEdge (m_vtxs g))) + 3 * length ts + threads \<and>
       ((\<nexists>q. para_step f p q) \<longrightarrow> mset (exe_log p) = mset [0..<length ts] \<and> hasFinished p))"
proof -
  obtain g where g: "TxDAG_init ts = Some g" by (rule TxDAG_init_ok [OF assms(1)])
  note start = para_run(1-3) [OF assms(1) g rtranclp.rtrancl_refl]
  have w: "weight (out_edges g) (para_start threads g s) = length (concat (out_edges g)) + 3 * length ts + threads"
    using start(2) by (simp add: weight_def para_start_def sum_list_sum_nth sum.distrib length_concat atLeast0LessThan sum_list_replicate)
  have up: "\<forall>(u, v) \<in> edges (out_edges g). v < length (out_edges g)" using start(3) by auto
  have "k \<le> length (concat (out_edges g)) + 3 * length ts + threads \<and>
      ((\<nexists>q. para_step f p q) \<longrightarrow> mset (exe_log p) = mset [0..<length ts] \<and> hasFinished p)"
    if k: "(para_step f ^^ k) (para_start threads g s) p" for k p
  proof -
    have r: "k + weight (out_edges g) p \<le> weight (out_edges g) (para_start threads g s)"
      "(para_step f)\<^sup>*\<^sup>* (para_start threads g s) p"
      using run_weight [OF k start(1) up] start(2) assms(1) by simp_all
    note run = para_run [OF assms(1) g r(2)]
    have "length (workers p) = threads" using run_threads [OF r(2)] by (simp add: para_start_def)
    then have "set (exe_log p) = {..<length ts}" if "\<nexists>q. para_step f p q"
      using stuck_all [OF run(1) _ _ _ run(3), of f] that run(2) assms by auto
    then show ?thesis using r(1) w run_finished [OF run(1,2)] by simp
  qed
  then show ?thesis using g by blast
qed


section \<open>Witnesses\<close>

definition ex_block :: "string list option list" where
  "ex_block = [Some [''a''], Some [''b''], Some [''a'', ''b''], None]"

definition ex_exec :: "nat \<Rightarrow> nat \<Rightarrow> nat" where
  "ex_exec i s = (if i < 2 then s + i + 1 else 2 * s + i)"

definition ex_dag :: DAG where "ex_dag = the (TxDAG_init ex_block)"

lemma ex_dag_init: "TxDAG_init ex_block = Some ex_dag" "length ex_block \<le> INVALID_ID"
proof -
  show len: "length ex_block \<le> INVALID_ID" by (simp add: ex_block_def INVALID_ID_def)
  show "TxDAG_init ex_block = Some ex_dag" by (rule TxDAG_init_ok [OF len]) (simp add: ex_dag_def)
qed


lemmas dag_eval = TxDAG_init_def DAG_init_def DAG_clear_def DAG_new_def CriticalField_new_def sources_def note_tx_def cf_get_def
  cf_update_def foreachField_def setCriticalAll_def addEdge_def generate_def um_find_def um_set_def

lemma ex_valid:
  "INVALID_ID \<noteq> 0" "INVALID_ID \<noteq> Suc 0" "INVALID_ID \<noteq> Suc (Suc 0)" "INVALID_ID \<noteq> Suc (Suc (Suc 0))"
  by (simp_all add: INVALID_ID_def)

lemma ex_dag_eq: "ex_dag = \<lparr>m_vtxs =
    [\<lparr>inDegree = 0, outEdge = [2]\<rparr>, \<lparr>inDegree = 0, outEdge = [2]\<rparr>, \<lparr>inDegree = 2, outEdge = [3, 3]\<rparr>,
     \<lparr>inDegree = 2, outEdge = []\<rparr>],
    m_topLevel = [0, 1], m_totalVtxs = 4, m_totalConsume = 0\<rparr>"
  by (simp add: ex_dag_def ex_block_def dag_eval ex_valid ex_valid [symmetric] eval_nat_numeral)

definition ex_schedule :: "nat list" where
  "ex_schedule = [0, 1, 1, 0, 1, 0, 1, 0, 0, 0, 0, 0, 0, 0]"

lemma ex_run: "\<exists>p. run_schedule ex_exec ex_schedule (para_start 2 ex_dag 5) = Some p \<and> exe_log p = [1, 0, 2, 3] \<and> hasFinished p"
  by (simp add: ex_schedule_def ex_dag_eq para_start_def worker_step_def waitPop_def consume_edge_def consume_done_def hasFinished_def
    ex_valid ex_valid [symmetric] Let_def eval_nat_numeral)

theorem dag_schedule_witness:
  "\<exists>p. (para_step ex_exec)\<^sup>*\<^sup>* (para_start 2 ex_dag 5) p \<and> exe_log p = [1, 0, 2, 3] \<and> exe_state p = fold ex_exec [1, 0, 2, 3] 5"
proof -
  obtain p where p: "run_schedule ex_exec ex_schedule (para_start 2 ex_dag 5) = Some p" "exe_log p = [1, 0, 2, 3]" using ex_run by blast
  then show ?thesis using dag_schedule [OF ex_dag_init(2,1) run_schedule_steps [OF p(1)]] run_schedule_steps [OF p(1)] by auto
qed

theorem dag_terminates_witness: "TxDAG_init ex_block = Some ex_dag \<and> (\<nexists>p. (para_step ex_exec ^^ 19) (para_start 2 ex_dag 5) p)"
proof -
  have "length (concat (out_edges ex_dag)) + 3 * length ex_block + 2 = 18" by (simp add: ex_dag_eq ex_block_def)
  then show ?thesis using dag_terminates [OF ex_dag_init(2), of 2 ex_exec 5] ex_dag_init(1) by fastforce
qed

lemma ex_commute: "i < j \<Longrightarrow> j < length ex_block \<Longrightarrow> \<not> dag_conflict (ex_block ! i) (ex_block ! j) \<Longrightarrow> ex_exec j \<circ> ex_exec i = ex_exec i \<circ> ex_exec j"
  by (auto simp: ex_block_def less_Suc_eq numeral_eq_Suc dag_conflict_def ex_exec_def fun_eq_iff)


end
