(* ===== verification/Storage_Table.thy ===== *)
theory Storage_Table
  imports BCOS_Prelude "HOL-Library.Multiset" "HOL-Library.Char_ord" "HOL-Library.List_Lexorder" "HOL-Library.Product_Lexorder"
begin

text \<open>
  libstorage/Table: entries, conditions and the order in which entries are hashed.

  An entry is a value: the sharing of its fields between copies is undone by \<open>checkRef\<close> before each write. A
  \<open>std::map\<close> is an association list in the order of its keys. \<open>boost::lexical_cast\<close> from strings to 64 bit integers
  is the parameter \<open>lc\<close>, with \<open>None\<close> for its exception. Locks are left out.
\<close>

section \<open>Ordered maps\<close>

fun smap_set :: "'k :: linorder \<Rightarrow> 'v \<Rightarrow> ('k \<times> 'v) list \<Rightarrow> ('k \<times> 'v) list" where
  "smap_set k v [] = [(k, v)]"
| "smap_set k v ((k', v') # m) =
     (if k = k' then (k, v) # m else if k < k' then (k, v) # (k', v') # m else (k', v') # smap_set k v m)"

definition smap_ok :: "('k :: linorder \<times> 'v) list \<Rightarrow> bool" where
  "smap_ok m \<longleftrightarrow> sorted_wrt (<) (map fst m)"

lemma smap_set_keys: "fst ` set (smap_set k v m) = insert k (fst ` set m)"
proof (induction m)
  case (Cons p m)
  then show ?case by (cases p) (simp add: insert_commute)
qed simp

lemma smap_ok_set [simp]: "smap_ok m \<Longrightarrow> smap_ok (smap_set k v m)"
proof (induction m)
  case (Cons p m)
  obtain k' v' where p: "p = (k', v')" by (cases p)
  have "smap_ok m" "\<forall>x \<in> fst ` set m. k' < x" using Cons.prems by (auto simp: smap_ok_def p)
  then show ?case using Cons smap_set_keys [of k v m] by (auto simp: smap_ok_def p)
qed (simp add: smap_ok_def)

lemma smap_ok_Nil [simp]: "smap_ok []"
  by (simp add: smap_ok_def)

lemma map_of_smap_set: "smap_ok m \<Longrightarrow> map_of (smap_set k v m) = (map_of m)(k \<mapsto> v)"
proof (induction m)
  case (Cons p m)
  obtain k' v' where p: "p = (k', v')" by (cases p)
  have "smap_ok m" "\<forall>x \<in> fst ` set m. k' < x" using Cons.prems by (auto simp: smap_ok_def p)
  then show ?case using Cons by (auto simp: p fun_upd_twist)
qed simp

lemma smap_distinct: "smap_ok m \<Longrightarrow> distinct (map fst m)"
  by (simp add: smap_ok_def strict_sorted_iff)

text \<open>An ordered map is determined by its look-ups.\<close>

lemma smap_unique:
  assumes "smap_ok a" "smap_ok b" "map_of a = map_of b"
  shows "a = b"
proof (rule map_sorted_distinct_set_unique [of fst])
  have d: "distinct (map fst a)" "distinct (map fst b)" using assms(1,2) by (simp_all add: smap_distinct)
  have "p \<in> set a \<longleftrightarrow> p \<in> set b" for p
    using map_of_eq_Some_iff [OF d(1), of "fst p" "snd p"] map_of_eq_Some_iff [OF d(2), of "fst p" "snd p"] assms(3) by simp
  then show "set a = set b" by blast
  then show "inj_on fst (set a \<union> set b)" using d(1) by (simp add: distinct_map)
qed (use assms(1,2) in \<open>simp_all add: smap_ok_def strict_sorted_iff\<close>)

section \<open>Definitions\<close>

subsection \<open>Entries\<close>

definition ID_FIELD :: string where "ID_FIELD = ''_id_''"

definition NUM_FIELD :: string where "NUM_FIELD = ''_num_''"

definition STATUS :: string where "STATUS = ''_status_''"

definition isHashField :: "string \<Rightarrow> bool" where
  "isHashField k \<longleftrightarrow> k \<noteq> [] \<and> hd k \<noteq> CHR ''_'' \<and> last k \<noteq> CHR ''_''"

record Entry =
  m_ID :: nat
  m_status :: int
  m_tempIndex :: nat
  m_num :: nat
  m_dirty :: bool
  m_force :: bool
  m_deleted :: bool
  m_capacity :: int
  m_fields :: "(string \<times> string) list"

definition NORMAL :: int where "NORMAL = 0"

definition DELETED :: int where "DELETED = 1"

definition Entry_new :: Entry where
  "Entry_new = \<lparr>m_ID = 0, m_status = 0, m_tempIndex = 0, m_num = 0, m_dirty = False, m_force = False, m_deleted = False,
     m_capacity = 0, m_fields = []\<rparr>"

definition getField :: "Entry \<Rightarrow> string \<Rightarrow> string" where
  "getField e key = (case map_of (m_fields e) key of Some v \<Rightarrow> v | None \<Rightarrow> [])"

definition setField :: "string \<Rightarrow> string \<Rightarrow> Entry \<Rightarrow> Entry" where
  "setField key v e =
     e\<lparr>m_fields := smap_set key v (m_fields e),
       m_capacity := (case map_of (m_fields e) key of
           Some old \<Rightarrow> m_capacity e - int (length key + length old) + int (length key + length v)
         | None \<Rightarrow> m_capacity e + int (length key + length v)),
       m_dirty := True\<rparr>"

definition setID :: "nat \<Rightarrow> Entry \<Rightarrow> Entry" where "setID i e = e\<lparr>m_ID := i, m_dirty := True\<rparr>"

definition setTempIndex :: "nat \<Rightarrow> Entry \<Rightarrow> Entry" where "setTempIndex i e = e\<lparr>m_tempIndex := i\<rparr>"

definition setStatus :: "int \<Rightarrow> Entry \<Rightarrow> Entry" where "setStatus s e = e\<lparr>m_status := s, m_dirty := True\<rparr>"

definition setNum :: "nat \<Rightarrow> Entry \<Rightarrow> Entry" where "setNum n e = e\<lparr>m_num := n, m_dirty := True\<rparr>"

definition setForce :: "bool \<Rightarrow> Entry \<Rightarrow> Entry" where "setForce b e = e\<lparr>m_force := b\<rparr>"

definition setDeleted :: "bool \<Rightarrow> Entry \<Rightarrow> Entry" where "setDeleted b e = e\<lparr>m_deleted := b\<rparr>"

text \<open>\<open>EntryLessNoLock\<close>: the loop over both field maps, and the comparison.\<close>

fun fields_less :: "(string \<times> string) list \<Rightarrow> (string \<times> string) list \<Rightarrow> bool" where
  "fields_less ((k, v) # l) ((k', v') # r) =
     (if k \<noteq> k' then k < k' else if v \<noteq> v' then v < v' else fields_less l r)"
| "fields_less l r = False"

definition EntryLess :: "string \<Rightarrow> Entry \<Rightarrow> Entry \<Rightarrow> bool" where
  "EntryLess key l r =
     (if m_ID l \<noteq> m_ID r then m_ID l < m_ID r
      else if getField l key \<noteq> getField r key then getField l key < getField r key
      else if length (m_fields l) \<noteq> length (m_fields r) then length (m_fields l) < length (m_fields r)
      else fields_less (m_fields l) (m_fields r))"

subsection \<open>Conditions\<close>

record Range =
  left :: "bool \<times> string"
  right :: "bool \<times> string"

record Condition =
  m_offset :: int
  m_count :: int
  m_conditions :: "(string \<times> Range) list"

definition UNLIMITED :: string where "UNLIMITED = ''_VALUE_UNLIMITED_''"

definition Condition_new :: Condition where
  "Condition_new = \<lparr>m_offset = - 1, m_count = - 1, m_conditions = []\<rparr>"

definition cond_EQ :: "string \<Rightarrow> string \<Rightarrow> Condition \<Rightarrow> Condition" where
  "cond_EQ key v c = c\<lparr>m_conditions := smap_set key \<lparr>left = (True, v), right = (True, v)\<rparr> (m_conditions c)\<rparr>"

definition cond_NE :: "string \<Rightarrow> string \<Rightarrow> Condition \<Rightarrow> Condition" where
  "cond_NE key v c = c\<lparr>m_conditions := smap_set key \<lparr>left = (False, v), right = (False, v)\<rparr> (m_conditions c)\<rparr>"

definition set_left :: "bool \<Rightarrow> string \<Rightarrow> string \<Rightarrow> Condition \<Rightarrow> Condition" where
  "set_left b key v c =
     (case map_of (m_conditions c) key of
        Some r \<Rightarrow> c\<lparr>m_conditions := smap_set key (r\<lparr>left := (b, v)\<rparr>) (m_conditions c)\<rparr>
      | None \<Rightarrow> c\<lparr>m_conditions := smap_set key \<lparr>left = (b, v), right = (False, UNLIMITED)\<rparr> (m_conditions c)\<rparr>)"

definition set_right :: "bool \<Rightarrow> string \<Rightarrow> string \<Rightarrow> Condition \<Rightarrow> Condition" where
  "set_right b key v c =
     (case map_of (m_conditions c) key of
        Some r \<Rightarrow> c\<lparr>m_conditions := smap_set key (r\<lparr>right := (b, v)\<rparr>) (m_conditions c)\<rparr>
      | None \<Rightarrow> c\<lparr>m_conditions := smap_set key \<lparr>left = (False, UNLIMITED), right = (b, v)\<rparr> (m_conditions c)\<rparr>)"

definition cond_GT :: "string \<Rightarrow> string \<Rightarrow> Condition \<Rightarrow> Condition" where "cond_GT = set_left False"

definition cond_GE :: "string \<Rightarrow> string \<Rightarrow> Condition \<Rightarrow> Condition" where "cond_GE = set_left True"

definition cond_LT :: "string \<Rightarrow> string \<Rightarrow> Condition \<Rightarrow> Condition" where "cond_LT = set_right False"

definition cond_LE :: "string \<Rightarrow> string \<Rightarrow> Condition \<Rightarrow> Condition" where "cond_LE = set_right True"

definition cond_limit :: "int \<Rightarrow> int \<Rightarrow> Condition \<Rightarrow> Condition" where
  "cond_limit offset cnt c = c\<lparr>m_offset := offset, m_count := cnt\<rparr>"

text \<open>The getters narrow the 64 bit members to an \<open>int\<close>.\<close>

definition getOffset :: "Condition \<Rightarrow> int" where "getOffset c = signed_take_bit 31 (m_offset c)"

definition getCount :: "Condition \<Rightarrow> int" where "getCount c = signed_take_bit 31 (m_count c)"

definition field_value :: "(string \<Rightarrow> int option) \<Rightarrow> string \<Rightarrow> int option" where
  "field_value lc v = (if v = [] then Some 0 else lc v)"

definition left_ok :: "(string \<Rightarrow> int option) \<Rightarrow> Range \<Rightarrow> string \<Rightarrow> bool option" where
  "left_ok lc r v =
     (if snd (left r) = UNLIMITED then Some True
      else case lc (snd (left r)) of
        None \<Rightarrow> None
      | Some lhs \<Rightarrow> map_option (\<lambda>rhs. if fst (left r) then lhs \<le> rhs else lhs < rhs) (field_value lc v))"

definition right_ok :: "(string \<Rightarrow> int option) \<Rightarrow> Range \<Rightarrow> string \<Rightarrow> bool option" where
  "right_ok lc r v =
     (if snd (right r) = UNLIMITED then Some True
      else case lc (snd (right r)) of
        None \<Rightarrow> None
      | Some lhs \<Rightarrow> map_option (\<lambda>rhs. if fst (right r) then lhs \<ge> rhs else lhs > rhs) (field_value lc v))"

text \<open>The loop of \<open>process\<close>; an exception of \<open>lexical_cast\<close> is \<open>None\<close>.\<close>

fun process_loop :: "(string \<Rightarrow> int option) \<Rightarrow> Entry \<Rightarrow> (string \<times> Range) list \<Rightarrow> bool option" where
  "process_loop lc e [] = Some True"
| "process_loop lc e ((k, r) # cs) =
     (if \<not> isHashField k then process_loop lc e cs
      else case map_of (m_fields e) k of
        None \<Rightarrow> Some False
      | Some v \<Rightarrow>
          if snd (left r) = snd (right r) \<and> fst (left r) \<and> fst (right r)
          then if snd (left r) = v then process_loop lc e cs else Some False
          else case left_ok lc r v of
            None \<Rightarrow> None
          | Some False \<Rightarrow> Some False
          | Some True \<Rightarrow> (case right_ok lc r v of
              None \<Rightarrow> None
            | Some False \<Rightarrow> Some False
            | Some True \<Rightarrow> process_loop lc e cs))"

definition process :: "(string \<Rightarrow> int option) \<Rightarrow> Condition \<Rightarrow> Entry \<Rightarrow> bool" where
  "process lc c e =
     (if m_status e = DELETED \<or> m_deleted e then False
      else case process_loop lc e (m_conditions c) of None \<Rightarrow> False | Some b \<Rightarrow> b)"

section \<open>Entries\<close>

definition entry_ok :: "Entry \<Rightarrow> bool" where
  "entry_ok e \<longleftrightarrow> smap_ok (m_fields e) \<and> m_capacity e = int (\<Sum>(k, v) \<leftarrow> m_fields e. length k + length v)"

lemma smap_set_size:
  fixes m :: "(string \<times> string) list"
  assumes "smap_ok m"
  shows "int (\<Sum>(k, v) \<leftarrow> smap_set key v m. length k + length v) = int (\<Sum>(k, v) \<leftarrow> m. length k + length v) +
    int (length key + length v) - (case map_of m key of Some old \<Rightarrow> int (length key + length old) | None \<Rightarrow> 0)"
  using assms
proof (induction m)
  case (Cons p m)
  obtain k' v' where p: "p = (k', v')" by (cases p)
  have "smap_ok m" "\<forall>x \<in> fst ` set m. k' < x" using Cons.prems by (auto simp: smap_ok_def p)
  moreover have "key < k' \<Longrightarrow> key \<notin> fst ` set m" using \<open>\<forall>x \<in> fst ` set m. k' < x\<close> by (meson order_less_asym)
  ultimately show ?case using Cons.IH by (auto simp: p map_of_eq_None_iff [symmetric])
qed simp

lemma entry_ok_new [simp]: "entry_ok Entry_new"
  by (simp add: entry_ok_def Entry_new_def)

lemma entry_ok_setField [simp]: "entry_ok e \<Longrightarrow> entry_ok (setField k v e)"
  using smap_set_size [of "m_fields e" k v] by (auto simp: entry_ok_def setField_def split: option.split)

lemma entry_ok_flags [simp]:
  "entry_ok (setID i e) = entry_ok e" "entry_ok (setTempIndex j e) = entry_ok e" "entry_ok (setStatus s e) = entry_ok e"
  "entry_ok (setNum n e) = entry_ok e" "entry_ok (setForce b e) = entry_ok e" "entry_ok (setDeleted b e) = entry_ok e"
  by (simp_all add: entry_ok_def setID_def setTempIndex_def setStatus_def setNum_def setForce_def setDeleted_def)

lemma getField_setField: "smap_ok (m_fields e) \<Longrightarrow> getField (setField k v e) k' = (if k' = k then v else getField e k')"
  by (simp add: getField_def setField_def map_of_smap_set)

section \<open>The order of entries\<close>

text \<open>The comparison is the lexicographic order of a key of four parts.\<close>

definition entry_key :: "string \<Rightarrow> Entry \<Rightarrow> nat \<times> string \<times> nat \<times> (string \<times> string) list" where
  "entry_key key e = (m_ID e, getField e key, length (m_fields e), m_fields e)"

lemma fields_less_iff: "length l = length r \<Longrightarrow> fields_less l r \<longleftrightarrow> l < r"
  by (induction l r rule: fields_less.induct) auto

lemma EntryLess_iff: "EntryLess key l r \<longleftrightarrow> entry_key key l < entry_key key r"
  by (auto simp: EntryLess_def entry_key_def fields_less_iff)

text \<open>A result of sorting with this comparison.\<close>

definition sorted_entries :: "string \<Rightarrow> Entry list \<Rightarrow> bool" where
  "sorted_entries key es \<longleftrightarrow> sorted_wrt (\<lambda>l r. \<not> EntryLess key r l) es"

lemma sorted_entries_keys: "sorted_entries key es \<longleftrightarrow> sorted (map (entry_key key) es)"
  by (simp add: sorted_entries_def sorted_wrt_map EntryLess_iff not_less)

lemma sorted_entries_unique:
  assumes "mset xs = mset ys" "sorted_entries key xs" "sorted_entries key ys"
  shows "map (entry_key key) xs = map (entry_key key) ys"
proof -
  have "mset (map (entry_key key) xs) = mset (map (entry_key key) ys)" using assms(1) by simp
  then have "sort (map (entry_key key) xs) = map (entry_key key) ys"
    by (intro properties_for_sort) (use assms(3) sorted_entries_keys in auto)
  then show ?thesis using assms(2) by (simp add: sorted_entries_keys sorted_sort_id)
qed

section \<open>Conditions\<close>

definition range_ok :: "(string \<Rightarrow> int option) \<Rightarrow> Range \<Rightarrow> string \<Rightarrow> bool" where
  "range_ok lc r v =
     (if snd (left r) = snd (right r) \<and> fst (left r) \<and> fst (right r) then snd (left r) = v
      else left_ok lc r v = Some True \<and> right_ok lc r v = Some True)"

lemma process_loop_iff:
  "process_loop lc e cs = Some True \<longleftrightarrow>
   (\<forall>(k, r) \<in> set cs. isHashField k \<longrightarrow> (\<exists>v. map_of (m_fields e) k = Some v \<and> range_ok lc r v))"
  by (induction lc e cs rule: process_loop.induct) (auto simp: range_ok_def split: option.splits bool.splits)

lemma process_iff:
  "process lc c e \<longleftrightarrow> m_status e \<noteq> DELETED \<and> \<not> m_deleted e \<and>
     (\<forall>(k, r) \<in> set (m_conditions c). isHashField k \<longrightarrow> (\<exists>v. map_of (m_fields e) k = Some v \<and> range_ok lc r v))"
  using process_loop_iff [of lc e "m_conditions c"] by (auto simp: process_def split: option.splits)

lemma range_ok_EQ: "range_ok lc \<lparr>left = (True, v), right = (True, v)\<rparr> w \<longleftrightarrow> w = v"
  by (auto simp: range_ok_def)

lemma range_ok_NE: "v \<noteq> UNLIMITED \<Longrightarrow> \<not> range_ok lc \<lparr>left = (False, v), right = (False, v)\<rparr> w"
  by (auto simp: range_ok_def left_ok_def right_ok_def split: option.splits)

lemma set_smap_set: "smap_ok m \<Longrightarrow> set (smap_set k v m) = insert (k, v) {p \<in> set m. fst p \<noteq> k}"
proof (induction m)
  case (Cons p m)
  obtain k' v' where p: "p = (k', v')" by (cases p)
  have "smap_ok m" "\<forall>x \<in> set m. k' < fst x" using Cons.prems by (auto simp: smap_ok_def p)
  then show ?case using Cons.IH by (force simp: p)
qed simp

lemma process_EQ:
  assumes "smap_ok (m_conditions c)" "isHashField k"
  shows "process lc (cond_EQ k v c) e \<longleftrightarrow> map_of (m_fields e) k = Some v \<and> process lc (c\<lparr>m_conditions := filter (\<lambda>p. fst p \<noteq> k) (m_conditions c)\<rparr>) e"
  using assms by (auto simp: process_iff cond_EQ_def set_smap_set range_ok_EQ)

lemma conditions_ok:
  "smap_ok (m_conditions Condition_new)" "smap_ok (m_conditions c) \<Longrightarrow> smap_ok (m_conditions (cond_limit i n c))"
  "smap_ok (m_conditions c) \<Longrightarrow> smap_ok (m_conditions (cond_EQ k v c))" "smap_ok (m_conditions c) \<Longrightarrow> smap_ok (m_conditions (cond_NE k v c))"
  "smap_ok (m_conditions c) \<Longrightarrow> smap_ok (m_conditions (cond_GT k v c))" "smap_ok (m_conditions c) \<Longrightarrow> smap_ok (m_conditions (cond_GE k v c))"
  "smap_ok (m_conditions c) \<Longrightarrow> smap_ok (m_conditions (cond_LT k v c))" "smap_ok (m_conditions c) \<Longrightarrow> smap_ok (m_conditions (cond_LE k v c))"
  by (simp_all add: Condition_new_def cond_limit_def cond_EQ_def cond_NE_def cond_GT_def cond_GE_def cond_LT_def cond_LE_def
    set_left_def set_right_def split: option.split)

section \<open>Properties\<close>

text \<open>C40: A condition that a field is not equal to a value is never met, whatever the value of the field: both bounds of the
range are the value itself and both are strict.\<close>

theorem ne_never_matches:
  assumes "smap_ok (m_conditions c)" "isHashField k" "v \<noteq> UNLIMITED"
  shows "\<not> process lc (cond_NE k v c) e"
  using assms range_ok_NE [of v lc] by (auto simp: process_iff cond_NE_def set_smap_set)

theorem ne_never_matches_witness:
  "\<not> process (\<lambda>s. if s = ''7'' then Some 7 else if s = ''8'' then Some 8 else None) (cond_NE ''price'' ''7'' Condition_new)
     (setField ''price'' ''8'' Entry_new)"
  by (rule ne_never_matches) (simp_all add: Condition_new_def isHashField_def UNLIMITED_def)

end
