(* ===== verification/Memory_Table.thy ===== *)
theory Memory_Table
  imports Storage_Table CommonData Effects
begin

text \<open>
  libstorage/MemoryTable2 and libstorage/MemoryTableFactory2: the tables that transactions read and write while a block
  is executed, and their rollback.

  The storage below a table is the parameter \<open>remote\<close>: what its \<open>select\<close> returns for a table, a key and a condition,
  \<open>None\<close> for a null pointer or an exception. Without a storage it returns no entries. Selected entries are references,
  so that writes through them change the table: to an entry that is new in this block, to an entry that is in
  \<open>m_dirty\<close>, or to a copy that the storage returned. Entries that are inserted have the ID 0. A change log belongs to one
  thread. The hash functions and \<open>boost::split\<close> are parameters.
\<close>

section \<open>Definitions\<close>

subsection \<open>Tables\<close>

type_synonym Address = bytes

record TableInfo =
  ti_name :: string
  ti_key :: string
  ti_fields :: "string list"
  authorizedAddress :: "Address list"

record AccessOptions =
  opt_origin :: Address
  opt_check :: bool

datatype Kind = Insert | Update | Remove | Select

record ChangeRecord =
  cr_index :: nat
  cr_key :: string
  oldValue :: string
  cr_id :: nat

record Change =
  ch_table :: string
  ch_kind :: Kind
  ch_key :: string
  ch_value :: "ChangeRecord list"

record MemoryTable2 =
  m_newEntries :: "(string, Entry list) umap"
  mt_dirty :: "(nat, Entry) umap"
  m_tableInfo :: TableInfo
  m_isDirty :: bool
  m_hash :: nat
  m_tableData :: "(Entry list \<times> Entry list) option"

definition MemoryTable2_new :: "TableInfo \<Rightarrow> MemoryTable2" where
  "MemoryTable2_new info = \<lparr>m_newEntries = [], mt_dirty = [], m_tableInfo = info, m_isDirty = False, m_hash = 0, m_tableData = None\<rparr>"

definition CODE_NO_AUTHORIZED :: int where "CODE_NO_AUTHORIZED = - 50000"

definition checkAuthority :: "MemoryTable2 \<Rightarrow> Address \<Rightarrow> bool" where
  "checkAuthority t a \<longleftrightarrow> authorizedAddress (m_tableInfo t) = [] \<or> a \<in> set (authorizedAddress (m_tableInfo t))"

definition checkField :: "MemoryTable2 \<Rightarrow> Entry \<Rightarrow> bool" where
  "checkField t e \<longleftrightarrow> list_all (\<lambda>(k, v). k \<in> set (ti_fields (m_tableInfo t))) (m_fields e)"

datatype Ref = NewRef nat | DirtyRef nat | DbRef Entry

definition new_entries :: "MemoryTable2 \<Rightarrow> string \<Rightarrow> Entry list" where
  "new_entries t key = (case um_find (m_newEntries t) key of None \<Rightarrow> [] | Some es \<Rightarrow> es)"

definition entry_at :: "MemoryTable2 \<Rightarrow> string \<Rightarrow> Ref \<Rightarrow> Entry" where
  "entry_at t key ref =
     (case ref of
        NewRef i \<Rightarrow> new_entries t key ! i
      | DirtyRef i \<Rightarrow> the (um_find (mt_dirty t) i)
      | DbRef e \<Rightarrow> e)"

text \<open>A write through a reference. A copy that is in no container is lost.\<close>

definition put :: "string \<Rightarrow> Ref \<Rightarrow> Entry \<Rightarrow> MemoryTable2 \<Rightarrow> MemoryTable2" where
  "put key ref e t =
     (case ref of
        NewRef i \<Rightarrow> t\<lparr>m_newEntries := um_set key ((new_entries t key)[i := e]) (m_newEntries t)\<rparr>
      | DirtyRef i \<Rightarrow> t\<lparr>mt_dirty := um_set i e (mt_dirty t)\<rparr>
      | DbRef _ \<Rightarrow> t)"

definition processEntries :: "(string \<Rightarrow> int option) \<Rightarrow> Entry list \<Rightarrow> Condition \<Rightarrow> nat list" where
  "processEntries lc es c =
     (if m_conditions c = [] then [0..<length es] else filter (\<lambda>i. process lc c (es ! i)) [0..<length es])"

text \<open>The sum wraps where the source has a signed overflow.\<close>

definition proccessLimit :: "Condition \<Rightarrow> 'a list \<Rightarrow> 'a list" where
  "proccessLimit c es =
     (let start = getOffset c; stop = signed_take_bit 31 (start + getCount c); size = int (length es) in
      if start \<ge> size then []
      else let stop = (if stop > size then size else stop) in map (\<lambda>i. es ! i) [nat start..<nat stop])"

definition set_temp :: "string \<Rightarrow> nat \<Rightarrow> MemoryTable2 \<Rightarrow> MemoryTable2" where
  "set_temp key i t = put key (NewRef i) (setTempIndex i (entry_at t key (NewRef i))) t"

definition selectNoLock ::
  "(string \<Rightarrow> int option) \<Rightarrow> (TableInfo \<Rightarrow> string \<Rightarrow> Condition \<Rightarrow> Entry list option) \<Rightarrow> string \<Rightarrow> Condition \<Rightarrow> MemoryTable2 \<Rightarrow>
   Ref list \<times> MemoryTable2" where
  "selectNoLock lc remote key c t =
     (let c = cond_EQ (ti_key (m_tableInfo t)) key c in
      case remote (m_tableInfo t) key c of
        None \<Rightarrow> ([], t)
      | Some db \<Rightarrow>
          let old = map (\<lambda>e. if um_find (mt_dirty t) (m_ID e) \<noteq> None then DirtyRef (m_ID e) else DbRef e) db;
              indices = processEntries lc (new_entries t key) c;
              t = fold (set_temp key) indices t;
              refs = old @ map NewRef indices in
          (if getOffset c \<ge> 0 \<and> getCount c \<ge> 0 then proccessLimit c refs else refs, t))"

definition mt_select ::
  "(string \<Rightarrow> int option) \<Rightarrow> (TableInfo \<Rightarrow> string \<Rightarrow> Condition \<Rightarrow> Entry list option) \<Rightarrow> string \<Rightarrow> Condition \<Rightarrow> MemoryTable2 \<Rightarrow>
   Entry list \<times> MemoryTable2" where
  "mt_select lc remote key c t = (case selectNoLock lc remote key c t of (refs, t) \<Rightarrow> (map (entry_at t key) refs, t))"

text \<open>A copy with an ID becomes an entry of \<open>m_dirty\<close> before it is changed.\<close>

definition touch :: "Ref \<Rightarrow> MemoryTable2 \<Rightarrow> Ref \<times> MemoryTable2" where
  "touch ref t =
     (case ref of
        DbRef e \<Rightarrow>
          if m_ID e \<noteq> 0 \<and> um_find (mt_dirty t) (m_ID e) = None
          then (DirtyRef (m_ID e), t\<lparr>mt_dirty := um_set (m_ID e) e (mt_dirty t)\<rparr>) else (ref, t)
      | _ \<Rightarrow> (ref, t))"

fun update_fields :: "string \<Rightarrow> (string \<times> string) list \<Rightarrow> Entry \<Rightarrow> ChangeRecord list \<times> Entry" where
  "update_fields tk [] e = ([], e)"
| "update_fields tk ((f, v) # fs) e =
     (if f \<noteq> ID_FIELD \<and> f \<noteq> tk
      then case update_fields tk fs (setField f v e) of (rs, e') \<Rightarrow>
        (\<lparr>cr_index = m_tempIndex e, cr_key = f, oldValue = getField e f, cr_id = m_ID e\<rparr> # rs, e')
      else update_fields tk fs e)"

fun update_loop :: "string \<Rightarrow> Entry \<Rightarrow> Ref list \<Rightarrow> MemoryTable2 \<Rightarrow> ChangeRecord list \<times> MemoryTable2" where
  "update_loop key entry [] t = ([], t)"
| "update_loop key entry (ref # refs) t =
     (case touch ref t of (ref, t) \<Rightarrow>
      case update_fields (ti_key (m_tableInfo t)) (m_fields entry) (entry_at t key ref) of (rs, e) \<Rightarrow>
      case update_loop key entry refs (put key ref e t) of (rs', t) \<Rightarrow> (rs @ rs', t))"

text \<open>An operation returns its code, the change it reports to the recorder and the table.\<close>

definition mt_update ::
  "(string \<Rightarrow> int option) \<Rightarrow> (TableInfo \<Rightarrow> string \<Rightarrow> Condition \<Rightarrow> Entry list option) \<Rightarrow> string \<Rightarrow> Entry \<Rightarrow> Condition \<Rightarrow> AccessOptions \<Rightarrow>
   MemoryTable2 \<Rightarrow> int \<times> Change option \<times> MemoryTable2" where
  "mt_update lc remote key entry c opts t =
     (if opt_check opts \<and> \<not> checkAuthority t (opt_origin opts) then (CODE_NO_AUTHORIZED, None, t)
      else if \<not> checkField t entry then (0, None, t)
      else case selectNoLock lc remote key c t of (refs, t) \<Rightarrow>
        case update_loop key entry refs t of (records, t) \<Rightarrow>
          (int (length refs), Some \<lparr>ch_table = ti_name (m_tableInfo t), ch_kind = Update, ch_key = key, ch_value = records\<rparr>,
           t\<lparr>m_isDirty := True\<rparr>))"

definition mt_insert ::
  "string \<Rightarrow> Entry \<Rightarrow> AccessOptions \<Rightarrow> MemoryTable2 \<Rightarrow> int \<times> Change option \<times> MemoryTable2" where
  "mt_insert key entry opts t =
     (if opt_check opts \<and> \<not> checkAuthority t (opt_origin opts) then (CODE_NO_AUTHORIZED, None, t)
      else if \<not> checkField t entry then (0, None, t)
      else
        let entry = setField (ti_key (m_tableInfo t)) key entry;
            es = new_entries t key;
            record = \<lparr>cr_index = length es, cr_key = [], oldValue = [], cr_id = 0\<rparr> in
        (1, Some \<lparr>ch_table = ti_name (m_tableInfo t), ch_kind = Insert, ch_key = key, ch_value = [record]\<rparr>,
         t\<lparr>m_newEntries := um_set key (es @ [entry]) (m_newEntries t), m_isDirty := True\<rparr>))"

fun remove_loop :: "string \<Rightarrow> Ref list \<Rightarrow> MemoryTable2 \<Rightarrow> ChangeRecord list \<times> MemoryTable2" where
  "remove_loop key [] t = ([], t)"
| "remove_loop key (ref # refs) t =
     (case touch ref t of (ref, t) \<Rightarrow>
      let e = entry_at t key ref in
      case remove_loop key refs (put key ref (setStatus 1 e) t) of (rs, t) \<Rightarrow>
        (\<lparr>cr_index = m_tempIndex e, cr_key = [], oldValue = [], cr_id = m_ID e\<rparr> # rs, t))"

definition mt_remove ::
  "(string \<Rightarrow> int option) \<Rightarrow> (TableInfo \<Rightarrow> string \<Rightarrow> Condition \<Rightarrow> Entry list option) \<Rightarrow> string \<Rightarrow> Condition \<Rightarrow> AccessOptions \<Rightarrow>
   MemoryTable2 \<Rightarrow> int \<times> Change option \<times> MemoryTable2" where
  "mt_remove lc remote key c opts t =
     (if opt_check opts \<and> \<not> checkAuthority t (opt_origin opts) then (CODE_NO_AUTHORIZED, None, t)
      else case selectNoLock lc remote key c t of (refs, t) \<Rightarrow>
        case remove_loop key refs t of (records, t) \<Rightarrow>
          (int (length refs), Some \<lparr>ch_table = ti_name (m_tableInfo t), ch_kind = Remove, ch_key = key, ch_value = records\<rparr>,
           t\<lparr>m_isDirty := True\<rparr>))"

text \<open>Rollback of a change.\<close>

definition undo_ref :: "ChangeRecord \<Rightarrow> Ref" where
  "undo_ref r = (if cr_id r \<noteq> 0 then DirtyRef (cr_id r) else NewRef (cr_index r))"

definition undo_at :: "string \<Rightarrow> Ref \<Rightarrow> (Entry \<Rightarrow> Entry) \<Rightarrow> MemoryTable2 \<Rightarrow> MemoryTable2" where
  "undo_at key ref f t =
     (case ref of
        DirtyRef i \<Rightarrow> (case um_find (mt_dirty t) i of None \<Rightarrow> t | Some e \<Rightarrow> put key ref (f e) t)
      | NewRef i \<Rightarrow> (case um_find (m_newEntries t) key of None \<Rightarrow> t | Some es \<Rightarrow> put key ref (f (es ! i)) t)
      | DbRef e \<Rightarrow> t)"

definition table_rollback :: "Change \<Rightarrow> MemoryTable2 \<Rightarrow> MemoryTable2" where
  "table_rollback ch t =
     (case ch_kind ch of
        Insert \<Rightarrow> undo_at (ch_key ch) (NewRef (cr_index (hd (ch_value ch)))) (setDeleted True) t
      | Update \<Rightarrow> fold (\<lambda>r. undo_at (ch_key ch) (undo_ref r) (setField (cr_key r) (oldValue r))) (ch_value ch) t
      | Remove \<Rightarrow> fold (\<lambda>r. undo_at (ch_key ch) (undo_ref r) (setStatus 0)) (ch_value ch) t
      | Select \<Rightarrow> t)"

text \<open>What is hashed. The parallel loops collect the entries in any order and an unstable sort follows: the order of the
entries is an argument that has to meet \<open>dump_order\<close>. The hash of a table without entries is that of no data, since the
assignment of the empty hash is overwritten.\<close>

definition live_dirty :: "MemoryTable2 \<Rightarrow> Entry list" where
  "live_dirty t = filter (\<lambda>e. \<not> m_deleted e) (map snd (mt_dirty t))"

definition live_new :: "MemoryTable2 \<Rightarrow> Entry list" where
  "live_new t = filter (\<lambda>e. \<not> m_deleted e) (concat (map snd (m_newEntries t)))"

definition dump_order :: "MemoryTable2 \<Rightarrow> Entry list \<Rightarrow> bool" where
  "dump_order t es \<longleftrightarrow> mset es = mset (live_dirty t @ live_new t) \<and> sorted_entries (ti_key (m_tableInfo t)) es"

definition entry_data :: "Entry \<Rightarrow> string" where
  "entry_data e = concat (map (\<lambda>(k, v). if isHashField k then k @ v else []) (m_fields e)) @ [char_of (nat (m_status e mod 256))]"

definition dump :: "(string \<Rightarrow> nat) \<Rightarrow> Entry list \<Rightarrow> MemoryTable2 \<Rightarrow> MemoryTable2" where
  "dump sha256 es t =
     (if m_isDirty t
      then t\<lparr>m_tableData := Some (live_dirty t, live_new t), m_hash := sha256 (concat (map entry_data es)), m_isDirty := False\<rparr>
      else t)"

definition table_hash :: "(string \<Rightarrow> nat) \<Rightarrow> Entry list \<Rightarrow> MemoryTable2 \<Rightarrow> nat \<times> MemoryTable2" where
  "table_hash sha256 es t = (let t = dump sha256 es t in (m_hash t, t))"

subsection \<open>The tables of a block\<close>

record MemoryTableFactory2 =
  m_name2Table :: "(string, MemoryTable2) umap"
  m_changeLog :: "Change list"
  m_blockNum :: int

datatype table_exn = OutOfRange | BadAddress | NotPermitted

definition SYS_TABLES :: string where "SYS_TABLES = ''_sys_tables_''"

definition SYS_ACCESS_TABLE :: string where "SYS_ACCESS_TABLE = ''_sys_table_access_''"

definition sysTableInfos :: "(string \<times> string \<times> string list) list" where
  "sysTableInfos =
     [(''_sys_consensus_'', ''name'', [''type'', ''node_id'', ''enable_num'']),
      (SYS_TABLES, ''table_name'', [''key_field'', ''value_field'']),
      (SYS_ACCESS_TABLE, ''table_name'', [''address'', ''enable_num'']),
      (''_sys_current_state_'', ''key'', [''value'']),
      (''_sys_number_2_hash_'', ''number'', [''value'']),
      (''_sys_tx_hash_2_block_'', ''hash'', [''value'', ''index'']),
      (''_sys_hash_2_block_'', ''hash'', [''value'']),
      (''_sys_cns_'', ''name'', [''version'', ''address'', ''abi'']),
      (''_sys_config_'', ''key'', [''value'', ''enable_num'']),
      (''_sys_block_2_nonces_'', ''number'', [''value''])]"

definition m_sysTables :: "string list" where "m_sysTables = map fst sysTableInfos"

definition add_fields :: "TableInfo \<Rightarrow> TableInfo" where
  "add_fields info = info\<lparr>ti_fields := ti_fields info @ [STATUS, ti_key info, NUM_FIELD, ID_FIELD]\<rparr>"

definition getSysTableInfo :: "string \<Rightarrow> TableInfo" where
  "getSysTableInfo name =
     (case map_of sysTableInfos name of
        Some (key, fs) \<Rightarrow> \<lparr>ti_name = name, ti_key = key, ti_fields = fs, authorizedAddress = []\<rparr>
      | None \<Rightarrow> \<lparr>ti_name = name, ti_key = [], ti_fields = [], authorizedAddress = []\<rparr>)"

text \<open>\<open>std::stoi\<close>: white space, a sign and at least one digit; what follows is ignored.\<close>

definition stoi :: "string \<Rightarrow> int option" where
  "stoi s =
     (let s = dropWhile (\<lambda>c. c = CHR '' '' \<or> (9 \<le> (of_char c :: nat) \<and> (of_char c :: nat) \<le> 13)) s;
          neg = (s \<noteq> [] \<and> hd s = CHR ''-'');
          s = (if s \<noteq> [] \<and> (hd s = CHR ''-'' \<or> hd s = CHR ''+'') then tl s else s);
          ds = takeWhile (\<lambda>c. 48 \<le> (of_char c :: nat) \<and> (of_char c :: nat) \<le> 57) s;
          n = foldl (\<lambda>n c. 10 * n + (of_char c - 48)) (0 :: int) ds;
          n = (if neg then - n else n) in
      if ds = [] \<or> n < - (2 ^ 31) \<or> n \<ge> 2 ^ 31 then None else Some n)"

fun authorized :: "int \<Rightarrow> Entry list \<Rightarrow> table_exn + Address list" where
  "authorized blockNum [] = Inr []"
| "authorized blockNum (e # es) =
     (case stoi (getField e ''enable_num'') of
        None \<Rightarrow> Inl OutOfRange
      | Some n \<Rightarrow>
          if n \<le> blockNum
          then case fromHex (getField e ''address'') Throw of
              Inl _ \<Rightarrow> Inl BadAddress
            | Inr a \<Rightarrow> map_sum id ((#) (FixedHash_of_bytes 20 a FailIfDifferent)) (authorized blockNum es)
          else authorized blockNum es)"

definition table_of :: "MemoryTableFactory2 \<Rightarrow> string \<Rightarrow> MemoryTable2" where
  "table_of s name = the (um_find (m_name2Table s) name)"

definition is_open :: "MemoryTableFactory2 \<Rightarrow> string \<Rightarrow> bool" where
  "is_open s name \<longleftrightarrow> um_find (m_name2Table s) name \<noteq> None"

definition set_table :: "string \<Rightarrow> MemoryTable2 \<Rightarrow> MemoryTableFactory2 \<Rightarrow> MemoryTableFactory2" where
  "set_table name t s = s\<lparr>m_name2Table := um_set name t (m_name2Table s)\<rparr>"

definition select_in ::
  "(string \<Rightarrow> int option) \<Rightarrow> (TableInfo \<Rightarrow> string \<Rightarrow> Condition \<Rightarrow> Entry list option) \<Rightarrow> string \<Rightarrow> string \<Rightarrow> Condition \<Rightarrow>
   (MemoryTableFactory2, table_exn, Entry list) eff" where
  "select_in lc remote name key c = (\<lambda>s. case mt_select lc remote key c (table_of s name) of (es, t) \<Rightarrow> (Inr es, set_table name t s))"

text \<open>An operation on a table, with the recorder that appends its change to the log.\<close>

definition table_op ::
  "string \<Rightarrow> (MemoryTable2 \<Rightarrow> int \<times> Change option \<times> MemoryTable2) \<Rightarrow> (MemoryTableFactory2, table_exn, int) eff" where
  "table_op name f =
     (\<lambda>s. case f (table_of s name) of (r, ch, t) \<Rightarrow>
        (Inr r, (set_table name t s)\<lparr>m_changeLog := m_changeLog s @ (case ch of None \<Rightarrow> [] | Some c \<Rightarrow> [c])\<rparr>))"

definition open_access ::
  "(string \<Rightarrow> int option) \<Rightarrow> (TableInfo \<Rightarrow> string \<Rightarrow> Condition \<Rightarrow> Entry list option) \<Rightarrow> bool \<Rightarrow> (MemoryTableFactory2, table_exn, unit) eff" where
  "open_access lc remote authorityFlag =
     e_on (\<lambda>s. if is_open s SYS_ACCESS_TABLE then e_ret ()
       else let info = add_fields (getSysTableInfo SYS_ACCESS_TABLE) in
         if authorityFlag
         then case mt_select lc remote SYS_ACCESS_TABLE Condition_new (MemoryTable2_new info) of (rows, t) \<Rightarrow>
           e_bind (e_lift (authorized (m_blockNum s) rows))
             (\<lambda>as. e_mod (set_table SYS_ACCESS_TABLE (t\<lparr>m_tableInfo := info\<lparr>authorizedAddress := as\<rparr>\<rparr>)))
         else e_mod (set_table SYS_ACCESS_TABLE (MemoryTable2_new info)))"

definition setAuthorizedAddress ::
  "(string \<Rightarrow> int option) \<Rightarrow> (TableInfo \<Rightarrow> string \<Rightarrow> Condition \<Rightarrow> Entry list option) \<Rightarrow> TableInfo \<Rightarrow> (MemoryTableFactory2, table_exn, TableInfo) eff" where
  "setAuthorizedAddress lc remote info =
     e_seq (open_access lc remote True)
     (e_bind (select_in lc remote SYS_ACCESS_TABLE (ti_name info) Condition_new) (\<lambda>rows.
      e_on (\<lambda>s. e_bind (e_lift (authorized (m_blockNum s) rows)) (\<lambda>as. e_ret (info\<lparr>authorizedAddress := as\<rparr>)))))"

definition open_info ::
  "(string \<Rightarrow> int option) \<Rightarrow> (TableInfo \<Rightarrow> string \<Rightarrow> Condition \<Rightarrow> Entry list option) \<Rightarrow> TableInfo \<Rightarrow> bool \<Rightarrow> (MemoryTableFactory2, table_exn, unit) eff" where
  "open_info lc remote info authorityFlag =
     (if authorityFlag
      then e_bind (setAuthorizedAddress lc remote info) (\<lambda>info. e_mod (set_table (ti_name info) (MemoryTable2_new info)))
      else e_mod (set_table (ti_name info) (MemoryTable2_new info)))"

definition open_sys ::
  "(string \<Rightarrow> int option) \<Rightarrow> (TableInfo \<Rightarrow> string \<Rightarrow> Condition \<Rightarrow> Entry list option) \<Rightarrow> string \<Rightarrow> bool \<Rightarrow> (MemoryTableFactory2, table_exn, unit) eff" where
  "open_sys lc remote name authorityFlag =
     e_on (\<lambda>s. if is_open s name then e_ret ()
       else if name = SYS_ACCESS_TABLE then open_access lc remote authorityFlag
       else open_info lc remote (add_fields (getSysTableInfo name)) authorityFlag)"

text \<open>\<open>False\<close> is the null pointer: there is no such table.\<close>

definition openTable ::
  "(string \<Rightarrow> int option) \<Rightarrow> (string \<Rightarrow> string list) \<Rightarrow> (TableInfo \<Rightarrow> string \<Rightarrow> Condition \<Rightarrow> Entry list option) \<Rightarrow> string \<Rightarrow> bool \<Rightarrow>
   (MemoryTableFactory2, table_exn, bool) eff" where
  "openTable lc split remote name authorityFlag =
     e_on (\<lambda>s. if is_open s name then e_ret True
       else if name \<in> set m_sysTables then e_seq (open_sys lc remote name authorityFlag) (e_ret True)
       else e_seq (open_sys lc remote SYS_TABLES True)
         (e_bind (select_in lc remote SYS_TABLES name Condition_new) (\<lambda>rows.
            case rows of
              [] \<Rightarrow> e_ret False
            | e # _ \<Rightarrow>
                e_seq (open_info lc remote (add_fields \<lparr>ti_name = name, ti_key = getField e ''key_field'',
                    ti_fields = split (getField e ''value_field''), authorizedAddress = []\<rparr>) authorityFlag)
                  (e_ret True))))"

definition createTable ::
  "(string \<Rightarrow> int option) \<Rightarrow> (string \<Rightarrow> string list) \<Rightarrow> (TableInfo \<Rightarrow> string \<Rightarrow> Condition \<Rightarrow> Entry list option) \<Rightarrow>
   string \<Rightarrow> string \<Rightarrow> string \<Rightarrow> bool \<Rightarrow> Address \<Rightarrow> (MemoryTableFactory2, table_exn, bool) eff" where
  "createTable lc split remote name keyField valueField authorityFlag origin =
     e_seq (open_sys lc remote SYS_TABLES authorityFlag)
     (e_bind (select_in lc remote SYS_TABLES name Condition_new) (\<lambda>rows.
      if rows \<noteq> [] then e_ret False
      else
        let entry = setField ''value_field'' valueField (setField ''key_field'' keyField (setField ''table_name'' name Entry_new)) in
        e_bind (table_op SYS_TABLES (mt_insert name entry \<lparr>opt_origin = origin, opt_check = authorityFlag\<rparr>)) (\<lambda>result.
        if result = CODE_NO_AUTHORIZED then e_throw NotPermitted
        else openTable lc split remote name authorityFlag)))"

definition savepoint :: "MemoryTableFactory2 \<Rightarrow> nat" where "savepoint s = length (m_changeLog s)"

definition factory_commit :: "MemoryTableFactory2 \<Rightarrow> MemoryTableFactory2" where "factory_commit s = s\<lparr>m_changeLog := []\<rparr>"

function factory_rollback :: "nat \<Rightarrow> MemoryTableFactory2 \<Rightarrow> MemoryTableFactory2" where
  "factory_rollback sp s =
     (if sp < length (m_changeLog s)
      then let ch = last (m_changeLog s) in
        factory_rollback sp ((set_table (ch_table ch) (table_rollback ch (table_of s (ch_table ch))) s)\<lparr>m_changeLog := butlast (m_changeLog s)\<rparr>)
      else s)"
  by auto

termination factory_rollback
  by (relation "measure (\<lambda>(sp, s). length (m_changeLog s))") simp_all

declare factory_rollback.simps [simp del]

text \<open>The hashes of the tables in the order of their names, 32 bytes each; \<open>order\<close> gives the order in which the entries of
a table are hashed.\<close>

definition hash_bytes32 :: "nat \<Rightarrow> string" where
  "hash_bytes32 h = map (\<lambda>i. char_of (h div 256 ^ (31 - i) mod 256)) [0..<32]"

definition factory_hash :: "(string \<Rightarrow> nat) \<Rightarrow> (MemoryTable2 \<Rightarrow> Entry list) \<Rightarrow> MemoryTableFactory2 \<Rightarrow> nat" where
  "factory_hash sha256 order s =
     (if m_name2Table s = [] then 0
      else sha256 (concat (map (\<lambda>name. let t = table_of s name in hash_bytes32 (fst (table_hash sha256 (order t) t)))
        (sort (map fst (m_name2Table s))))))"

text \<open>What is handed to the storage when the block is committed; the tables are dropped.\<close>

definition commitDB :: "(string \<Rightarrow> nat) \<Rightarrow> (MemoryTable2 \<Rightarrow> Entry list) \<Rightarrow> MemoryTableFactory2 \<Rightarrow>
    (TableInfo \<times> Entry list \<times> Entry list) list \<times> MemoryTableFactory2" where
  "commitDB sha256 order s =
     (concat (map (\<lambda>(name, t). case m_tableData (dump sha256 (order t) t) of
          None \<Rightarrow> []
        | Some (dirty, new) \<Rightarrow> if dirty \<noteq> [] \<or> new \<noteq> [] then [(m_tableInfo t, dirty, new)] else []) (m_name2Table s)),
      s\<lparr>m_name2Table := []\<rparr>)"

section \<open>The entries of a table\<close>

datatype Loc = NewLoc string nat | DirtyLoc nat

definition content :: "MemoryTable2 \<Rightarrow> Loc \<Rightarrow> Entry option" where
  "content t l =
     (case l of
        NewLoc key i \<Rightarrow> if i < length (new_entries t key) then Some (new_entries t key ! i) else None
      | DirtyLoc i \<Rightarrow> um_find (mt_dirty t) i)"

fun ref_loc :: "string \<Rightarrow> Ref \<Rightarrow> Loc" where
  "ref_loc key (NewRef i) = NewLoc key i"
| "ref_loc key (DirtyRef i) = DirtyLoc i"
| "ref_loc key (DbRef e) = DirtyLoc (m_ID e)"

lemma new_entries_set [simp]:
  "new_entries (t\<lparr>m_newEntries := um_set key es (m_newEntries t)\<rparr>) k = (if k = key then es else new_entries t k)"
  by (simp add: new_entries_def um_find_set_eq)

lemma new_entries_dirty [simp]:
  "new_entries (t\<lparr>mt_dirty := d\<rparr>) k = new_entries t k" "new_entries (t\<lparr>m_isDirty := b\<rparr>) k = new_entries t k"
  by (simp_all add: new_entries_def)

lemma content_put:
  assumes "content t (ref_loc key ref) \<noteq> None" "\<And>x. ref \<noteq> DbRef x"
  shows "content (put key ref e t) = (content t)(ref_loc key ref \<mapsto> e)"
proof
  fix l
  show "content (put key ref e t) l = ((content t)(ref_loc key ref \<mapsto> e)) l"
    using assms by (cases ref; cases l) (auto simp: content_def put_def um_find_set_eq nth_list_update split: if_splits)
qed

lemma info_put [simp]: "m_tableInfo (put key ref e t) = m_tableInfo t"
  by (simp add: put_def split: Ref.split)

lemma content_isDirty [simp]: "content (t\<lparr>m_isDirty := b\<rparr>) = content t"
  by (rule ext) (simp add: content_def split: Loc.split)

lemma entry_at_content: "content t (ref_loc key ref) = Some e \<Longrightarrow> (\<And>x. ref \<noteq> DbRef x) \<Longrightarrow> entry_at t key ref = e"
  by (cases ref) (auto simp: content_def entry_at_def split: if_splits)

lemma entry_at_loc:
  "content t (NewLoc key i) = Some e \<Longrightarrow> entry_at t key (NewRef i) = e" "content t (DirtyLoc i) = Some e \<Longrightarrow> entry_at t key (DirtyRef i) = e"
  by (auto simp: content_def entry_at_def split: if_splits)

lemma content_undo_at:
  assumes "\<And>x. ref \<noteq> DbRef x"
  shows "content (undo_at key ref f t) l = (if l = ref_loc key ref then map_option f (content t l) else content t l)"
  using assms by (cases ref; cases l) (auto simp: content_def undo_at_def put_def um_find_set_eq new_entries_def nth_list_update
    split: option.splits if_splits)

lemma undo_ref_no_db: "undo_ref r \<noteq> DbRef x"
  by (simp add: undo_ref_def)

lemma content_undo_fold:
  "content (fold (\<lambda>r. undo_at key (undo_ref r) (u r)) rs t) l =
   map_option (fold (\<lambda>r e. if l = ref_loc key (undo_ref r) then u r e else e) rs) (content t l)"
proof (induction rs arbitrary: t)
  case (Cons r rs)
  then show ?case
    by (cases "content t l"; cases "l = ref_loc key (undo_ref r)") (simp_all add: content_undo_at undo_ref_no_db)
qed (simp add: option.map_id0)

subsection \<open>What transactions can see of an entry\<close>

lemma setField_simps [simp]:
  "m_ID (setField k v e) = m_ID e" "m_status (setField k v e) = m_status e" "m_tempIndex (setField k v e) = m_tempIndex e"
  "m_num (setField k v e) = m_num e" "m_force (setField k v e) = m_force e" "m_deleted (setField k v e) = m_deleted e"
  by (simp_all add: setField_def)

lemma setField_fields [simp]:
  assumes "smap_ok (m_fields e)"
  shows "smap_ok (m_fields (setField k v e))" "map_of (m_fields (setField k v e)) = (map_of (m_fields e))(k \<mapsto> v)"
  using assms by (simp_all add: setField_def map_of_smap_set)

definition core :: "Entry \<Rightarrow> nat \<times> int \<times> nat \<times> bool \<times> bool \<times> (string \<times> string) list" where
  "core e = (m_ID e, m_status e, m_num e, m_force e, m_deleted e, m_fields e)"

text \<open>\<open>later store t t'\<close>: where the table has an entry the later one has the same. Its other entries are deleted, or equal
to what the storage has.\<close>

definition later :: "(nat \<rightharpoonup> Entry) \<Rightarrow> MemoryTable2 \<Rightarrow> MemoryTable2 \<Rightarrow> bool" where
  "later store t t' \<longleftrightarrow> m_tableInfo t' = m_tableInfo t \<and>
     (\<forall>l. case content t l of
        Some e \<Rightarrow> map_option core (content t' l) = Some (core e)
      | None \<Rightarrow> (\<forall>e'. content t' l = Some e' \<longrightarrow>
          (case l of NewLoc key i \<Rightarrow> m_deleted e' | DirtyLoc i \<Rightarrow> map_option core (store i) = Some (core e'))))"

lemma later_refl: "later store t t"
  by (auto simp: later_def split: option.splits)

lemma laterD:
  assumes "later store t t'"
  shows "m_tableInfo t' = m_tableInfo t" "content t l = Some e \<Longrightarrow> map_option core (content t' l) = Some (core e)"
    "content t (NewLoc key i) = None \<Longrightarrow> content t' (NewLoc key i) = Some e' \<Longrightarrow> m_deleted e'"
    "content t (DirtyLoc j) = None \<Longrightarrow> content t' (DirtyLoc j) = Some e' \<Longrightarrow> map_option core (store j) = Some (core e')"
proof -
  note all = assms [unfolded later_def, THEN conjunct2, THEN spec]
  show "m_tableInfo t' = m_tableInfo t" using assms by (simp add: later_def)
  show "content t l = Some e \<Longrightarrow> map_option core (content t' l) = Some (core e)" using all [of l] by simp
  show "content t (NewLoc key i) = None \<Longrightarrow> content t' (NewLoc key i) = Some e' \<Longrightarrow> m_deleted e'" using all [of "NewLoc key i"] by simp
  show "content t (DirtyLoc j) = None \<Longrightarrow> content t' (DirtyLoc j) = Some e' \<Longrightarrow> map_option core (store j) = Some (core e')"
    using all [of "DirtyLoc j"] by simp
qed

lemma core_deleted: "core e = core e' \<Longrightarrow> m_deleted e = m_deleted e'"
  by (simp add: core_def)

lemma later_trans:
  assumes "later store t t'" "later store t' t''"
  shows "later store t t''"
  unfolding later_def
proof (intro conjI allI)
  show "m_tableInfo t'' = m_tableInfo t" using laterD(1) [OF assms(1)] laterD(1) [OF assms(2)] by simp
  fix l
  show "case content t l of Some e \<Rightarrow> map_option core (content t'' l) = Some (core e)
    | None \<Rightarrow> (\<forall>e'. content t'' l = Some e' \<longrightarrow>
        (case l of NewLoc key i \<Rightarrow> m_deleted e' | DirtyLoc i \<Rightarrow> map_option core (store i) = Some (core e')))"
  proof (cases "content t l")
    case (Some e)
    then show ?thesis using laterD(2) [OF assms(1)] laterD(2) [OF assms(2)] by fastforce
  next
    case None
    have "case l of NewLoc key i \<Rightarrow> m_deleted e' | DirtyLoc i \<Rightarrow> map_option core (store i) = Some (core e')"
      if e': "content t'' l = Some e'" for e'
    proof (cases "content t' l")
      case (Some e)
      have c: "core e' = core e" using laterD(2) [OF assms(2) Some] e' by simp
      show ?thesis using c core_deleted [OF c] laterD(3,4) [OF assms(1)] None Some by (cases l) auto
    next
      case N: None
      then show ?thesis using laterD(3,4) [OF assms(2)] e' by (cases l) auto
    qed
    then show ?thesis using None by simp
  qed
qed

subsection \<open>Undoing changes\<close>

lemma core_setField: "core e = core e' \<Longrightarrow> core (setField k v e) = core (setField k v e')"
  by (simp add: core_def setField_def)

lemma core_setStatus: "core e = core e' \<Longrightarrow> core (setStatus s e) = core (setStatus s e')"
  by (simp add: core_def setStatus_def)

lemma core_fold:
  assumes "\<And>r e e'. core e = core e' \<Longrightarrow> core (u r e) = core (u r e')" "core e = core e'"
  shows "core (fold u rs e) = core (fold u rs e')"
  using assms(2)
proof (induction rs arbitrary: e e')
  case (Cons r rs)
  show ?case using Cons.IH [OF assms(1) [OF Cons.prems]] by simp
qed simp

text \<open>Undoing on a later table gives a later table, as long as the entries are those of the table.\<close>

lemma later_undo:
  assumes "later store t t'" and u: "\<And>r e e'. core e = core e' \<Longrightarrow> core (u r e) = core (u r e')"
    and "\<And>r. r \<in> set rs \<Longrightarrow> content t (ref_loc key (undo_ref r)) \<noteq> None"
  shows "later store (fold (\<lambda>r. undo_at key (undo_ref r) (u r)) rs t) (fold (\<lambda>r. undo_at key (undo_ref r) (u r)) rs t')"
proof -
  let ?f = "\<lambda>l. fold (\<lambda>r e. if l = ref_loc key (undo_ref r) then u r e else e) rs"
  have info: "m_tableInfo (fold (\<lambda>r. undo_at key (undo_ref r) (u r)) rs x) = m_tableInfo x" for x
    by (induction rs arbitrary: x) (simp_all add: undo_at_def split: Ref.split option.split)
  have "core (if b then u r e else e) = core (if b then u r e' else e')" if "core e = core e'" for b r e e'
    using u [OF that] that by simp
  then have c: "core (?f l e) = core (?f l e')" if "core e = core e'" for l e e' by (rule core_fold [OF _ that])
  have "map_option core (map_option (?f l) (content t' l)) = Some (core (?f l e))"
    if h: "map_option core (content t' l) = Some (core e)" for l e
  proof -
    obtain e' where "content t' l = Some e'" "core e' = core e" using h by auto
    then show ?thesis using c [of e' e l] by simp
  qed
  moreover have "?f l e = e" if "content t l = None" for l e
  proof -
    have "l \<noteq> ref_loc key (undo_ref r)" if "r \<in> set rs" for r using assms(3) [OF that] \<open>content t l = None\<close> by auto
    then show ?thesis by (induction rs) auto
  qed
  ultimately have "case map_option (?f l) (content t l) of Some e \<Rightarrow> map_option core (map_option (?f l) (content t' l)) = Some (core e)
      | None \<Rightarrow> (\<forall>e'. map_option (?f l) (content t' l) = Some e' \<longrightarrow>
          (case l of NewLoc key i \<Rightarrow> m_deleted e' | DirtyLoc i \<Rightarrow> map_option core (store i) = Some (core e')))" for l
    using laterD(2-4) [OF assms(1)] by (cases "content t l"; cases l) auto
  then show ?thesis using laterD(1) [OF assms(1)] unfolding later_def info content_undo_fold by blast
qed

text \<open>An operation through references: each entry is changed by \<open>h\<close>, which returns its records.\<close>

fun ref_loop :: "string \<Rightarrow> (Entry \<Rightarrow> ChangeRecord list \<times> Entry) \<Rightarrow> Ref list \<Rightarrow> MemoryTable2 \<Rightarrow> ChangeRecord list \<times> MemoryTable2" where
  "ref_loop key h [] t = ([], t)"
| "ref_loop key h (ref # refs) t =
     (case touch ref t of (ref, t) \<Rightarrow>
      case h (entry_at t key ref) of (rs, e) \<Rightarrow>
      case ref_loop key h refs (put key ref e t) of (rs', t) \<Rightarrow> (rs @ rs', t))"

lemma info_touch: "touch ref t = (ref', t') \<Longrightarrow> m_tableInfo t' = m_tableInfo t"
  by (auto simp: touch_def split: Ref.splits if_splits)

lemma update_loop_ref: "update_loop key entry refs t = ref_loop key (update_fields (ti_key (m_tableInfo t)) (m_fields entry)) refs t"
  by (induction refs arbitrary: t) (auto split: prod.splits dest!: info_touch)

lemma remove_loop_ref:
  "remove_loop key refs t =
   ref_loop key (\<lambda>e. ([\<lparr>cr_index = m_tempIndex e, cr_key = [], oldValue = [], cr_id = m_ID e\<rparr>], setStatus 1 e)) refs t"
  by (induction refs arbitrary: t) (auto simp: Let_def split: prod.splits)

definition valid_ref :: "(nat \<rightharpoonup> Entry) \<Rightarrow> MemoryTable2 \<Rightarrow> string \<Rightarrow> Ref \<Rightarrow> bool" where
  "valid_ref store t key ref =
     (case ref of
        NewRef i \<Rightarrow> (\<exists>e. content t (NewLoc key i) = Some e \<and> m_tempIndex e = i \<and> m_ID e = 0)
      | DirtyRef i \<Rightarrow> (\<exists>e. content t (DirtyLoc i) = Some e \<and> m_ID e = i \<and> i \<noteq> 0)
      | DbRef e \<Rightarrow> m_ID e \<noteq> 0 \<and> content t (DirtyLoc (m_ID e)) = None \<and> store (m_ID e) = Some e \<and> smap_ok (m_fields e))"

text \<open>What a step with a valid reference does: the entry is where the reference points to, and its records point there.\<close>

lemma touch_valid:
  assumes "valid_ref store t key ref" "touch ref t = (ref', t')"
  shows "entry_at t' key ref' = entry_at t key ref" "ref_loc key ref' = ref_loc key ref" "ref' \<noteq> DbRef x"
    "content t' = (content t)(ref_loc key ref \<mapsto> entry_at t key ref)"
    "cr_id r = m_ID (entry_at t key ref) \<Longrightarrow> cr_index r = m_tempIndex (entry_at t key ref) \<Longrightarrow> ref_loc key (undo_ref r) = ref_loc key ref"
proof -
  have 1: "entry_at t' key ref' = entry_at t key ref \<and> ref_loc key ref' = ref_loc key ref \<and> ref' \<noteq> DbRef x \<and>
      content t' = (content t)(ref_loc key ref \<mapsto> entry_at t key ref)"
  proof (cases ref)
    case (DbRef e)
    then have r: "ref' = DirtyRef (m_ID e)" "t' = t\<lparr>mt_dirty := um_set (m_ID e) e (mt_dirty t)\<rparr>"
      using assms by (auto simp: touch_def valid_ref_def content_def)
    have "content t' l = ((content t)(DirtyLoc (m_ID e) \<mapsto> e)) l" for l by (cases l) (auto simp: r content_def um_find_set_eq)
    then show ?thesis using DbRef r by (auto simp: entry_at_def um_find_set_eq)
  qed (use assms in \<open>auto simp: touch_def valid_ref_def content_def entry_at_def fun_upd_triv split: if_splits\<close>)
  then show "entry_at t' key ref' = entry_at t key ref" "ref_loc key ref' = ref_loc key ref" "ref' \<noteq> DbRef x"
    "content t' = (content t)(ref_loc key ref \<mapsto> entry_at t key ref)" by simp_all
  show "cr_id r = m_ID (entry_at t key ref) \<Longrightarrow> cr_index r = m_tempIndex (entry_at t key ref) \<Longrightarrow> ref_loc key (undo_ref r) = ref_loc key ref"
    using assms(1) by (cases ref) (auto simp: valid_ref_def content_def entry_at_def undo_ref_def split: if_splits)
qed

lemma fold_if_all: "\<forall>r \<in> set rs. P r \<Longrightarrow> fold (\<lambda>r e. if P r then u r e else e) rs e = fold u rs e"
  by (induction rs arbitrary: e) auto

lemma fold_if_none: "\<forall>r \<in> set rs. \<not> P r \<Longrightarrow> fold (\<lambda>r e. if P r then u r e else e) rs e = e"
  by (induction rs arbitrary: e) auto

lemma valid_ref_cong:
  assumes "content t' (ref_loc key ref) = content t (ref_loc key ref)"
  shows "valid_ref store t' key ref = valid_ref store t key ref" "valid_ref store t key ref \<Longrightarrow> entry_at t' key ref = entry_at t key ref"
  using assms by (cases ref; auto simp: valid_ref_def content_def entry_at_def split: if_splits)+

text \<open>The change of an entry can be undone from its records.\<close>

definition undoable :: "(Entry \<Rightarrow> ChangeRecord list \<times> Entry) \<Rightarrow> (ChangeRecord \<Rightarrow> Entry \<Rightarrow> Entry) \<Rightarrow> Entry \<Rightarrow> bool" where
  "undoable h u e \<longleftrightarrow> (\<forall>rs e'. h e = (rs, e') \<longrightarrow>
     (\<forall>r \<in> set rs. cr_id r = m_ID e \<and> cr_index r = m_tempIndex e) \<and> core (fold u rs e') = core e)"

lemma ref_loop_undo:
  assumes "list_all (valid_ref store t key) refs" "distinct (map (ref_loc key) refs)"
    "\<And>ref. ref \<in> set refs \<Longrightarrow> undoable h u (entry_at t key ref)" "ref_loop key h refs t = (rs, t')"
  shows "m_tableInfo t' = m_tableInfo t \<and> (\<forall>r \<in> set rs. ref_loc key (undo_ref r) \<in> ref_loc key ` set refs) \<and>
    (\<forall>l. l \<notin> ref_loc key ` set refs \<longrightarrow> content t' l = content t l) \<and>
    (\<forall>ref \<in> set refs. \<exists>e'. content t' (ref_loc key ref) = Some e' \<and> e' = snd (h (entry_at t key ref)) \<and>
       core (fold (\<lambda>r e. if ref_loc key ref = ref_loc key (undo_ref r) then u r e else e) rs e') = core (entry_at t key ref))"
  using assms
proof (induction refs arbitrary: t rs)
  case (Cons ref refs)
  obtain ref1 t1 where touch: "touch ref t = (ref1, t1)" by fastforce
  obtain rs1 e1 where h: "h (entry_at t key ref) = (rs1, e1)" by fastforce
  let ?L = "ref_loc key ref" and ?t2 = "put key ref1 e1 t1"
  have v: "valid_ref store t key ref" using Cons.prems(1) by simp
  note tv = touch_valid [OF v touch]
  have c2: "content ?t2 = (content t)(?L \<mapsto> e1)" using content_put [of t1 key ref1 e1] tv(2-4) by simp
  obtain rs2 where loop: "ref_loop key h refs ?t2 = (rs2, t')" "rs = rs1 @ rs2"
    using Cons.prems(4) by (auto simp: touch tv(1) h split: prod.splits)
  have L: "?L \<notin> ref_loc key ` set refs" using Cons.prems(2) by simp
  have ne: "ref_loc key r \<noteq> ?L" if "r \<in> set refs" for r
    by (rule notI) (use L imageI [OF that, of "ref_loc key"] in simp)
  have same: "content ?t2 (ref_loc key r) = content t (ref_loc key r)" if "r \<in> set refs" for r using ne [OF that] by (simp add: c2)
  have "list_all (valid_ref store ?t2 key) refs"
    using Cons.prems(1) valid_ref_cong(1) [OF same] by (auto simp: list_all_iff)
  moreover have at: "entry_at ?t2 key r = entry_at t key r" if "r \<in> set refs" for r
    using Cons.prems(1) valid_ref_cong(2) [OF same [OF that]] that by (auto simp: list_all_iff)
  moreover have "undoable h u (entry_at ?t2 key r)" if "r \<in> set refs" for r using Cons.prems(3) [of r] at [OF that] that by simp
  ultimately have IH: "m_tableInfo t' = m_tableInfo ?t2" "\<forall>r \<in> set rs2. ref_loc key (undo_ref r) \<in> ref_loc key ` set refs"
    "\<forall>l. l \<notin> ref_loc key ` set refs \<longrightarrow> content t' l = content ?t2 l"
    "\<forall>ref \<in> set refs. \<exists>e'. content t' (ref_loc key ref) = Some e' \<and> e' = snd (h (entry_at t key ref)) \<and>
       core (fold (\<lambda>r e. if ref_loc key ref = ref_loc key (undo_ref r) then u r e else e) rs2 e') = core (entry_at t key ref)"
    using Cons.IH [OF _ _ _ loop(1)] Cons.prems(2) by auto
  have "undoable h u (entry_at t key ref)" using Cons.prems(3) by simp
  then have rs1: "\<forall>r \<in> set rs1. ref_loc key (undo_ref r) = ?L" "core (fold u rs1 e1) = core (entry_at t key ref)"
    using h tv(5) by (auto simp: undoable_def)
  have none: "\<forall>r \<in> set rs2. ?L \<noteq> ref_loc key (undo_ref r)" using IH(2) L by auto
  have "content t' ?L = Some e1" using IH(3) L c2 by simp
  moreover have "core (fold (\<lambda>r e. if ?L = ref_loc key (undo_ref r) then u r e else e) rs e1) = core (entry_at t key ref)"
    using rs1 fold_if_none [OF none, of u] fold_if_all [of rs1 "\<lambda>r. ?L = ref_loc key (undo_ref r)" u] by (simp add: loop(2))
  moreover have "fold (\<lambda>r e. if ref_loc key r' = ref_loc key (undo_ref r) then u r e else e) rs e =
      fold (\<lambda>r e. if ref_loc key r' = ref_loc key (undo_ref r) then u r e else e) rs2 e" if "r' \<in> set refs" for r' e
    using fold_if_none [of rs1 "\<lambda>r. ref_loc key r' = ref_loc key (undo_ref r)" u] rs1(1) ne [OF that] by (simp add: loop(2))
  ultimately show ?case using IH rs1(1) c2 info_touch [OF touch] h by (auto simp: loop(2))
qed simp

lemma loop_later:
  assumes valid: "list_all (valid_ref store t key) refs" and d: "distinct (map (ref_loc key) refs)"
    and u: "\<And>ref. ref \<in> set refs \<Longrightarrow> undoable h u (entry_at t key ref)" and loop: "ref_loop key h refs t = (rs, t')"
  shows "later store t (fold (\<lambda>r. undo_at key (undo_ref r) (u r)) rs t')"
    "\<And>r. r \<in> set rs \<Longrightarrow> content t' (ref_loc key (undo_ref r)) \<noteq> None"
proof -
  let ?f = "\<lambda>l. fold (\<lambda>r e. if l = ref_loc key (undo_ref r) then u r e else e) rs"
  note L = ref_loop_undo [OF valid d u loop, THEN conjunct2]
  have info: "m_tableInfo (fold (\<lambda>r. undo_at key (undo_ref r) (u r)) rs x) = m_tableInfo x" for x
    by (induction rs arbitrary: x) (simp_all add: undo_at_def split: Ref.split option.split)
  have "case content t l of Some e \<Rightarrow> map_option core (map_option (?f l) (content t' l)) = Some (core e)
      | None \<Rightarrow> (\<forall>e'. map_option (?f l) (content t' l) = Some e' \<longrightarrow>
          (case l of NewLoc key i \<Rightarrow> m_deleted e' | DirtyLoc i \<Rightarrow> map_option core (store i) = Some (core e')))" for l
  proof (cases "l \<in> ref_loc key ` set refs")
    case True
    then obtain ref where ref: "ref \<in> set refs" "l = ref_loc key ref" by blast
    have v: "valid_ref store t key ref" using valid ref(1) by (simp add: list_all_iff)
    obtain e' where e': "content t' l = Some e'" "core (?f l e') = core (entry_at t key ref)" using L ref by blast
    show ?thesis
    proof (cases ref)
      case (DbRef e)
      then show ?thesis using e' v ref(2) by (simp add: valid_ref_def entry_at_def)
    qed (use e' v ref(2) in \<open>auto simp: valid_ref_def entry_at_loc\<close>)
  next
    case False
    then have "?f l e = e" for e using L by (intro fold_if_none) auto
    moreover have "content t' l = content t l" using L False by blast
    ultimately show ?thesis by (simp split: option.split)
  qed
  then show "later store t (fold (\<lambda>r. undo_at key (undo_ref r) (u r)) rs t')"
    using ref_loop_undo [OF valid d u loop, THEN conjunct1] unfolding later_def info content_undo_fold by blast
  show "\<And>r. r \<in> set rs \<Longrightarrow> content t' (ref_loc key (undo_ref r)) \<noteq> None" using L by fastforce
qed

subsection \<open>Changes of fields\<close>

lemma update_fields_records:
  assumes "distinct (map fst fs)" "update_fields tk fs e = (rs, e')" "smap_ok (m_fields e)"
  shows "\<forall>r \<in> set rs. cr_id r = m_ID e \<and> cr_index r = m_tempIndex e \<and> oldValue r = getField e (cr_key r)"
    "set (map cr_key rs) = {f \<in> fst ` set fs. f \<noteq> ID_FIELD \<and> f \<noteq> tk}" "smap_ok (m_fields e')"
    "\<forall>k. k \<notin> set (map cr_key rs) \<longrightarrow> map_of (m_fields e') k = map_of (m_fields e) k"
    "core e' = (m_ID e, m_status e, m_num e, m_force e, m_deleted e, m_fields e')"
proof -
  have "(\<forall>r \<in> set rs. cr_id r = m_ID e \<and> cr_index r = m_tempIndex e \<and> oldValue r = getField e (cr_key r)) \<and>
    set (map cr_key rs) = {f \<in> fst ` set fs. f \<noteq> ID_FIELD \<and> f \<noteq> tk} \<and> smap_ok (m_fields e') \<and>
    (\<forall>k. k \<notin> set (map cr_key rs) \<longrightarrow> map_of (m_fields e') k = map_of (m_fields e) k) \<and>
    core e' = (m_ID e, m_status e, m_num e, m_force e, m_deleted e, m_fields e')"
    using assms
  proof (induction fs arbitrary: e rs)
    case (Cons p fs)
    obtain f v where p: "p = (f, v)" by (cases p)
    show ?case
    proof (cases "f \<noteq> ID_FIELD \<and> f \<noteq> tk")
      case True
      obtain rs1 where rs1: "update_fields tk fs (setField f v e) = (rs1, e')"
        "rs = \<lparr>cr_index = m_tempIndex e, cr_key = f, oldValue = getField e f, cr_id = m_ID e\<rparr> # rs1"
        using Cons.prems(2) True by (auto simp: p split: prod.splits)
      have "smap_ok (m_fields (setField f v e))" using Cons.prems(3) by simp
      from Cons.IH [OF _ rs1(1) this] Cons.prems(1) have IH:
        "\<forall>r \<in> set rs1. cr_id r = m_ID e \<and> cr_index r = m_tempIndex e \<and> oldValue r = getField (setField f v e) (cr_key r)"
        "set (map cr_key rs1) = {f \<in> fst ` set fs. f \<noteq> ID_FIELD \<and> f \<noteq> tk}" "smap_ok (m_fields e')"
        "\<forall>k. k \<notin> set (map cr_key rs1) \<longrightarrow> map_of (m_fields e') k = map_of (m_fields (setField f v e)) k"
        "core e' = (m_ID e, m_status e, m_num e, m_force e, m_deleted e, m_fields e')"
        by simp_all
      have "f \<notin> set (map cr_key rs1)" using IH(2) Cons.prems(1) by (auto simp: p)
      then have old: "oldValue r = getField e (cr_key r)" if "r \<in> set rs1" for r
        using that IH(1) Cons.prems(3) by (auto simp: getField_setField)
      have "map_of (m_fields e') k = map_of (m_fields e) k" if "k \<notin> set (map cr_key rs)" for k
        using that IH(4) Cons.prems(3) by (simp add: rs1(2))
      moreover have "set (map cr_key rs) = {f \<in> fst ` set (p # fs). f \<noteq> ID_FIELD \<and> f \<noteq> tk}" using IH(2) True by (auto simp: rs1(2) p)
      moreover have "\<forall>r \<in> set rs. cr_id r = m_ID e \<and> cr_index r = m_tempIndex e \<and> oldValue r = getField e (cr_key r)"
        using IH(1) old by (simp add: rs1(2))
      ultimately show ?thesis using IH(3,5) by blast
    next
      case False
      have eq: "{x \<in> fst ` set (p # fs). x \<noteq> ID_FIELD \<and> x \<noteq> tk} = {x \<in> fst ` set fs. x \<noteq> ID_FIELD \<and> x \<noteq> tk}"
        using False by (auto simp: p)
      have "update_fields tk fs e = (rs, e')" "distinct (map fst fs)" using Cons.prems False by (auto simp: p)
      then show ?thesis unfolding eq using Cons.IH [of e rs] Cons.prems(3) by blast
    qed
  qed (simp add: core_def)
  then show "\<forall>r \<in> set rs. cr_id r = m_ID e \<and> cr_index r = m_tempIndex e \<and> oldValue r = getField e (cr_key r)"
    "set (map cr_key rs) = {f \<in> fst ` set fs. f \<noteq> ID_FIELD \<and> f \<noteq> tk}" "smap_ok (m_fields e')"
    "\<forall>k. k \<notin> set (map cr_key rs) \<longrightarrow> map_of (m_fields e') k = map_of (m_fields e) k"
    "core e' = (m_ID e, m_status e, m_num e, m_force e, m_deleted e, m_fields e')" by simp_all
qed

lemma undo_fields:
  assumes "\<forall>r \<in> set rs. oldValue r = getField e (cr_key r)" "smap_ok (m_fields x)"
  defines "y \<equiv> fold (\<lambda>r. setField (cr_key r) (oldValue r)) rs x"
  shows "smap_ok (m_fields y)" "map_of (m_fields y) k = (if k \<in> set (map cr_key rs) then Some (getField e k) else map_of (m_fields x) k)"
    "core y = (m_ID x, m_status x, m_num x, m_force x, m_deleted x, m_fields y)"
proof -
  have "smap_ok (m_fields y) \<and> (map_of (m_fields y) k = (if k \<in> set (map cr_key rs) then Some (getField e k) else map_of (m_fields x) k)) \<and>
    core y = (m_ID x, m_status x, m_num x, m_force x, m_deleted x, m_fields y)"
    using assms(1,2) unfolding y_def
  proof (induction rs arbitrary: x)
    case (Cons r rs)
    have ok: "smap_ok (m_fields (setField (cr_key r) (oldValue r) x))" using Cons.prems(2) by simp
    show ?case using Cons.IH [OF _ ok] Cons.prems by auto
  qed (simp add: core_def)
  then show "smap_ok (m_fields y)" "map_of (m_fields y) k = (if k \<in> set (map cr_key rs) then Some (getField e k) else map_of (m_fields x) k)"
    "core y = (m_ID x, m_status x, m_num x, m_force x, m_deleted x, m_fields y)" by simp_all
qed

text \<open>Writing back the old values restores an entry that had all the fields.\<close>

lemma update_undoable:
  assumes "smap_ok fs" "smap_ok (m_fields e)" "\<forall>(f, v) \<in> set fs. f \<noteq> ID_FIELD \<longrightarrow> f \<noteq> tk \<longrightarrow> map_of (m_fields e) f \<noteq> None"
  shows "undoable (update_fields tk fs) (\<lambda>r. setField (cr_key r) (oldValue r)) e"
  unfolding undoable_def
proof (intro allI impI)
  fix rs e' assume "update_fields tk fs e = (rs, e')"
  note r = update_fields_records [OF smap_distinct [OF assms(1)] this assms(2)]
  let ?y = "fold (\<lambda>r. setField (cr_key r) (oldValue r)) rs e'"
  have old: "\<forall>r \<in> set rs. oldValue r = getField e (cr_key r)" using r(1) by blast
  note y = undo_fields [OF old r(3)]
  have "map_of (m_fields ?y) k = map_of (m_fields e) k" for k
  proof (cases "k \<in> set (map cr_key rs)")
    case True
    then have "map_of (m_fields e) k \<noteq> None" using assms(3) unfolding r(2) by auto
    then show ?thesis using True y(2) [of k] by (auto simp: getField_def)
  next
    case False
    then show ?thesis using y(2) [of k] r(4) by simp
  qed
  then have "m_fields ?y = m_fields e" by (intro smap_unique [OF y(1) assms(2)] HOL.ext)
  then have "core ?y = core e" using y(3) r(5) by (simp add: core_def)
  then show "(\<forall>r \<in> set rs. cr_id r = m_ID e \<and> cr_index r = m_tempIndex e) \<and> core ?y = core e" using r(1) by blast
qed

lemma remove_undoable:
  "m_status e = 0 \<Longrightarrow>
   undoable (\<lambda>e. ([\<lparr>cr_index = m_tempIndex e, cr_key = [], oldValue = [], cr_id = m_ID e\<rparr>], setStatus 1 e)) (\<lambda>r. setStatus 0) e"
  by (simp add: undoable_def core_def setStatus_def)

section \<open>Operations\<close>

text \<open>What the storage has to return: entries with different IDs, which are the entries \<open>store\<close> has under their IDs.\<close>

definition remote_ok :: "(TableInfo \<Rightarrow> string \<Rightarrow> Condition \<Rightarrow> Entry list option) \<Rightarrow> TableInfo \<Rightarrow> (nat \<rightharpoonup> Entry) \<Rightarrow> bool" where
  "remote_ok remote info store \<longleftrightarrow> (\<forall>key c db. remote info key c = Some db \<longrightarrow>
     distinct (map m_ID db) \<and> (\<forall>e \<in> set db. store (m_ID e) = Some e \<and> m_ID e \<noteq> 0 \<and> smap_ok (m_fields e)))"

definition tbl_ok :: "MemoryTable2 \<Rightarrow> bool" where
  "tbl_ok t \<longleftrightarrow> (\<forall>key i e. content t (NewLoc key i) = Some e \<longrightarrow> m_ID e = 0 \<and> smap_ok (m_fields e)) \<and>
     (\<forall>i e. content t (DirtyLoc i) = Some e \<longrightarrow> m_ID e = i \<and> i \<noteq> 0 \<and> smap_ok (m_fields e))"

lemma setTempIndex_simps [simp]:
  "m_ID (setTempIndex i e) = m_ID e" "m_fields (setTempIndex i e) = m_fields e" "m_tempIndex (setTempIndex i e) = i"
  "core (setTempIndex i e) = core e" "setTempIndex i (setTempIndex j e) = setTempIndex i e"
  by (simp_all add: setTempIndex_def core_def)

lemma content_set_temp:
  assumes "i < length (new_entries t key)"
  shows "content (set_temp key i t) = (content t)(NewLoc key i \<mapsto> setTempIndex i (new_entries t key ! i))"
  using content_put [of t key "NewRef i"] assms by (simp add: set_temp_def entry_at_def content_def)

lemma new_entries_length: "length (new_entries t key) = length (new_entries t' key)"
  if "\<And>i. (content t (NewLoc key i) = None) = (content t' (NewLoc key i) = None)"
  using that [of "length (new_entries t key)"] that [of "length (new_entries t' key)"]
  by (auto simp: content_def split: if_splits)

lemma fold_set_temp:
  assumes "set is \<subseteq> {..<length (new_entries t key)}"
  shows "content (fold (set_temp key) is t) l =
    (if \<exists>i \<in> set is. l = NewLoc key i then map_option (setTempIndex (case l of NewLoc _ i \<Rightarrow> i)) (content t l) else content t l)"
  using assms
proof (induction "is" arbitrary: t)
  case (Cons i "is")
  then have i: "i < length (new_entries t key)" by simp
  have "length (new_entries (set_temp key i t) key) = length (new_entries t key)"
    by (rule new_entries_length) (use i in \<open>auto simp: content_set_temp content_def\<close>)
  then have "content (fold (set_temp key) is (set_temp key i t)) l =
    (if \<exists>i \<in> set is. l = NewLoc key i then map_option (setTempIndex (case l of NewLoc _ i \<Rightarrow> i)) (content (set_temp key i t) l)
     else content (set_temp key i t) l)" using Cons by simp
  then show ?case using i by (auto simp: content_set_temp content_def)
qed simp

lemma limit_take:
  assumes "0 \<le> getOffset c"
  shows "\<exists>m n. proccessLimit c es = take n (drop m es)"
proof (cases "getOffset c \<ge> int (length es)")
  case True
  then have "proccessLimit c es = take 0 (drop 0 es)" by (simp add: proccessLimit_def)
  then show ?thesis by blast
next
  case False
  define m where "m = nat (getOffset c)"
  define k where "k = nat (if signed_take_bit 31 (getOffset c + getCount c) > int (length es) then int (length es)
    else signed_take_bit 31 (getOffset c + getCount c))"
  have "proccessLimit c es = map (\<lambda>i. es ! i) [m..<k]" using False by (simp add: proccessLimit_def Let_def m_def k_def)
  moreover have "k \<le> length es" "m \<le> length es" using False by (auto simp: k_def m_def)
  ultimately have "proccessLimit c es = take (k - m) (drop m es)" by (auto intro!: nth_equalityI)
  then show ?thesis by blast
qed

lemma limit_map: "0 \<le> getOffset c \<Longrightarrow> proccessLimit c (map f es) = map f (proccessLimit c es)"
  by (auto simp: proccessLimit_def Let_def)

lemma processEntries_range: "set (processEntries lc es c) \<subseteq> {..<length es}" "distinct (processEntries lc es c)"
  by (auto simp: processEntries_def)

definition raw_refs :: "MemoryTable2 \<Rightarrow> Entry list \<Rightarrow> nat list \<Rightarrow> Ref list" where
  "raw_refs t db is = map (\<lambda>e. if um_find (mt_dirty t) (m_ID e) \<noteq> None then DirtyRef (m_ID e) else DbRef e) db @ map NewRef is"

lemma raw_refs_distinct: "distinct (map m_ID db) \<Longrightarrow> distinct is \<Longrightarrow> distinct (map (ref_loc key) (raw_refs t db is))"
proof -
  assume d: "distinct (map m_ID db)" "distinct is"
  have "map (ref_loc key) (raw_refs t db is) = map (DirtyLoc \<circ> m_ID) db @ map (NewLoc key) is" by (simp add: raw_refs_def)
  moreover have "distinct (map (DirtyLoc \<circ> m_ID) db)" using d(1) by (simp add: distinct_map inj_on_def)
  ultimately show ?thesis using d(2) by (auto simp: distinct_map inj_on_def)
qed

lemma select_refs:
  assumes ok: "tbl_ok t" "remote_ok remote (m_tableInfo t) store" and sel: "selectNoLock lc remote key c t = (refs, t')"
  shows "list_all (valid_ref store t' key) refs" "distinct (map (ref_loc key) refs)" "m_tableInfo t' = m_tableInfo t"
    "map_option core (content t' l) = map_option core (content t l)" "tbl_ok t'"
proof -
  let ?c = "cond_EQ (ti_key (m_tableInfo t)) key c" and ?is = "processEntries lc (new_entries t key) (cond_EQ (ti_key (m_tableInfo t)) key c)"
  have info: "m_tableInfo (fold (set_temp key) is x) = m_tableInfo x" for "is" x
    by (induction "is" arbitrary: x) (simp_all add: set_temp_def)
  have "list_all (valid_ref store t' key) refs \<and> distinct (map (ref_loc key) refs) \<and> m_tableInfo t' = m_tableInfo t \<and>
    (\<forall>l. map_option core (content t' l) = map_option core (content t l)) \<and> tbl_ok t'"
  proof (cases "remote (m_tableInfo t) key ?c")
    case None
    then show ?thesis using sel ok(1) by (auto simp: selectNoLock_def Let_def)
  next
    case (Some db)
    have t': "t' = fold (set_temp key) ?is t" using sel Some by (auto simp: selectNoLock_def Let_def)
    have refs: "refs = (if getOffset ?c \<ge> 0 \<and> getCount ?c \<ge> 0 then proccessLimit ?c (raw_refs t db ?is) else raw_refs t db ?is)"
      using sel Some by (auto simp: selectNoLock_def Let_def raw_refs_def)
    have sub: "\<exists>m n. refs = take n (drop m (raw_refs t db ?is))"
    proof (cases "getOffset ?c \<ge> 0 \<and> getCount ?c \<ge> 0")
      case True
      then show ?thesis using limit_take [of ?c "raw_refs t db ?is"] refs by simp
    next
      case False
      then have "refs = take (length (raw_refs t db ?is)) (drop 0 (raw_refs t db ?is))" unfolding refs by auto
      then show ?thesis by blast
    qed
    note cont = fold_set_temp [OF processEntries_range(1) [of lc "new_entries t key" ?c], folded t']
    have db: "distinct (map m_ID db)" "\<forall>e \<in> set db. store (m_ID e) = Some e \<and> m_ID e \<noteq> 0 \<and> smap_ok (m_fields e)"
      using ok(2) Some by (auto simp: remote_ok_def)
    have contD: "content t' (DirtyLoc i) = um_find (mt_dirty t) i" for i using cont [of "DirtyLoc i"] by (simp add: content_def)
    have contN: "content t' (NewLoc key i) = Some (setTempIndex i (new_entries t key ! i))" if "i \<in> set ?is" for i
    proof -
      have "content t (NewLoc key i) = Some (new_entries t key ! i)"
        using that processEntries_range(1) [of lc "new_entries t key" ?c] by (auto simp: content_def)
      then show ?thesis using cont [of "NewLoc key i"] that by simp
    qed
    have old: "valid_ref store t' key (if um_find (mt_dirty t) (m_ID e) \<noteq> None then DirtyRef (m_ID e) else DbRef e)" if "e \<in> set db" for e
    proof (cases "um_find (mt_dirty t) (m_ID e)")
      case None
      then show ?thesis using db(2) that by (simp add: valid_ref_def contD)
    next
      case (Some x)
      then have "content t (DirtyLoc (m_ID e)) = Some x" by (simp add: content_def)
      then have "m_ID x = m_ID e" "m_ID e \<noteq> 0" using ok(1) unfolding tbl_ok_def by blast+
      then show ?thesis using Some by (simp add: valid_ref_def contD)
    qed
    have new: "valid_ref store t' key (NewRef i)" if "i \<in> set ?is" for i
    proof -
      have "content t (NewLoc key i) = Some (new_entries t key ! i)"
        using that processEntries_range(1) [of lc "new_entries t key" ?c] by (auto simp: content_def)
      then have "m_ID (new_entries t key ! i) = 0" using ok(1) by (simp add: tbl_ok_def)
      then show ?thesis using contN [OF that] by (simp add: valid_ref_def)
    qed
    have "valid_ref store t' key ref" if "ref \<in> set (raw_refs t db ?is)" for ref
    proof -
      have "(\<exists>e \<in> set db. ref = (if um_find (mt_dirty t) (m_ID e) \<noteq> None then DirtyRef (m_ID e) else DbRef e)) \<or> (\<exists>i \<in> set ?is. ref = NewRef i)"
        using that unfolding raw_refs_def by auto
      then show ?thesis using old new by blast
    qed
    then have "list_all (valid_ref store t' key) refs"
      using sub by (auto simp: list_all_iff dest!: in_set_takeD in_set_dropD)
    moreover have "distinct (map (ref_loc key) refs)"
      using sub raw_refs_distinct [OF db(1) processEntries_range(2)] by (auto simp flip: take_map drop_map)
    moreover have "map_option core (content t' l) = map_option core (content t l)" for l
      by (simp add: cont option.map_comp comp_def)
    moreover have "tbl_ok t'" using ok(1) by (auto simp: tbl_ok_def cont split: if_splits)
    ultimately show ?thesis using info t' by blast
  qed
  then show "list_all (valid_ref store t' key) refs" "distinct (map (ref_loc key) refs)" "m_tableInfo t' = m_tableInfo t"
    "map_option core (content t' l) = map_option core (content t l)" "tbl_ok t'" by blast+
qed

datatype Op = OpInsert string Entry AccessOptions | OpUpdate string Entry Condition AccessOptions | OpRemove string Condition AccessOptions

fun exec_op :: "(string \<Rightarrow> int option) \<Rightarrow> (TableInfo \<Rightarrow> string \<Rightarrow> Condition \<Rightarrow> Entry list option) \<Rightarrow> Op \<Rightarrow> MemoryTable2 \<Rightarrow>
    int \<times> Change option \<times> MemoryTable2" where
  "exec_op lc remote (OpInsert key e opts) t = mt_insert key e opts t"
| "exec_op lc remote (OpUpdate key e c opts) t = mt_update lc remote key e c opts t"
| "exec_op lc remote (OpRemove key c opts) t = mt_remove lc remote key c opts t"

text \<open>What an operation has to meet so that it can be undone: an entry that is inserted has no ID, fields are only updated
where they exist, and an entry is not removed twice.\<close>

fun op_safe :: "(string \<Rightarrow> int option) \<Rightarrow> (TableInfo \<Rightarrow> string \<Rightarrow> Condition \<Rightarrow> Entry list option) \<Rightarrow> Op \<Rightarrow> MemoryTable2 \<Rightarrow> bool" where
  "op_safe lc remote (OpInsert key e opts) t \<longleftrightarrow> m_ID e = 0 \<and> smap_ok (m_fields e)"
| "op_safe lc remote (OpUpdate key e c opts) t \<longleftrightarrow> smap_ok (m_fields e) \<and>
     list_all (\<lambda>x. list_all (\<lambda>(f, v). f = ID_FIELD \<or> f = ti_key (m_tableInfo t) \<or> map_of (m_fields x) f \<noteq> None) (m_fields e))
       (fst (mt_select lc remote key c t))"
| "op_safe lc remote (OpRemove key c opts) t \<longleftrightarrow> list_all (\<lambda>x. m_status x = NORMAL) (fst (mt_select lc remote key c t))"

definition valid_change :: "MemoryTable2 \<Rightarrow> Change \<Rightarrow> bool" where
  "valid_change t ch \<longleftrightarrow> (ch_kind ch = Insert \<longrightarrow> (\<exists>r. ch_value ch = [r] \<and> cr_id r = 0)) \<and>
     (\<forall>r \<in> set (ch_value ch). content t (ref_loc (ch_key ch) (undo_ref r)) \<noteq> None)"

fun undo_of :: "Kind \<Rightarrow> ChangeRecord \<Rightarrow> Entry \<Rightarrow> Entry" where
  "undo_of Insert r = setDeleted True"
| "undo_of Update r = setField (cr_key r) (oldValue r)"
| "undo_of Remove r = setStatus 0"
| "undo_of Select r = id"

lemma table_rollback_fold:
  assumes "valid_change t ch" "ch_kind ch \<noteq> Select"
  shows "table_rollback ch t' = fold (\<lambda>r. undo_at (ch_key ch) (undo_ref r) (undo_of (ch_kind ch) r)) (ch_value ch) t'"
  using assms by (cases "ch_kind ch") (auto simp: table_rollback_def valid_change_def undo_ref_def)

lemma rollback_later:
  assumes "later store t t'" "valid_change t ch"
  shows "later store (table_rollback ch t) (table_rollback ch t')"
proof (cases "ch_kind ch = Select")
  case True
  then show ?thesis using assms(1) by (simp add: table_rollback_def)
next
  case False
  have "core (undo_of k r e) = core (undo_of k r e')" if "core e = core e'" for k r e e'
    using that by (cases k) (simp_all add: core_def setField_def setStatus_def setDeleted_def)
  note cong = this
  show ?thesis
    unfolding table_rollback_fold [OF assms(2) False]
  proof (rule later_undo [OF assms(1)])
    show "core (undo_of (ch_kind ch) r e) = core (undo_of (ch_kind ch) r e')" if "core e = core e'" for r e e' by (rule cong [OF that])
    show "content t (ref_loc (ch_key ch) (undo_ref r)) \<noteq> None" if "r \<in> set (ch_value ch)" for r
      using assms(2) that unfolding valid_change_def by blast
  qed
qed

lemma later_same:
  assumes "m_tableInfo t' = m_tableInfo t" "\<And>l. map_option core (content t' l) = map_option core (content t l)"
  shows "later store t t'"
  unfolding later_def
proof (intro conjI allI)
  fix l
  show "case content t l of Some e \<Rightarrow> map_option core (content t' l) = Some (core e)
    | None \<Rightarrow> (\<forall>e'. content t' l = Some e' \<longrightarrow>
        (case l of NewLoc key i \<Rightarrow> m_deleted e' | DirtyLoc i \<Rightarrow> map_option core (store i) = Some (core e')))"
    using assms(2) [of l] by (cases "content t l") auto
qed (rule assms(1))

lemma valid_entry:
  assumes v: "valid_ref store t key ref" and ok: "tbl_ok t"
  shows "m_ID (entry_at t key ref) = (case ref_loc key ref of NewLoc k i \<Rightarrow> 0 | DirtyLoc i \<Rightarrow> i) \<and> smap_ok (m_fields (entry_at t key ref)) \<and>
    (\<forall>i. ref_loc key ref = DirtyLoc i \<longrightarrow> i \<noteq> 0)"
proof (cases ref)
  case (DbRef e)
  then show ?thesis using v by (auto simp: valid_ref_def entry_at_def)
next
  case (NewRef i)
  then obtain e where e: "content t (NewLoc key i) = Some e" using v by (auto simp: valid_ref_def)
  then have "m_ID e = 0 \<and> smap_ok (m_fields e)" using ok unfolding tbl_ok_def by blast
  then show ?thesis using NewRef entry_at_loc(1) [OF e] by simp
next
  case (DirtyRef i)
  then obtain e where e: "content t (DirtyLoc i) = Some e" using v by (auto simp: valid_ref_def)
  then have "m_ID e = i \<and> i \<noteq> 0 \<and> smap_ok (m_fields e)" using ok unfolding tbl_ok_def by blast
  then show ?thesis using DirtyRef entry_at_loc(2) [OF e] by simp
qed

text \<open>An operation through the references of a selection.\<close>

lemma loop_op:
  assumes ok: "tbl_ok t" "remote_ok remote (m_tableInfo t) store" and sel: "selectNoLock lc remote key c t = (refs, t1)"
    and loop: "ref_loop key h refs t1 = (rs, t2)"
    and u: "\<And>ref. ref \<in> set refs \<Longrightarrow> undoable h u (entry_at t1 key ref)"
    and h: "\<And>e. smap_ok (m_fields e) \<Longrightarrow> m_ID (snd (h e)) = m_ID e \<and> smap_ok (m_fields (snd (h e)))"
  shows "later store t (fold (\<lambda>r. undo_at key (undo_ref r) (u r)) rs t2)"
    "\<And>r. r \<in> set rs \<Longrightarrow> content t2 (ref_loc key (undo_ref r)) \<noteq> None" "tbl_ok t2" "m_tableInfo t2 = m_tableInfo t"
proof -
  note s = select_refs [OF ok sel]
  note l = loop_later [OF s(1,2) u loop] and r = ref_loop_undo [OF s(1,2) u loop]
  have "later store t t1" by (rule later_same [OF s(3,4)])
  then show "later store t (fold (\<lambda>r. undo_at key (undo_ref r) (u r)) rs t2)" by (rule later_trans [OF _ l(1)])
  show "\<And>r. r \<in> set rs \<Longrightarrow> content t2 (ref_loc key (undo_ref r)) \<noteq> None" by (rule l(2))
  show "m_tableInfo t2 = m_tableInfo t" using r s(3) by simp
  have at: "m_ID (entry_at t1 key ref) = (case ref_loc key ref of NewLoc k i \<Rightarrow> 0 | DirtyLoc i \<Rightarrow> i) \<and> smap_ok (m_fields (entry_at t1 key ref)) \<and>
      (\<forall>i. ref_loc key ref = DirtyLoc i \<longrightarrow> i \<noteq> 0)" if "ref \<in> set refs" for ref
    by (rule valid_entry [where store = store, OF _ s(5)]) (use s(1) that in \<open>simp add: list_all_iff\<close>)
  have "content t2 l = Some e \<Longrightarrow> m_ID e = (case l of NewLoc k i \<Rightarrow> 0 | DirtyLoc i \<Rightarrow> i) \<and> smap_ok (m_fields e) \<and> (\<forall>i. l = DirtyLoc i \<longrightarrow> i \<noteq> 0)" for l e
  proof (cases "l \<in> ref_loc key ` set refs")
    case True
    assume e: "content t2 l = Some e"
    obtain ref where ref: "ref \<in> set refs" "l = ref_loc key ref" using True by blast
    then have "content t2 l = Some (snd (h (entry_at t1 key ref)))" using r by blast
    then have "e = snd (h (entry_at t1 key ref))" using e by simp
    then show ?thesis using at [OF ref(1)] h [of "entry_at t1 key ref"] ref(2) by simp
  next
    case False
    assume "content t2 l = Some e"
    moreover have "content t2 l = content t1 l" using r False by blast
    ultimately have "content t1 l = Some e" by simp
    then show ?thesis using s(5) by (cases l) (auto simp: tbl_ok_def)
  qed
  then show "tbl_ok t2" unfolding tbl_ok_def by fastforce
qed

lemma info_undo_fold: "m_tableInfo (fold (\<lambda>r. undo_at key (undo_ref r) (u r)) rs t) = m_tableInfo t"
  by (induction rs arbitrary: t) (simp_all add: undo_at_def split: Ref.split option.split)

lemma later_isDirty:
  "later store t (fold (\<lambda>r. undo_at key (undo_ref r) (u r)) rs (t'\<lparr>m_isDirty := b\<rparr>)) =
   later store t (fold (\<lambda>r. undo_at key (undo_ref r) (u r)) rs t')"
  unfolding later_def info_undo_fold content_undo_fold content_isDirty by simp

lemma tbl_ok_isDirty [simp]: "tbl_ok (t\<lparr>m_isDirty := b\<rparr>) = tbl_ok t"
  by (simp add: tbl_ok_def)

definition op_undone :: "(nat \<rightharpoonup> Entry) \<Rightarrow> MemoryTable2 \<Rightarrow> Change option \<Rightarrow> MemoryTable2 \<Rightarrow> bool" where
  "op_undone store t ch t' \<longleftrightarrow> tbl_ok t' \<and> m_tableInfo t' = m_tableInfo t \<and>
     (case ch of None \<Rightarrow> t' = t
      | Some c \<Rightarrow> ch_table c = ti_name (m_tableInfo t) \<and> valid_change t' c \<and> later store t (table_rollback c t'))"

lemma insert_undone:
  assumes "tbl_ok t" "m_ID e = 0" "smap_ok (m_fields e)" "mt_insert key e opts t = (r, ch, t')"
  shows "op_undone store t ch t'"
proof (cases "opt_check opts \<and> \<not> checkAuthority t (opt_origin opts) \<or> \<not> checkField t e")
  case True
  then show ?thesis using assms(1,4) by (auto simp: mt_insert_def op_undone_def split: if_splits)
next
  case False
  define x where "x = setField (ti_key (m_tableInfo t)) key e"
  define rec where "rec = \<lparr>cr_index = length (new_entries t key), cr_key = [], oldValue = [], cr_id = 0\<rparr>"
  define c where "c = \<lparr>ch_table = ti_name (m_tableInfo t), ch_kind = Insert, ch_key = key, ch_value = [rec]\<rparr>"
  have t': "t' = t\<lparr>m_newEntries := um_set key (new_entries t key @ [x]) (m_newEntries t), m_isDirty := True\<rparr>" "ch = Some c"
    using assms(4) False by (auto simp: mt_insert_def Let_def x_def rec_def c_def split: if_splits)
  have cont: "content t' l = ((content t)(NewLoc key (length (new_entries t key)) \<mapsto> x)) l" for l
    by (cases l) (auto simp: t' content_def nth_append)
  have x: "m_ID x = 0" "smap_ok (m_fields x)" using assms(2,3) by (simp_all add: x_def)
  have none: "content t (NewLoc key (length (new_entries t key))) = None" by (simp add: content_def)
  have "tbl_ok t'" using assms(1) x unfolding tbl_ok_def cont by (auto split: if_splits)
  moreover have v: "valid_change t' c" by (simp add: valid_change_def c_def rec_def undo_ref_def cont)
  moreover have "later store t (table_rollback c t')"
    unfolding later_def
  proof (intro conjI allI)
    fix l
    have "content (table_rollback c t') l = ((content t)(NewLoc key (length (new_entries t key)) \<mapsto> setDeleted True x)) l"
      unfolding table_rollback_def c_def by (simp add: rec_def content_undo_at cont)
    then show "case content t l of Some e \<Rightarrow> map_option core (content (table_rollback c t') l) = Some (core e)
      | None \<Rightarrow> (\<forall>e'. content (table_rollback c t') l = Some e' \<longrightarrow>
          (case l of NewLoc key i \<Rightarrow> m_deleted e' | DirtyLoc i \<Rightarrow> map_option core (store i) = Some (core e')))"
      using none by (cases "content t l"; cases l) (auto simp: setDeleted_def)
  qed (simp add: table_rollback_def c_def undo_at_def t' split: option.split)
  ultimately show ?thesis by (simp add: op_undone_def t'(2) c_def) (simp add: t'(1))
qed

lemma update_undone:
  assumes ok: "tbl_ok t" "remote_ok remote (m_tableInfo t) store" and safe: "op_safe lc remote (OpUpdate key e c opts) t"
    and op: "mt_update lc remote key e c opts t = (r, ch, t')"
  shows "op_undone store t ch t'"
proof (cases "opt_check opts \<and> \<not> checkAuthority t (opt_origin opts) \<or> \<not> checkField t e")
  case True
  then show ?thesis using ok op by (auto simp: mt_update_def op_undone_def split: if_splits)
next
  case False
  obtain refs t1 where sel: "selectNoLock lc remote key c t = (refs, t1)" by fastforce
  note s = select_refs [OF ok sel]
  define tk where "tk = ti_key (m_tableInfo t)"
  obtain rs t2 where loop: "ref_loop key (update_fields tk (m_fields e)) refs t1 = (rs, t2)" by fastforce
  then have upd: "update_loop key e refs t1 = (rs, t2)" by (simp add: update_loop_ref s(3) tk_def)
  define chg where "chg = \<lparr>ch_table = ti_name (m_tableInfo t), ch_kind = Update, ch_key = key, ch_value = rs\<rparr>"
  have e: "smap_ok (m_fields e)" using safe by simp
  have u: "undoable (update_fields tk (m_fields e)) (\<lambda>r. setField (cr_key r) (oldValue r)) (entry_at t1 key ref)" if "ref \<in> set refs" for ref
  proof (rule update_undoable [OF e])
    have "valid_ref store t1 key ref" using s(1) that by (simp add: list_all_iff)
    then show "smap_ok (m_fields (entry_at t1 key ref))" using valid_entry [OF _ s(5)] by blast
    show "\<forall>(f, v) \<in> set (m_fields e). f \<noteq> ID_FIELD \<longrightarrow> f \<noteq> tk \<longrightarrow> map_of (m_fields (entry_at t1 key ref)) f \<noteq> None"
      using safe that by (fastforce simp: mt_select_def sel list_all_iff tk_def)
  qed
  have h: "m_ID (snd (update_fields tk (m_fields e) x)) = m_ID x \<and> smap_ok (m_fields (snd (update_fields tk (m_fields e) x)))"
    if "smap_ok (m_fields x)" for x
  proof -
    obtain ss y where y: "update_fields tk (m_fields e) x = (ss, y)" by fastforce
    show ?thesis using update_fields_records(3,5) [OF smap_distinct [OF e] y that] y by (simp add: core_def)
  qed
  note l = loop_op [OF ok sel loop u h]
  have t': "t' = t2\<lparr>m_isDirty := True\<rparr>" "ch = Some chg"
    using op False l(4) by (auto simp: mt_update_def sel upd chg_def split: if_splits)
  have "valid_change t' chg" using l(2) by (simp add: valid_change_def chg_def t')
  moreover have "later store t (table_rollback chg t')"
    using l(1) by (simp add: table_rollback_def chg_def t' later_isDirty)
  ultimately show ?thesis using l(3,4) by (simp add: op_undone_def t'(2) chg_def) (simp add: t'(1))
qed

lemma remove_undone:
  assumes ok: "tbl_ok t" "remote_ok remote (m_tableInfo t) store" and safe: "op_safe lc remote (OpRemove key c opts) t"
    and op: "mt_remove lc remote key c opts t = (r, ch, t')"
  shows "op_undone store t ch t'"
proof (cases "opt_check opts \<and> \<not> checkAuthority t (opt_origin opts)")
  case True
  then show ?thesis using ok op by (auto simp: mt_remove_def op_undone_def)
next
  case False
  obtain refs t1 where sel: "selectNoLock lc remote key c t = (refs, t1)" by fastforce
  let ?h = "\<lambda>e. ([\<lparr>cr_index = m_tempIndex e, cr_key = [], oldValue = [], cr_id = m_ID e\<rparr>], setStatus 1 e)"
  obtain rs t2 where loop: "ref_loop key ?h refs t1 = (rs, t2)" by fastforce
  define chg where "chg = \<lparr>ch_table = ti_name (m_tableInfo t), ch_kind = Remove, ch_key = key, ch_value = rs\<rparr>"
  have u: "undoable ?h (\<lambda>r. setStatus 0) (entry_at t1 key ref)" if "ref \<in> set refs" for ref
    by (rule remove_undoable) (use safe that in \<open>simp add: mt_select_def sel list_all_iff NORMAL_def\<close>)
  have h: "m_ID (snd (?h x)) = m_ID x \<and> smap_ok (m_fields (snd (?h x)))" if "smap_ok (m_fields x)" for x
    using that by (simp add: setStatus_def)
  note l = loop_op [OF ok sel loop u h]
  have t': "t' = t2\<lparr>m_isDirty := True\<rparr>" "ch = Some chg"
    using op False l(4) loop by (auto simp: mt_remove_def sel remove_loop_ref chg_def split: if_splits)
  have "valid_change t' chg" using l(2) by (simp add: valid_change_def chg_def t')
  moreover have "later store t (table_rollback chg t')"
    using l(1) by (simp add: table_rollback_def chg_def t' later_isDirty)
  ultimately show ?thesis using l(3,4) by (simp add: op_undone_def t'(2) chg_def) (simp add: t'(1))
qed

lemma op_undone:
  assumes "tbl_ok t" "remote_ok remote (m_tableInfo t) store" "op_safe lc remote op t" "exec_op lc remote op t = (r, ch, t')"
  shows "op_undone store t ch t'"
  using assms insert_undone update_undone remove_undone by (cases op) fastforce+

section \<open>Selections\<close>

lemma process_core: "core e = core e' \<Longrightarrow> process lc c e = process lc c e'"
  by (simp add: process_iff core_def)

lemma later_new:
  assumes "later store t t'"
  shows "length (new_entries t key) \<le> length (new_entries t' key)"
    "i < length (new_entries t key) \<Longrightarrow> core (new_entries t' key ! i) = core (new_entries t key ! i)"
    "length (new_entries t key) \<le> i \<Longrightarrow> i < length (new_entries t' key) \<Longrightarrow> m_deleted (new_entries t' key ! i)"
proof -
  have e: "i < length (new_entries t' key) \<and> core (new_entries t' key ! i) = core (new_entries t key ! i)" if "i < length (new_entries t key)" for i
    using laterD(2) [OF assms, of "NewLoc key i"] that by (auto simp: content_def split: if_splits)
  then show "i < length (new_entries t key) \<Longrightarrow> core (new_entries t' key ! i) = core (new_entries t key ! i)" by simp
  show "length (new_entries t key) \<le> length (new_entries t' key)"
    using e [of "length (new_entries t key) - 1"] by (cases "new_entries t key") auto
  show "length (new_entries t key) \<le> i \<Longrightarrow> i < length (new_entries t' key) \<Longrightarrow> m_deleted (new_entries t' key ! i)"
    using laterD(3) [OF assms, of key i] by (simp add: content_def)
qed

lemma later_indices:
  assumes "later store t t'" "m_conditions c \<noteq> []"
  shows "processEntries lc (new_entries t' key) c = processEntries lc (new_entries t key) c"
proof -
  let ?n = "length (new_entries t key)" and ?n' = "length (new_entries t' key)"
  note new = later_new [OF assms(1), where key = key]
  have "[0..<?n'] = [0..<?n] @ [?n..<?n']" using upt_add_eq_append [of 0 ?n "?n' - ?n"] new(1) by simp
  moreover have "filter (\<lambda>i. process lc c (new_entries t' key ! i)) [?n..<?n'] = []"
    using new(3) by (auto simp: filter_empty_conv process_def)
  moreover have "filter (\<lambda>i. process lc c (new_entries t' key ! i)) [0..<?n] = filter (\<lambda>i. process lc c (new_entries t key ! i)) [0..<?n]"
    by (rule filter_cong [OF refl], rule process_core, rule new(2)) simp
  ultimately show ?thesis using assms(2) by (simp add: processEntries_def)
qed

lemma cond_EQ_nonempty [simp]: "m_conditions (cond_EQ k v c) \<noteq> []"
  by (cases "m_conditions c") (auto simp: cond_EQ_def split: if_splits)

text \<open>What a selection returns.\<close>

lemma select_cores:
  assumes "remote (m_tableInfo t) key (cond_EQ (ti_key (m_tableInfo t)) key c) = db"
  shows "map core (fst (mt_select lc remote key c t)) =
    (case db of None \<Rightarrow> []
     | Some db \<Rightarrow>
         let c = cond_EQ (ti_key (m_tableInfo t)) key c;
             es = map (\<lambda>e. core (case um_find (mt_dirty t) (m_ID e) of Some d \<Rightarrow> d | None \<Rightarrow> e)) db @
               map (\<lambda>i. core (new_entries t key ! i)) (processEntries lc (new_entries t key) c) in
         if getOffset c \<ge> 0 \<and> getCount c \<ge> 0 then proccessLimit c es else es)"
proof (cases db)
  case None
  then show ?thesis using assms by (simp add: mt_select_def selectNoLock_def Let_def)
next
  case (Some db')
  let ?c = "cond_EQ (ti_key (m_tableInfo t)) key c"
  define "is" where "is = processEntries lc (new_entries t key) ?c"
  define t1 where "t1 = fold (set_temp key) is t"
  have r: "set is \<subseteq> {..<length (new_entries t key)}" using processEntries_range(1) [of lc "new_entries t key" ?c] by (simp add: is_def)
  note cont = fold_set_temp [OF r, folded t1_def]
  have d: "um_find (mt_dirty t1) i = um_find (mt_dirty t) i" for i using cont [of "DirtyLoc i"] by (simp add: content_def)
  have old: "core (entry_at t1 key (if um_find (mt_dirty t) (m_ID e) \<noteq> None then DirtyRef (m_ID e) else DbRef e)) =
      core (case um_find (mt_dirty t) (m_ID e) of Some d \<Rightarrow> d | None \<Rightarrow> e)" for e
    by (cases "um_find (mt_dirty t) (m_ID e)") (simp_all add: entry_at_def d)
  have new: "core (entry_at t1 key (NewRef i)) = core (new_entries t key ! i)" if "i \<in> set is" for i
  proof -
    have "content t (NewLoc key i) = Some (new_entries t key ! i)" using that r by (auto simp: content_def)
    then have "content t1 (NewLoc key i) = Some (setTempIndex i (new_entries t key ! i))" using cont [of "NewLoc key i"] that by simp
    then show ?thesis using entry_at_loc(1) by fastforce
  qed
  have refs: "map (core \<circ> entry_at t1 key) (raw_refs t db' is) =
      map (\<lambda>e. core (case um_find (mt_dirty t) (m_ID e) of Some d \<Rightarrow> d | None \<Rightarrow> e)) db' @ map (\<lambda>i. core (new_entries t key ! i)) is"
    unfolding raw_refs_def using old new by (simp del: not_None_eq)
  have sel: "selectNoLock lc remote key c t =
      (if getOffset ?c \<ge> 0 \<and> getCount ?c \<ge> 0 then proccessLimit ?c (raw_refs t db' is) else raw_refs t db' is, t1)"
    using assms Some by (simp add: selectNoLock_def Let_def raw_refs_def is_def t1_def)
  show ?thesis
    using limit_map [of ?c "core \<circ> entry_at t1 key" "raw_refs t db' is"]
    unfolding mt_select_def sel Some by (simp add: Let_def refs [symmetric] is_def [symmetric])
qed

text \<open>A later table answers as the table does.\<close>

lemma later_select:
  assumes l: "later store t t'" and ok: "remote_ok remote (m_tableInfo t) store"
  shows "map core (fst (mt_select lc remote key c t')) = map core (fst (mt_select lc remote key c t))"
proof -
  let ?c = "cond_EQ (ti_key (m_tableInfo t)) key c"
  note info = laterD(1) [OF l]
  define db where "db = remote (m_tableInfo t) key ?c"
  have old: "core (case um_find (mt_dirty t') (m_ID e) of Some d \<Rightarrow> d | None \<Rightarrow> e) = core (case um_find (mt_dirty t) (m_ID e) of Some d \<Rightarrow> d | None \<Rightarrow> e)"
    if "db = Some es" "e \<in> set es" for es e
  proof -
    have st: "store (m_ID e) = Some e" using ok that unfolding remote_ok_def db_def by blast
    show ?thesis
    proof (cases "um_find (mt_dirty t) (m_ID e)")
      case (Some d)
      then show ?thesis using laterD(2) [OF l, of "DirtyLoc (m_ID e)" d] by (auto simp: content_def)
    next
      case None
      then show ?thesis using laterD(4) [OF l, of "m_ID e"] st by (auto simp: content_def split: option.split)
    qed
  qed
  have new: "map (\<lambda>i. core (new_entries t' key ! i)) (processEntries lc (new_entries t key) ?c) =
      map (\<lambda>i. core (new_entries t key ! i)) (processEntries lc (new_entries t key) ?c)"
    by (rule map_cong [OF refl]) (use later_new(2) [OF l, where key = key] processEntries_range(1) [of lc "new_entries t key" ?c] in auto)
  have "db = remote (m_tableInfo t') key (cond_EQ (ti_key (m_tableInfo t')) key c)" by (simp add: db_def info)
  note s' = select_cores [where t = t' and remote = remote and key = key and c = c and db = db and lc = lc, OF this [symmetric]]
    and s = select_cores [where t = t and remote = remote and key = key and c = c and db = db and lc = lc, OF db_def [symmetric]]
  show ?thesis
  proof (cases db)
    case None
    then show ?thesis unfolding s' s by simp
  next
    case (Some es)
    have "map (\<lambda>e. core (case um_find (mt_dirty t') (m_ID e) of Some d \<Rightarrow> d | None \<Rightarrow> e)) es =
        map (\<lambda>e. core (case um_find (mt_dirty t) (m_ID e) of Some d \<Rightarrow> d | None \<Rightarrow> e)) es"
      by (rule map_cong [OF refl]) (rule old [OF Some])
    then show ?thesis unfolding s' s Some option.case Let_def info later_indices [OF l cond_EQ_nonempty] by (simp only: new)
  qed
qed

section \<open>Transactions on several tables\<close>

fun run_ops :: "(string \<Rightarrow> int option) \<Rightarrow> (TableInfo \<Rightarrow> string \<Rightarrow> Condition \<Rightarrow> Entry list option) \<Rightarrow> (string \<times> Op) list \<Rightarrow>
    MemoryTableFactory2 \<Rightarrow> MemoryTableFactory2" where
  "run_ops lc remote [] s = s"
| "run_ops lc remote ((name, op) # ops) s = run_ops lc remote ops (snd (table_op name (exec_op lc remote op) s))"

fun safe_ops :: "(string \<Rightarrow> int option) \<Rightarrow> (TableInfo \<Rightarrow> string \<Rightarrow> Condition \<Rightarrow> Entry list option) \<Rightarrow> (string \<times> Op) list \<Rightarrow>
    MemoryTableFactory2 \<Rightarrow> bool" where
  "safe_ops lc remote [] s \<longleftrightarrow> True"
| "safe_ops lc remote ((name, op) # ops) s \<longleftrightarrow> is_open s name \<and> op_safe lc remote op (table_of s name) \<and>
     safe_ops lc remote ops (snd (table_op name (exec_op lc remote op) s))"

definition factory_ok :: "(TableInfo \<Rightarrow> string \<Rightarrow> Condition \<Rightarrow> Entry list option) \<Rightarrow> (string \<Rightarrow> nat \<rightharpoonup> Entry) \<Rightarrow> MemoryTableFactory2 \<Rightarrow> bool" where
  "factory_ok remote store s \<longleftrightarrow> (\<forall>name t. um_find (m_name2Table s) name = Some t \<longrightarrow>
     ti_name (m_tableInfo t) = name \<and> tbl_ok t \<and> remote_ok remote (m_tableInfo t) (store name))"

definition flater :: "(string \<Rightarrow> nat \<rightharpoonup> Entry) \<Rightarrow> MemoryTableFactory2 \<Rightarrow> MemoryTableFactory2 \<Rightarrow> bool" where
  "flater store s s' \<longleftrightarrow> (\<forall>name t. um_find (m_name2Table s) name = Some t \<longrightarrow>
     (\<exists>t'. um_find (m_name2Table s') name = Some t' \<and> later (store name) t t'))"

lemma find_set_table: "um_find (m_name2Table (set_table name t s)) name' = (if name' = name then Some t else um_find (m_name2Table s) name')"
  by (simp add: set_table_def um_find_set_eq)

lemma table_of_find: "is_open s name \<Longrightarrow> um_find (m_name2Table s) name = Some (table_of s name)"
  by (auto simp: is_open_def table_of_def)

lemma flater_refl: "flater store s s"
  using later_refl unfolding flater_def by blast

text \<open>One operation of a transaction and its rollback.\<close>

lemma table_op_step:
  assumes ok: "factory_ok remote store s" and o: "is_open s name" and safe: "op_safe lc remote op (table_of s name)"
    and s1: "s1 = snd (table_op name (exec_op lc remote op) s)"
  shows "factory_ok remote store s1"
    "m_changeLog s1 = m_changeLog s \<and> flater store s s1 \<or>
     (\<exists>ch. m_changeLog s1 = m_changeLog s @ [ch] \<and> ch_table ch = name \<and> is_open s1 name \<and> valid_change (table_of s1 name) ch \<and>
        later (store name) (table_of s name) (table_rollback ch (table_of s1 name)) \<and>
        (\<forall>n. n \<noteq> name \<longrightarrow> um_find (m_name2Table s1) n = um_find (m_name2Table s) n))"
proof -
  let ?t = "table_of s name"
  obtain r ch t' where ex: "exec_op lc remote op ?t = (r, ch, t')" by (cases "exec_op lc remote op ?t")
  have t: "ti_name (m_tableInfo ?t) = name" "tbl_ok ?t" "remote_ok remote (m_tableInfo ?t) (store name)"
    using ok table_of_find [OF o] unfolding factory_ok_def by auto
  have u: "op_undone (store name) ?t ch t'" by (rule op_undone [OF t(2,3) safe ex])
  have find: "um_find (m_name2Table s1) n = (if n = name then Some t' else um_find (m_name2Table s) n)" for n
    using s1 by (simp add: table_op_def ex set_table_def um_find_set_eq)
  have log: "m_changeLog s1 = m_changeLog s @ (case ch of None \<Rightarrow> [] | Some c \<Rightarrow> [c])" using s1 by (simp add: table_op_def ex)
  have t1: "is_open s1 name" "table_of s1 name = t'" by (simp_all add: is_open_def table_of_def find)
  show "factory_ok remote store s1"
    using ok u t unfolding factory_ok_def find by (auto simp: op_undone_def split: if_splits)
  show "m_changeLog s1 = m_changeLog s \<and> flater store s s1 \<or>
     (\<exists>ch. m_changeLog s1 = m_changeLog s @ [ch] \<and> ch_table ch = name \<and> is_open s1 name \<and> valid_change (table_of s1 name) ch \<and>
        later (store name) ?t (table_rollback ch (table_of s1 name)) \<and>
        (\<forall>n. n \<noteq> name \<longrightarrow> um_find (m_name2Table s1) n = um_find (m_name2Table s) n))"
  proof (cases ch)
    case None
    then have "t' = ?t" using u by (simp add: op_undone_def)
    then have "um_find (m_name2Table s1) n = um_find (m_name2Table s) n" for n using find table_of_find [OF o] by simp
    then have "flater store s s1" using later_refl unfolding flater_def by simp
    then show ?thesis using log None by simp
  next
    case (Some c)
    then show ?thesis using u log t1 t(1) find by (simp add: op_undone_def)
  qed
qed

lemma rollback_last:
  assumes "sp < length (m_changeLog s)"
  shows "factory_rollback sp s = factory_rollback sp
    ((set_table (ch_table (last (m_changeLog s))) (table_rollback (last (m_changeLog s)) (table_of s (ch_table (last (m_changeLog s))))) s)
      \<lparr>m_changeLog := butlast (m_changeLog s)\<rparr>)"
  using assms by (subst factory_rollback.simps) (simp add: Let_def)

lemma later_table:
  assumes "flater store s s'" "um_find (m_name2Table s) name = Some t"
  shows "later (store name) t (table_of s' name)" "is_open s' name"
proof -
  obtain t' where "um_find (m_name2Table s') name = Some t'" "later (store name) t t'" using assms unfolding flater_def by blast
  then show "later (store name) t (table_of s' name)" "is_open s' name" by (simp_all add: table_of_def is_open_def)
qed

lemma flater_trans: "flater store s s' \<Longrightarrow> flater store s' s'' \<Longrightarrow> flater store s s''"
  using later_trans unfolding flater_def by meson

lemma rollback_split: "sp \<le> sp' \<Longrightarrow> factory_rollback sp s = factory_rollback sp (factory_rollback sp' s)"
proof (induction sp' s rule: factory_rollback.induct)
  case (1 sp' s)
  show ?case
  proof (cases "sp' < length (m_changeLog s)")
    case True
    then show ?thesis
      using rollback_last [of sp s] rollback_last [of sp' s] "1.IH" [OF True refl "1.prems"] "1.prems" by simp
  next
    case False
    then show ?thesis by (simp add: factory_rollback.simps [of sp' s])
  qed
qed

lemma run_ops_rollback:
  assumes "factory_ok remote store s" "safe_ops lc remote ops s"
    "flater store (run_ops lc remote ops s) s'" "m_changeLog s' = m_changeLog (run_ops lc remote ops s)"
  shows "flater store s (factory_rollback (savepoint s) s') \<and> m_changeLog (factory_rollback (savepoint s) s') = m_changeLog s"
  using assms
proof (induction ops arbitrary: s)
  case Nil
  then show ?case by (subst (1 2) factory_rollback.simps) (simp add: savepoint_def)
next
  case (Cons p ops)
  obtain name op where p: "p = (name, op)" by (cases p)
  define s1 where "s1 = snd (table_op name (exec_op lc remote op) s)"
  have o: "is_open s name" and safe: "op_safe lc remote op (table_of s name)" and ops: "safe_ops lc remote ops s1"
    using Cons.prems(2) by (simp_all add: p s1_def)
  note step = table_op_step [OF Cons.prems(1) o safe s1_def]
  define s2 where "s2 = factory_rollback (savepoint s1) s'"
  have IH: "flater store s1 s2" "m_changeLog s2 = m_changeLog s1"
    using Cons.IH [OF step(1) ops] Cons.prems(3,4) by (simp_all add: p s1_def s2_def)
  have len: "savepoint s \<le> savepoint s1" using step(2) by (auto simp: savepoint_def)
  have roll: "factory_rollback (savepoint s) s' = factory_rollback (savepoint s) s2"
    unfolding s2_def by (rule rollback_split [OF len])
  from step(2) show ?case
  proof
    assume a: "m_changeLog s1 = m_changeLog s \<and> flater store s s1"
    have "factory_rollback (savepoint s) s2 = s2" using a IH(2) by (subst factory_rollback.simps) (simp add: savepoint_def)
    then show ?thesis using a IH flater_trans roll by auto
  next
    assume "\<exists>ch. m_changeLog s1 = m_changeLog s @ [ch] \<and> ch_table ch = name \<and> is_open s1 name \<and> valid_change (table_of s1 name) ch \<and>
        later (store name) (table_of s name) (table_rollback ch (table_of s1 name)) \<and>
        (\<forall>n. n \<noteq> name \<longrightarrow> um_find (m_name2Table s1) n = um_find (m_name2Table s) n)"
    then obtain ch where ch: "m_changeLog s1 = m_changeLog s @ [ch]" "ch_table ch = name" "is_open s1 name"
        "valid_change (table_of s1 name) ch" "later (store name) (table_of s name) (table_rollback ch (table_of s1 name))"
        "\<And>n. n \<noteq> name \<Longrightarrow> um_find (m_name2Table s1) n = um_find (m_name2Table s) n" by blast
    define s3 where "s3 = (set_table name (table_rollback ch (table_of s2 name)) s2)\<lparr>m_changeLog := m_changeLog s\<rparr>"
    have "factory_rollback (savepoint s) s2 = factory_rollback (savepoint s) s3"
      using rollback_last [of "savepoint s" s2] ch(1,2) IH(2) by (simp add: savepoint_def s3_def)
    also have "\<dots> = s3" by (subst factory_rollback.simps) (simp add: savepoint_def s3_def)
    finally have r: "factory_rollback (savepoint s) s' = s3" using roll by simp
    have "later (store name) (table_rollback ch (table_of s1 name)) (table_rollback ch (table_of s2 name))"
      by (rule rollback_later [OF later_table(1) [OF IH(1) table_of_find [OF ch(3)]] ch(4)])
    then have "later (store name) (table_of s name) (table_rollback ch (table_of s2 name))" by (rule later_trans [OF ch(5)])
    moreover have "\<exists>t'. um_find (m_name2Table s2) n = Some t' \<and> later (store n) t t'" if "n \<noteq> name" "um_find (m_name2Table s) n = Some t" for n t
      using IH(1) ch(6) [OF that(1)] that(2) unfolding flater_def by simp
    ultimately have "flater store s s3"
      using table_of_find [OF o] unfolding flater_def by (simp add: s3_def set_table_def um_find_set_eq)
    then show ?thesis unfolding r by (simp add: s3_def)
  qed
qed

section \<open>What is hashed\<close>

lemma entry_data_split:
  "\<exists>F. \<forall>s. entry_data (e\<lparr>m_status := s\<rparr>) = F @ [char_of (nat (s mod 256))]"
  by (auto simp: entry_data_def)

lemma entry_key_fields: "entry_key k a = entry_key k b \<Longrightarrow> m_fields a = m_fields b"
  by (simp add: entry_key_def)

definition status_byte :: "Entry \<Rightarrow> char" where "status_byte e = char_of (nat (m_status e mod 256))"

lemma entry_data_eq: "m_fields a = m_fields b \<Longrightarrow> entry_data a = entry_data b \<longleftrightarrow> status_byte a = status_byte b"
  by (simp add: entry_data_def status_byte_def)

lemma data_of_keys:
  assumes "map (entry_key k) xs = map (entry_key k) ys" "\<And>a b. a \<in> set xs \<Longrightarrow> b \<in> set ys \<Longrightarrow> entry_key k a = entry_key k b \<Longrightarrow> status_byte a = status_byte b"
  shows "map entry_data xs = map entry_data ys"
proof (rule nth_equalityI)
  show len: "length (map entry_data xs) = length (map entry_data ys)" using arg_cong [OF assms(1), of length] by simp
  fix i assume "i < length (map entry_data xs)"
  then have i: "i < length xs" "i < length ys" using len by simp_all
  then have "entry_key k (xs ! i) = entry_key k (ys ! i)" using arg_cong [OF assms(1), of "\<lambda>l. l ! i"] by simp
  then show "map entry_data xs ! i = map entry_data ys ! i"
    using i assms(2) [of "xs ! i" "ys ! i"] entry_data_eq [OF entry_key_fields] by simp
qed

lemma dump_order_exists: "dump_order t (sort_key (entry_key (ti_key (m_tableInfo t))) (live_dirty t @ live_new t))"
  by (simp add: dump_order_def sorted_entries_keys)

text \<open>Entries with the same key can be hashed in either order.\<close>

lemma dump_order_swap:
  assumes "a \<in> set (live_dirty t @ live_new t)" "b \<in> set (live_dirty t @ live_new t)" "a \<noteq> b"
    "entry_key (ti_key (m_tableInfo t)) a = entry_key (ti_key (m_tableInfo t)) b"
  shows "\<exists>xs ys. dump_order t (xs @ [a, b] @ ys) \<and> dump_order t (xs @ [b, a] @ ys)"
proof -
  let ?k = "entry_key (ti_key (m_tableInfo t))"
  obtain l where l: "mset (live_dirty t @ live_new t) = add_mset a (add_mset b (mset l))"
  proof -
    have "a \<in># mset (live_dirty t @ live_new t)" "b \<in># mset (live_dirty t @ live_new t)" using assms(1,2) by simp_all
    then have "b \<in># mset (live_dirty t @ live_new t) - {#a#}" using assms(3) by (simp add: in_diff_count count_greater_zero_iff)
    then obtain M where "mset (live_dirty t @ live_new t) = add_mset a (add_mset b M)"
      using \<open>a \<in># mset (live_dirty t @ live_new t)\<close> by (metis multi_member_split add_mset_remove_trivial)
    moreover obtain l where "M = mset l" using ex_mset by metis
    ultimately show ?thesis using that by blast
  qed
  define xs where "xs = sort_key ?k (filter (\<lambda>e. ?k e < ?k a) l)"
  define ys where "ys = sort_key ?k (filter (\<lambda>e. \<not> ?k e < ?k a) l)"
  have m: "mset (xs @ ys) = mset l" by (simp add: xs_def ys_def multiset_partition [symmetric])
  have s: "sorted (map ?k xs)" "sorted (map ?k ys)" "\<forall>e \<in> set xs. ?k e \<le> ?k a" "\<forall>e \<in> set ys. ?k a \<le> ?k e"
    by (simp_all add: xs_def ys_def not_less less_imp_le)
  have "?k x \<le> ?k y" if "x \<in> set xs" "y \<in> set ys" for x y
    by (rule order_trans [of _ "?k a"]) (use s(3,4) that in blast)+
  then have "sorted (map ?k (xs @ [a, b] @ ys))" "sorted (map ?k (xs @ [b, a] @ ys))"
    using s assms(4) by (auto simp: sorted_append)
  moreover have "mset (xs @ [a, b] @ ys) = mset (live_dirty t @ live_new t)" "mset (xs @ [b, a] @ ys) = mset (live_dirty t @ live_new t)"
    unfolding l using m by (simp_all add: add_mset_commute)
  ultimately show ?thesis by (auto simp: dump_order_def sorted_entries_keys)
qed

section \<open>Properties\<close>


text \<open>C38: The data that is hashed does not depend on the order in which the threads collect the entries, if and only if no
two entries that agree on ID, key and fields differ in their status.\<close>

theorem hash_determined:
  "(\<forall>es es'. dump_order t es \<longrightarrow> dump_order t es' \<longrightarrow> concat (map entry_data es) = concat (map entry_data es')) \<longleftrightarrow>
   (\<forall>a \<in> set (live_dirty t @ live_new t). \<forall>b \<in> set (live_dirty t @ live_new t).
      entry_key (ti_key (m_tableInfo t)) a = entry_key (ti_key (m_tableInfo t)) b \<longrightarrow> status_byte a = status_byte b)"
    (is "?det \<longleftrightarrow> ?same")
proof
  let ?k = "entry_key (ti_key (m_tableInfo t))"
  assume same: ?same
  have "map entry_data es = map entry_data es'" if o: "dump_order t es" "dump_order t es'" for es es'
  proof (rule data_of_keys)
    have m: "mset es = mset (live_dirty t @ live_new t)" "mset es' = mset (live_dirty t @ live_new t)"
      and srt: "sorted_entries (ti_key (m_tableInfo t)) es" "sorted_entries (ti_key (m_tableInfo t)) es'"
      using o unfolding dump_order_def by blast+
    show "map ?k es = map ?k es'" by (rule sorted_entries_unique [OF _ srt]) (simp only: m)
    show "status_byte a = status_byte b" if "a \<in> set es" "b \<in> set es'" "?k a = ?k b" for a b
      using same that unfolding mset_eq_setD [OF m(1)] mset_eq_setD [OF m(2)] by blast
  qed
  note eq = this
  show ?det by (intro allI impI arg_cong [where f = concat] eq)
next
  let ?k = "entry_key (ti_key (m_tableInfo t))"
  assume det: ?det
  have "status_byte a = status_byte b" if ab: "a \<in> set (live_dirty t @ live_new t)" "b \<in> set (live_dirty t @ live_new t)" "?k a = ?k b" for a b
  proof (cases "a = b")
    case False
    obtain xs ys where "dump_order t (xs @ [a, b] @ ys)" "dump_order t (xs @ [b, a] @ ys)" using dump_order_swap [OF ab(1,2) False ab(3)] by blast
    then have "concat (map entry_data (xs @ [a, b] @ ys)) = concat (map entry_data (xs @ [b, a] @ ys))" using det by blast
    then have "concat (map entry_data xs) @ (entry_data a @ entry_data b) @ concat (map entry_data ys) =
        concat (map entry_data xs) @ (entry_data b @ entry_data a) @ concat (map entry_data ys)" by simp
    then have eq: "entry_data a @ entry_data b = entry_data b @ entry_data a" by (simp only: same_append_eq append_same_eq)
    have "length (entry_data a) = length (entry_data b)" using entry_key_fields [OF ab(3)] by (simp add: entry_data_def)
    then have "entry_data a = entry_data b" using append_eq_append_conv eq by blast
    then show ?thesis using entry_data_eq [OF entry_key_fields [OF ab(3)]] by simp
  qed simp
  then show ?same by blast
qed

lemma select_one:
  assumes "\<And>c. remote (m_tableInfo t) key c = Some [e]" "new_entries t key = []"
  shows "selectNoLock lc remote key Condition_new t =
    ([if um_find (mt_dirty t) (m_ID e) \<noteq> None then DirtyRef (m_ID e) else DbRef e], t)"
  using assms by (simp add: selectNoLock_def Let_def processEntries_def getOffset_def cond_EQ_def Condition_new_def)

text \<open>C39: A record of the storage that a transaction has removed is still selected in the rest of the block. When another
transaction removes it again and is rolled back, the record is not removed any more.\<close>

theorem removed_entry_revived:
  assumes "m_ID e \<noteq> 0" "m_status e = NORMAL" "um_find (mt_dirty t) (m_ID e) = None" "new_entries t key = []" "\<not> opt_check opts"
    "\<And>c. remote (m_tableInfo t) key c = Some [e]"
    "mt_remove lc remote key Condition_new opts t = (r1, ch1, t1)" "mt_remove lc remote key Condition_new opts t1 = (r2, Some ch2, t2)"
  shows "r1 = 1 \<and> r2 = 1 \<and> map m_status (fst (mt_select lc remote key Condition_new t1)) = [DELETED] \<and>
    map m_status (fst (mt_select lc remote key Condition_new (table_rollback ch2 t2))) = [NORMAL]"
proof -
  have t1: "t1 = t\<lparr>mt_dirty := um_set (m_ID e) (setStatus 1 e) (um_set (m_ID e) e (mt_dirty t)), m_isDirty := True\<rparr> \<and> r1 = 1"
    using assms(7) unfolding mt_remove_def select_one [where remote = remote, OF assms(6,4)] using assms(1,3,5)
    by (simp add: Let_def touch_def entry_at_def put_def um_find_set_eq)
  have sel1: "selectNoLock lc remote key Condition_new t1 = ([DirtyRef (m_ID e)], t1)"
    using select_one [where t = t1 and key = key and e = e and remote = remote and lc = lc] assms(4,6) t1 by (simp add: um_find_set_eq)
  have d1: "um_find (mt_dirty t1) (m_ID e) = Some (setStatus 1 e)" using t1 by (simp add: um_find_set_eq)
  have id: "m_ID (setStatus s x) = m_ID x" for s x by (simp add: setStatus_def)
  have t2: "t2 = t1\<lparr>mt_dirty := um_set (m_ID e) (setStatus 1 (setStatus 1 e)) (mt_dirty t1), m_isDirty := True\<rparr> \<and> r2 = 1 \<and>
      ch_kind ch2 = Remove \<and> ch_key ch2 = key \<and> map undo_ref (ch_value ch2) = [DirtyRef (m_ID e)]"
    using assms(8) unfolding mt_remove_def sel1 using assms(1,5) d1
    by (auto simp: Let_def touch_def entry_at_def put_def undo_ref_def id)
  obtain rec where rec: "ch_value ch2 = [rec]" "undo_ref rec = DirtyRef (m_ID e)" using t2 by auto
  define t3 where "t3 = table_rollback ch2 t2"
  have t3: "t3 = t2\<lparr>mt_dirty := um_set (m_ID e) (setStatus 0 (setStatus 1 (setStatus 1 e))) (mt_dirty t2)\<rparr>"
    unfolding t3_def table_rollback_def using t2 rec by (simp add: undo_at_def put_def um_find_set_eq)
  have sel3: "selectNoLock lc remote key Condition_new t3 = ([DirtyRef (m_ID e)], t3)"
    using select_one [where t = t3 and key = key and e = e and remote = remote and lc = lc] assms(4,6) t1 t2 t3 by (simp add: um_find_set_eq)
  have d3: "um_find (mt_dirty t3) (m_ID e) = Some (setStatus 0 (setStatus 1 (setStatus 1 e)))" using t3 by (simp add: um_find_set_eq)
  show ?thesis
    unfolding t3_def [symmetric] mt_select_def sel1 sel3 using t1 t2 d1 d3
    by (simp add: entry_at_def setStatus_def DELETED_def NORMAL_def)
qed

section \<open>Witnesses\<close>

definition ex_info :: TableInfo where
  "ex_info = add_fields \<lparr>ti_name = ''t'', ti_key = ''k'', ti_fields = [''v''], authorizedAddress = []\<rparr>"

definition ex_row :: "string \<Rightarrow> Entry" where
  "ex_row v = setField ''v'' v Entry_new"

definition ex_db :: Entry where
  "ex_db = setID 5 (setField ''k'' ''a'' (ex_row ''1''))"

definition ex_remote :: "TableInfo \<Rightarrow> string \<Rightarrow> Condition \<Rightarrow> Entry list option" where
  "ex_remote info key c = Some (if key = ''a'' then [ex_db] else [])"

definition ex_store :: "string \<Rightarrow> nat \<rightharpoonup> Entry" where
  "ex_store name = [5 \<mapsto> ex_db]"

definition ex_factory :: MemoryTableFactory2 where
  "ex_factory = \<lparr>m_name2Table = [(''t'', MemoryTable2_new ex_info)], m_changeLog = [], m_blockNum = 1\<rparr>"

definition ex_opts :: AccessOptions where
  "ex_opts = \<lparr>opt_origin = [], opt_check = False\<rparr>"

definition ex_ops :: "(string \<times> Op) list" where
  "ex_ops =
     [(''t'', OpUpdate ''a'' (ex_row ''2'') Condition_new ex_opts), (''t'', OpInsert ''b'' (ex_row ''3'') ex_opts),
      (''t'', OpUpdate ''b'' (ex_row ''4'') Condition_new ex_opts), (''t'', OpRemove ''b'' Condition_new ex_opts),
      (''t'', OpRemove ''a'' Condition_new ex_opts)]"

lemmas ex_row_defs = ex_row_def ex_db_def ex_info_def add_fields_def setField_def setID_def Entry_new_def STATUS_def NUM_FIELD_def ID_FIELD_def

lemmas ex_op_defs = mt_update_def mt_insert_def mt_remove_def mt_select_def selectNoLock_def Let_def touch_def entry_at_def put_def set_temp_def
  processEntries_def process_def new_entries_def cond_EQ_def Condition_new_def getOffset_def checkField_def setTempIndex_def
  setStatus_def DELETED_def NORMAL_def isHashField_def um_find_def um_set_def getField_def MemoryTable2_new_def ex_opts_def

lemma ex_factory_ok: "factory_ok ex_remote ex_store ex_factory"
  by (auto simp: factory_ok_def ex_factory_def um_find_def tbl_ok_def content_def new_entries_def MemoryTable2_new_def remote_ok_def
    ex_remote_def ex_store_def ex_row_defs smap_ok_def split: if_splits)

lemma ex_safe: "safe_ops (\<lambda>_. None) ex_remote ex_ops ex_factory"
  by (simp add: ex_ops_def ex_factory_def table_op_def table_of_def is_open_def set_table_def ex_remote_def ex_row_defs ex_op_defs smap_ok_def)


definition ex_twice :: MemoryTable2 where
  "ex_twice = table_of (run_ops (\<lambda>_. None) ex_remote
     [(''t'', OpInsert ''b'' (ex_row ''3'') ex_opts), (''t'', OpRemove ''b'' Condition_new ex_opts), (''t'', OpInsert ''b'' (ex_row ''3'') ex_opts)]
     ex_factory) ''t''"

lemma ex_twice_live:
  "live_dirty ex_twice @ live_new ex_twice =
   [setStatus 1 (setTempIndex 0 (setField ''k'' ''b'' (ex_row ''3''))), setField ''k'' ''b'' (ex_row ''3'')]"
  by (simp add: ex_twice_def ex_factory_def table_op_def table_of_def set_table_def ex_remote_def live_dirty_def live_new_def ex_row_defs ex_op_defs)

theorem hash_determined_witness:
  "\<exists>es es'. dump_order ex_twice es \<and> dump_order ex_twice es' \<and> concat (map entry_data es) \<noteq> concat (map entry_data es')"
proof -
  have "entry_key k (setStatus 1 (setTempIndex 0 x)) = entry_key k x" for k x
    by (simp add: entry_key_def setStatus_def setTempIndex_def getField_def)
  moreover have "status_byte (setStatus 1 x) \<noteq> status_byte (setField ''k'' ''b'' (ex_row ''3''))" for x
    by (simp add: status_byte_def setStatus_def ex_row_defs)
  ultimately show ?thesis using hash_determined [of ex_twice] unfolding ex_twice_live by auto
qed

theorem removed_entry_revived_witness:
  "\<exists>r1 ch1 t1 r2 ch2 t2. mt_remove (\<lambda>_. None) ex_remote ''a'' Condition_new ex_opts (MemoryTable2_new ex_info) = (r1, ch1, t1) \<and>
    mt_remove (\<lambda>_. None) ex_remote ''a'' Condition_new ex_opts t1 = (r2, Some ch2, t2) \<and>
    map m_status (fst (mt_select (\<lambda>_. None) ex_remote ''a'' Condition_new (table_rollback ch2 t2))) = [NORMAL]"
proof -
  obtain r1 ch1 t1 where 1: "mt_remove (\<lambda>_. None) ex_remote ''a'' Condition_new ex_opts (MemoryTable2_new ex_info) = (r1, ch1, t1)"
    by (cases "mt_remove (\<lambda>_. None) ex_remote ''a'' Condition_new ex_opts (MemoryTable2_new ex_info)")
  obtain r2 ch2 t2 where 2: "mt_remove (\<lambda>_. None) ex_remote ''a'' Condition_new ex_opts t1 = (r2, Some ch2, t2)"
    by (cases "selectNoLock (\<lambda>_. None) ex_remote ''a'' Condition_new t1"; cases "remove_loop ''a'' (fst (selectNoLock (\<lambda>_. None) ex_remote ''a'' Condition_new t1))
      (snd (selectNoLock (\<lambda>_. None) ex_remote ''a'' Condition_new t1))") (simp add: mt_remove_def ex_opts_def)
  have "m_ID ex_db \<noteq> 0" "m_status ex_db = NORMAL" "um_find (mt_dirty (MemoryTable2_new ex_info)) (m_ID ex_db) = None"
    "new_entries (MemoryTable2_new ex_info) ''a'' = []" "\<not> opt_check ex_opts"
    by (simp_all add: ex_row_defs ex_op_defs)
  from removed_entry_revived [OF this _ 1 2] show ?thesis using 1 2 by (auto simp: ex_remote_def)
qed

end
