(* ===== verification/Spec2Isabelle.thy ===== *)
theory Spec2Isabelle
  imports PBFT_Liveness PBFT_Sealer Tx_DAG Memory_Table
begin

text \<open>
  A verification of the consensus core of FASIMITO-BCOS (FISCO BCOS), from the wire formats to the
  consensus of a block, the pool that feeds it and the execution below it.

  \<^bold>\<open>The program.\<close> A node receives transactions into its pool (libtxpool). The thread of the sealer
  (libconsensus/Sealer, libconsensus/pbft/PBFTSealer) packs transactions of the pool into a block when
  the node is the leader and hands the block to the consensus engine (libconsensus/pbft/PBFTEngine).
  The engines of the nodes exchange prepare, sign, commit and view change requests until a quorum has
  committed to the block, which is then given to the chain. On the way the block is executed, in
  parallel along the graph of the conflicts of its transactions (libblockverifier/DAG, TxDAG), on the
  tables of the state (libstorage). Transactions, headers, receipts and blocks (libethcore) and the
  requests travel in the recursive length prefix format (libdevcore/RLP).

  \<^bold>\<open>Conventions.\<close> Names are those of the source where they are free in HOL. A class is a record with the
  members of the class, a method is a function. Methods that change an object and may throw are
  operations of the monad of \<open>Effects\<close>, where an exception keeps the changes made before it. Integers
  are words, or numbers with the conversions \<open>u64\<close>, \<open>i64\<close>, \<open>u32\<close> of \<open>BCOS_Prelude\<close> where the program
  converts. A \<open>std::unordered_map\<close> is an association list in the order of its iteration, which is
  arbitrary. The types are those of the build without \<open>FISCO_GM\<close>.

  \<^bold>\<open>Theories.\<close>
  \<^item> \<open>BCOS_Prelude\<close>: basic types, results, hash maps, and the interfaces \<open>hash_map\<close>, \<open>codec\<close> and
    \<open>invariant_system\<close>, a transition system with an invariant.
  \<^item> \<open>Effects\<close>: the monad with its weakest preconditions, preserved invariants and relations between
    the states before and after.
  \<^item> \<open>CommonData\<close>: libdevcore/CommonData and FixedHash. Hexadecimal and big-endian conversions are
    inverse to each other; the order of a fixed hash is that of its number.
  \<^item> \<open>RLP\<close>: libdevcore/RLP, the writer \<open>RLPStream\<close> and the reader with its subscript cache. Trees that
    are written are read back, and the cache does not change any answer.
  \<^item> \<open>Eth_Types\<close>, \<open>Receipts\<close>, \<open>Block_Codec\<close>: libethcore/Transaction, BlockHeader, LogEntry,
    TransactionReceipt, Block and TxsParallelParser. Round trips of all formats, bloom filters without
    false negatives, the inputs on which the parser of transactions reads out of bounds, and that the
    transactions root of a decoded block is not checked.
  \<^item> \<open>Trie_Hash\<close>: libdevcore/TrieHash and the hex-prefix encoding of TrieCommon, with termination.
  \<^item> \<open>PBFT_Types\<close>: libconsensus/pbft/Common.h, the requests. What a receiver decodes: heights and
    views modulo \<open>2^32\<close>.
  \<^item> \<open>PBFT_ReqCache\<close>: PBFTReqCache, the requests received. Its well-formedness, and that a fast view
    change needs view change requests of more than \<open>m_f\<close> nodes.
  \<^item> \<open>PBFT_MsgCache\<close>: PBFTMsgCache.h, TimeManager.h and the \<open>QueueSet\<close> of libdevcore/Common.h, as an
    instance of the interface \<open>bounded_memory\<close>.
  \<^item> \<open>PBFT_State\<close>, \<open>PBFT_Engine\<close>: ConsensusEngineBase and PBFTEngine, all handlers. \<open>pbft_step\<close> is one
    call into the engine; the locks of the source make the calls atomic.
  \<^item> \<open>PBFT_Invariants\<close>, \<open>PBFT_Safety\<close>, \<open>PBFT_Lock\<close>, \<open>PBFT_Liveness\<close>: the theorems on the engine. The
    invariant of all reachable states; no null pointer is dereferenced; a block is handed to the chain
    exactly with a quorum of sign and commit requests of the current view; two quorums share more
    sealers than may be faulty (interface \<open>quorum_system\<close>), while the check of the signature list
    accepts repetitions; a node that committed to a request takes up no other block of that height;
    the rotation of the leader; the forwarding of messages; a chain of one sealer commits its blocks.
  \<^item> \<open>Tx_Nonce\<close>, \<open>Tx_Pool\<close>: libtxpool. The queue with its index refines an ordered list and its
    invariant holds in all reachable states; the conditions of an import; the transactions that the
    sealer gets; a transaction in a block is refused at every later height.
  \<^item> \<open>PBFT_Sealer\<close>: the sealer, composed with the engine and the pool. A run of the whole is a run of
    the engine and a run of the pool; no transaction is sealed twice in a block; the proposal of a leader
    passes the checks of the other nodes; the bounds of the adaptive block size, and how it reacts to a
    lowered and to a raised limit. What the sealer needs of the pool is the interface \<open>tx_source\<close>.
  \<^item> \<open>Tx_DAG\<close>: libblockverifier/DAG and TxDAG with the executing threads, one atomic access per step.
    Every run ends with each transaction executed once, after all earlier ones that it conflicts with,
    and has the result of the serial execution.
  \<^item> \<open>Storage_Table\<close>, \<open>Memory_Table\<close>: libstorage/Table, MemoryTable2 and MemoryTableFactory2. Rolling
    back to a savepoint restores what every selection returns; when the hash of a table is determined;
    the revival of a removed record; the condition that is never met.

  \<^bold>\<open>Parameters.\<close> Code outside of the modelled parts is an argument. Cryptography and hash functions are
  the record \<open>crypto\<close>. What the engine asks of the clock, the network, the chain, the sync module, the
  pool, the verifier and the database is the record \<open>node_env\<close>, chosen anew for each call; what it tells
  them is recorded as events. The pool has the record \<open>pool_env\<close>. The tables have \<open>remote\<close>, the answers
  of the storage below. The execution of a transaction is an argument of the parallel execution.
  \<open>boost::lexical_cast\<close> and \<open>boost::split\<close> are functions. The theorems name what they assume of these
  arguments, and their witnesses give concrete ones.

  \<^bold>\<open>Bounds.\<close> No definition uses fuel: loops are structural or come with a termination proof, and the
  endless loops of the threads are step relations. Floating point numbers of the sealer are natural
  multiples of \<open>2^-64\<close> below \<open>2^128\<close>, rounded to 24 or 53 bits. In every product one factor is a
  converted integer, a multiple of \<open>2^64\<close> of these units, so that the product is exact before rounding.

  \<^bold>\<open>Not modelled.\<close>
  \<^item> The virtual machine, the contracts built into the node and the account state (libevm,
    libinterpreter, libexecutive, libprecompiled, libmptstate, libstoragestate): the execution of a
    transaction is a parameter. BlockVerifier and ExecutiveContext set it up.
  \<^item> Databases and their cache (the storages of libstorage, LevelDB, TrieDB), the older MemoryTable, and
    the chain over them (libblockchain): input and output with answers that are parameters.
  \<^item> Network, synchronisation and servers (libnetwork, libp2p, libsync, librpc, libchannelserver):
    sockets, sessions and JSON.
  \<^item> The Raft engine, the alternative to PBFT; the start-up and the configuration (libinitializer,
    libledger, libconfig, libsecurity); libdevcrypto, which wraps cryptographic libraries.
  \<^item> Logging, status reports in JSON, memoised hashes and senders, waiting on condition variables, and
    data races of members that the source reads without a lock, except in the parallel execution.
\<close>

end
